(* ===== verification/Prelude.thy ===== *)
theory Prelude
  imports Complex_Main "HOL-Library.Word"
begin

text \<open>
  What the components share: the machine integers of the program and the arithmetic its
  source calls on them, the result type of its fallible functions, and generic facts on
  lists. A Rust \<open>u64\<close> (token counts, byte counts, seconds) is a \<open>64 word\<close>, because the
  code saturates, checks and widens these values. A Rust \<open>usize\<close> counts or indexes the
  elements of a collection in memory and is read as \<open>nat\<close>; where the source subtracts
  such values it uses \<open>saturating_sub\<close>, which is subtraction on \<open>nat\<close>.
\<close>

section \<open>Machine integers\<close>

type_synonym u64 = "64 word"
type_synonym u32 = "32 word"

text \<open>A fallible function returns its error message or its value.\<close>

type_synonym 'a rresult = "string + 'a"

named_theorems word_arith_simps "unat of the checked and saturating operations"
named_theorems shape_simps "lengths and element sets of the components' results"

definition sat_add :: "'a::len word \<Rightarrow> 'a word \<Rightarrow> 'a word" where
  "sat_add a b = (if unat a + unat b < 2 ^ LENGTH('a) then a + b else - 1)"

definition sat_sub :: "'a::len word \<Rightarrow> 'a word \<Rightarrow> 'a word" where
  "sat_sub a b = (if b \<le> a then a - b else 0)"

definition sat_mul :: "'a::len word \<Rightarrow> 'a word \<Rightarrow> 'a word" where
  "sat_mul a b = (if unat a * unat b < 2 ^ LENGTH('a) then a * b else - 1)"

definition checked_add :: "'a::len word \<Rightarrow> 'a word \<Rightarrow> 'a word option" where
  "checked_add a b = (if unat a + unat b < 2 ^ LENGTH('a) then Some (a + b) else None)"

definition div_ceil :: "'a::len word \<Rightarrow> 'a word \<Rightarrow> 'a word" where
  "div_ceil a b = (if a mod b = 0 then a div b else a div b + 1)"

lemma unat_neg_one [simp]: "unat (- 1 :: 'a::len word) = 2 ^ LENGTH('a) - 1"
  by (simp add: unsigned_minus_1_eq_mask mask_eq_exp_minus_1)

lemma unat_lt_exp: "unat (a :: 'a::len word) < 2 ^ LENGTH('a)"
  by simp

lemma unat_le_max [simp]: "unat (a :: 'a::len word) \<le> 2 ^ LENGTH('a) - Suc 0"
  using unat_lt_exp [of a] by linarith

lemma less_exp_iff: "n < 2 ^ k \<longleftrightarrow> n \<le> (2::nat) ^ k - Suc 0"
  by (metis Suc_pred le_imp_less_Suc less_Suc_eq_le pos2 zero_less_power)

lemma unat_sat_add [word_arith_simps]:
  "unat (sat_add a b :: 'a::len word) = min (unat a + unat b) (2 ^ LENGTH('a) - 1)"
  by (auto simp: sat_add_def unat_word_ariths min_def less_exp_iff)

lemma unat_of_nat_small: "n < 2 ^ LENGTH('a) \<Longrightarrow> unat (of_nat n :: 'a::len word) = n"
  by (simp add: take_bit_nat_eq_self_iff unsigned_of_nat)

lemma unat_sat_sub [word_arith_simps]: "unat (sat_sub a b) = unat a - unat b"
  by (auto simp: sat_sub_def unat_sub word_le_nat_alt)

lemma unat_sat_mul [word_arith_simps]:
  "unat (sat_mul a b :: 'a::len word) = min (unat a * unat b) (2 ^ LENGTH('a) - 1)"
  by (auto simp: sat_mul_def unat_word_ariths min_def less_exp_iff)

lemma checked_add_eq [word_arith_simps]:
  "checked_add a b = Some c \<longleftrightarrow> unat (c :: 'a::len word) = unat a + unat b"
  by (auto simp: checked_add_def unat_word_ariths word_unat_eq_iff)
    (metis unat_lt_exp)

lemma checked_add_None [word_arith_simps]:
  "checked_add a (b :: 'a::len word) = None \<longleftrightarrow> 2 ^ LENGTH('a) \<le> unat a + unat b"
  by (auto simp: checked_add_def)

lemma checked_add_cases:
  fixes a b :: "'a::len word"
  obtains (fits) "unat a + unat b < 2 ^ LENGTH('a)" "checked_add a b = Some (a + b)"
      "unat (a + b) = unat a + unat b"
    | (overflows) "2 ^ LENGTH('a) \<le> unat a + unat b" "checked_add a b = None"
  by (cases "unat a + unat b < 2 ^ LENGTH('a)") (auto simp: checked_add_def unat_word_ariths)

lemma checked_sum4:
  fixes a b c d n :: "'a::len word"
  shows "Option.bind (checked_add a b)
      (\<lambda>x. Option.bind (checked_add x c) (\<lambda>y. checked_add y d)) = Some n \<longleftrightarrow>
    unat n = unat a + unat b + unat c + unat d"
proof (cases a b rule: checked_add_cases)
  case fits
  show ?thesis
  proof (cases "a + b" c rule: checked_add_cases)
    case fits': fits
    show ?thesis using fits fits' checked_add_eq [of "a + b + c" d n] by simp
  next
    case overflows
    then have "unat n \<noteq> unat a + unat b + unat c + unat d"
      using fits unat_lt_exp [of n] by linarith
    then show ?thesis using overflows fits by simp
  qed
next
  case overflows
  then have "unat n \<noteq> unat a + unat b + unat c + unat d"
    using unat_lt_exp [of n] by linarith
  then show ?thesis using overflows by simp
qed

lemma unat_max [word_arith_simps]: "unat (max a b) = max (unat a) (unat b)"
  by (simp add: max_def word_le_nat_alt)

lemma unat_min [word_arith_simps]: "unat (min a b) = min (unat a) (unat b)"
  by (simp add: min_def word_le_nat_alt)

lemma unat_div_ceil:
  assumes "1 < unat b"
  shows "unat (div_ceil a b :: 'a::len word) = (unat a + unat b - 1) div unat b"
proof -
  let ?q = "unat a div unat b" and ?r = "unat a mod unat b"
  have a: "unat a = ?q * unat b + ?r" by simp
  have r: "?r < unat b" using assms by simp
  have q: "Suc ?q < 2 ^ LENGTH('a)" if "?r \<noteq> 0"
  proof -
    have "?q * 2 \<le> ?q * unat b" using assms by simp
    then have "?q * 2 + 1 \<le> unat a" using a that by linarith
    then show ?thesis using unat_lt_exp [of a] by linarith
  qed
  show ?thesis
  proof (cases "?r = 0")
    case True
    then have "a mod b = 0" by (simp add: unat_eq_zero unat_mod flip: unat_mod)
    moreover have "(unat a + unat b - 1) div unat b = ?q"
      using True a assms by (intro div_nat_eqI) (auto simp: algebra_simps)
    ultimately show ?thesis by (simp add: div_ceil_def unat_div)
  next
    case False
    then have "a mod b \<noteq> 0" by (metis unat_0 unat_mod)
    then have "unat (div_ceil a b) = Suc ?q"
      using q [OF False] by (simp add: div_ceil_def unat_word_ariths unat_div)
    moreover have "(unat a + unat b - 1) div unat b = Suc ?q"
    proof (rule div_nat_eqI)
      have "unat b * Suc ?q = ?q * unat b + unat b" by simp
      then show "unat b * Suc ?q \<le> unat a + unat b - 1" using a False by linarith
      have "unat b * Suc (Suc ?q) = ?q * unat b + unat b + unat b" by simp
      then show "unat a + unat b - 1 < unat b * Suc (Suc ?q)" using a r by linarith
    qed
    ultimately show ?thesis by simp
  qed
qed

text \<open>Monotonicity of the saturating operations, used to follow running totals.\<close>

lemma sat_sub_le [simp]: "sat_sub a b \<le> a"
  by (simp add: word_le_nat_alt word_arith_simps)

lemma sat_add_ge1 [simp]: "a \<le> sat_add a b"
  using unat_lt_exp [of a] by (simp add: word_le_nat_alt word_arith_simps)

lemma sat_add_ge2 [simp]: "b \<le> sat_add a b"
  using unat_lt_exp [of b] by (simp add: word_le_nat_alt word_arith_simps)

lemma sat_add_0 [simp]: "sat_add a 0 = a" "sat_add 0 a = a"
  by (simp_all add: sat_add_def)

lemma sat_sub_0 [simp]: "sat_sub a 0 = a" "sat_sub 0 a = 0"
  by (auto simp: sat_sub_def)

lemma sat_add_assoc: "sat_add (sat_add a b) c = sat_add a (sat_add b c)"
  by (simp add: word_unat_eq_iff word_arith_simps)

lemma sat_add_commute: "sat_add a b = sat_add b a"
  by (simp add: word_unat_eq_iff word_arith_simps add.commute)

lemma sat_sub_sat_sub: "sat_sub (sat_sub a b) c = sat_sub (a :: 'a::len word) (sat_add b c)"
proof (cases "unat b + unat c \<le> 2 ^ LENGTH('a) - 1")
  case True
  then show ?thesis by (simp add: word_unat_eq_iff word_arith_simps)
next
  case False
  then have "unat a \<le> unat b + unat c" using unat_le_max [of a] by linarith
  with False show ?thesis by (simp add: word_unat_eq_iff word_arith_simps)
qed

text \<open>A saturating total over a list is the exact sum, capped at the width's maximum.\<close>

lemma unat_fold_sat_add:
  "unat (fold (\<lambda>x acc. sat_add acc (f x)) xs a :: 'a::len word) =
     min (unat a + (\<Sum>x\<leftarrow>xs. unat (f x))) (2 ^ LENGTH('a) - 1)"
proof (induction xs arbitrary: a)
  case Nil
  then show ?case using unat_lt_exp [of a] by simp
next
  case (Cons x xs)
  then show ?case by (simp add: word_arith_simps)
qed

lemma fold_sat_sub:
  "fold (\<lambda>x acc. sat_sub acc (f x)) xs a = sat_sub a (fold (\<lambda>x acc. sat_add acc (f x)) xs 0)"
proof (induction xs rule: rev_induct)
  case Nil
  then show ?case by simp
next
  case (snoc x xs)
  then show ?case by (simp add: sat_sub_sat_sub)
qed

section \<open>Lists\<close>

lemma sorted_wrt_less_iff_distinct_sorted:
  "sorted_wrt (<) (xs :: 'a::linorder list) \<longleftrightarrow> sorted xs \<and> distinct xs"
  by (simp add: strict_sorted_iff)

lemma set_take_filter: "x \<in> set (take n (filter P xs)) \<Longrightarrow> x \<in> set xs \<and> P x"
  by (metis (mono_tags, lifting) filter_set in_set_takeD Set.filter_eq mem_Collect_eq)

lemma find_SomeD: "find P xs = Some x \<Longrightarrow> x \<in> set xs \<and> P x"
  by (induction xs) (auto split: if_splits)

lemma distinct_map_filter_take:
  "distinct (map f xs) \<Longrightarrow> distinct (map f (take n (filter P xs)))"
  by (simp add: distinct_map_filter flip: take_map)

text \<open>A stable sort by a comparison: each element goes behind those it does not come before.\<close>

fun insert_after :: "('a \<Rightarrow> 'a \<Rightarrow> bool) \<Rightarrow> 'a \<Rightarrow> 'a list \<Rightarrow> 'a list" where
  "insert_after le x [] = [x]"
| "insert_after le x (y # ys) = (if le y x then y # insert_after le x ys else x # y # ys)"

definition sort_with :: "('a \<Rightarrow> 'a \<Rightarrow> bool) \<Rightarrow> 'a list \<Rightarrow> 'a list" where
  "sort_with le xs = fold (insert_after le) xs []"

lemma set_insert_after [simp]: "set (insert_after le x ys) = insert x (set ys)"
  by (induction ys) auto

lemma set_sort_with [simp]: "set (sort_with le xs) = set xs"
proof -
  have "set (fold (insert_after le) xs ys) = set xs \<union> set ys" for ys
    by (induction xs arbitrary: ys) auto
  then show ?thesis by (simp add: sort_with_def)
qed

lemma length_sort_with [simp]: "length (sort_with le xs) = length xs"
proof -
  have "length (insert_after le x ys) = Suc (length ys)" for x ys
    by (induction ys) auto
  then have "length (fold (insert_after le) xs ys) = length xs + length ys" for ys
    by (induction xs arbitrary: ys) auto
  then show ?thesis by (simp add: sort_with_def)
qed

lemma sorted_wrt_insert_after:
  assumes "\<And>a b. le a b \<or> le b a" "\<And>a b c. le a b \<Longrightarrow> le b c \<Longrightarrow> le a c"
  shows "sorted_wrt le ys \<Longrightarrow> sorted_wrt le (insert_after le x ys)"
proof (induction ys)
  case (Cons y ys)
  then show ?case using assms(1) [of x y] assms(2) [of x y] by auto
qed simp

lemma sorted_wrt_sort_with:
  assumes "\<And>a b. le a b \<or> le b a" "\<And>a b c. le a b \<Longrightarrow> le b c \<Longrightarrow> le a c"
  shows "sorted_wrt le (sort_with le xs)"
proof -
  have "sorted_wrt le ys \<Longrightarrow> sorted_wrt le (fold (insert_after le) xs ys)" for ys
  proof (induction xs arbitrary: ys)
    case (Cons x xs)
    then show ?case using sorted_wrt_insert_after [of le ys x] assms by simp
  qed simp
  then show ?thesis by (simp add: sort_with_def)
qed

section \<open>Options\<close>

definition opt_list :: "'a option \<Rightarrow> 'a list" where
  "opt_list v = (case v of Some x \<Rightarrow> [x] | None \<Rightarrow> [])"

lemma opt_list_simps [simp]: "opt_list None = []" "opt_list (Some x) = [x]"
  by (simp_all add: opt_list_def)

end
