(* ===== verification/Estimate.thy ===== *)
theory Estimate
  imports Prelude
begin

text \<open>
  Token estimates (\<open>crates/gobstopper-core/src/estimate.rs\<close>) and the admission kernels
  they rest on (\<open>is_elidable\<close> of \<open>admission.rs\<close>): four bytes per token, saturating totals,
  and the savings of replacing a payload by its stubs. All values are \<open>u64\<close>, as in the code.
\<close>

definition CHARS_PER_TOKEN :: u64 where
  "CHARS_PER_TOKEN = 4"

definition estimate_token_bytes :: "u64 \<Rightarrow> u64" where
  "estimate_token_bytes bytes = max (div_ceil bytes CHARS_PER_TOKEN) 1"

definition estimate_tokens :: "nat \<Rightarrow> u64" where
  "estimate_tokens text_len = estimate_token_bytes (of_nat text_len)"

definition add_tokens :: "u64 \<Rightarrow> u64 \<Rightarrow> u64" where
  "add_tokens running additional = sat_add running additional"

definition is_elidable_payload :: "u64 \<Rightarrow> u64 option \<Rightarrow> bool" where
  "is_elidable_payload est_tokens bytes \<longleftrightarrow>
     est_tokens > 0 \<and> (case bytes of Some b \<Rightarrow> b > 0 | None \<Rightarrow> False)"

definition elision_savings :: "u64 \<Rightarrow> u64 option \<Rightarrow> u32 \<Rightarrow> u64" where
  "elision_savings est_tokens bytes parts =
     (if \<not> is_elidable_payload est_tokens bytes then 0
      else
        let b = (case bytes of Some b \<Rightarrow> b | None \<Rightarrow> 0);
            stub_budget = ucast (max parts 1) * 96
        in min (sat_sub (estimate_token_bytes b) (estimate_token_bytes stub_budget)) est_tokens)"

lemma unat_estimate_token_bytes [word_arith_simps]:
  "unat (estimate_token_bytes b) = max ((unat b + 3) div 4) 1"
  by (simp add: estimate_token_bytes_def CHARS_PER_TOKEN_def word_arith_simps unat_div_ceil)

lemma estimate_token_bytes_pos [simp]: "0 < estimate_token_bytes b"
  by (simp add: word_less_nat_alt word_arith_simps)

lemma unat_ucast_u32: "unat (ucast (a :: u32) :: u64) = unat a"
  by (simp add: unsigned_ucast_eq flip: take_bit_eq_mask) (simp add: take_bit_nat_eq_self_iff less_le_trans [OF unat_lt_exp])

lemma unat_stub_budget:
  "unat (ucast (max parts 1) * 96 :: u64) = max (unat (parts :: u32)) 1 * 96"
proof -
  have "unat (max parts 1) < 2 ^ 32" using unat_lt_exp [of "max parts 1"] by simp
  then have "unat (ucast (max parts 1) :: u64) * 96 < 2 ^ 64" by (simp add: unat_ucast_u32)
  then show ?thesis by (simp add: unat_word_ariths word_arith_simps unat_ucast_u32)
qed

lemma elision_savings_le: "elision_savings t b p \<le> t"
  by (simp add: elision_savings_def Let_def)

lemma elision_savings_not_elidable [simp]:
  "\<not> is_elidable_payload t b \<Longrightarrow> elision_savings t b p = 0"
  by (simp add: elision_savings_def)

text \<open>Eliding an item never claims more tokens than the item's live estimate, and the
  64-bit computation equals the exact one over unbounded naturals: the payload's tokens less
  the tokens of one 96-byte stub per part, capped at the item's estimate, and zero for an item
  with no live tokens or no payload. No step wraps around.\<close>

theorem elision_savings_exact:
  "elision_savings t b p \<le> t \<and>
   unat (elision_savings t b p) =
     (case b of
        Some n \<Rightarrow>
          if t = 0 \<or> n = 0 then 0
          else min (max ((unat n + 3) div 4) 1 - (max (unat p) 1 * 96 + 3) div 4) (unat t)
      | None \<Rightarrow> 0)"
proof (intro conjI)
  show "elision_savings t b p \<le> t" by (rule elision_savings_le)
  have m: "max ((max (unat p) 1 * 96 + 3) div 4) 1 = (max (unat p) 1 * 96 + 3) div 4"
    by (cases "unat p \<le> 1") (auto simp: max_def)
  show "unat (elision_savings t b p) =
     (case b of
        Some n \<Rightarrow>
          if t = 0 \<or> n = 0 then 0
          else min (max ((unat n + 3) div 4) 1 - (max (unat p) 1 * 96 + 3) div 4) (unat t)
      | None \<Rightarrow> 0)"
  proof (cases b)
    case None
    then show ?thesis by (simp add: elision_savings_def is_elidable_payload_def)
  next
    case (Some n)
    show ?thesis
    proof (cases "t = 0 \<or> n = 0")
      case True
      then show ?thesis using Some
        by (auto simp: elision_savings_def is_elidable_payload_def)
    next
      case False
      then have "0 < t" "0 < n" by (simp_all add: word_neq_0_conv)
      then show ?thesis using Some m False
        by (simp add: elision_savings_def is_elidable_payload_def word_arith_simps
            unat_stub_budget)
    qed
  qed
qed

end
