(* ===== verification/Admission.thy ===== *)
theory Admission
  imports Estimate
begin

text \<open>
  The admission kernels of \<open>crates/gobstopper-core/src/admission.rs\<close>: the production bounds,
  the composition state machine \<open>EditAdmission\<close>, and the ordered identity list with its binary
  search. The kernels are total functions; \<open>admit\<close> returns the new state beside its result,
  since the source mutates \<open>self\<close> only on success.
\<close>

section \<open>Bounds\<close>

definition MAX_EDITS :: nat where "MAX_EDITS = 64"
definition MAX_ITEMS :: nat where "MAX_ITEMS = 100000"
definition MAX_DIGEST_BYTES :: nat where "MAX_DIGEST_BYTES = 32 * 1024"
definition MAX_POLICY_TOKENS :: u64 where "MAX_POLICY_TOKENS = 10000000"
definition MAX_INTERVAL_SECS :: u64 where "MAX_INTERVAL_SECS = 86400"

definition plan_bounds :: "nat \<Rightarrow> nat \<Rightarrow> bool" where
  "plan_bounds edits items \<longleftrightarrow> edits \<le> MAX_EDITS \<and> items \<le> MAX_ITEMS"

definition add_digest_bytes :: "nat \<Rightarrow> nat \<Rightarrow> nat option" where
  "add_digest_bytes tot additional =
     (if tot + additional < 2 ^ 64
      then (let nxt = tot + additional in if nxt \<le> MAX_DIGEST_BYTES then Some nxt else None)
      else None)"

definition unprotected_len :: "nat \<Rightarrow> nat \<Rightarrow> nat" where
  "unprotected_len eligible keep_recent = eligible - keep_recent"

definition target_allowed :: "u64 \<Rightarrow> u64 option \<Rightarrow> bool \<Rightarrow> bool" where
  "target_allowed est_tokens bytes protected \<longleftrightarrow>
     is_elidable_payload est_tokens bytes \<and> \<not> protected"

lemma add_digest_bytes_Some:
  "add_digest_bytes a b = Some c \<longleftrightarrow> c = a + b \<and> a + b \<le> MAX_DIGEST_BYTES"
  by (auto simp: add_digest_bytes_def MAX_DIGEST_BYTES_def Let_def)

section \<open>Composition of edits\<close>

datatype edit_class = Elide_class | Digest_class | Provider_control | Cache_control

record edit_admission =
  edits_count :: nat
  digests_count :: nat
  control_seen :: bool

definition default_admission :: edit_admission where
  "default_admission = \<lparr>edits_count = 0, digests_count = 0, control_seen = False\<rparr>"

definition admission_valid :: "edit_admission \<Rightarrow> bool" where
  "admission_valid s \<longleftrightarrow>
     edits_count s \<le> MAX_EDITS \<and> digests_count s \<le> 1 \<and> digests_count s \<le> edits_count s \<and>
     (\<not> control_seen s \<or> (edits_count s = 1 \<and> digests_count s = 0))"

definition is_control_class :: "edit_class \<Rightarrow> bool" where
  "is_control_class c \<longleftrightarrow> c = Provider_control \<or> c = Cache_control"

definition admit :: "edit_class \<Rightarrow> edit_admission \<Rightarrow> unit rresult \<times> edit_admission" where
  "admit cls s =
     (if \<not> admission_valid s \<or> edits_count s \<ge> MAX_EDITS \<or> control_seen s
      then (Inl ''invalid edit composition'', s)
      else
        let control = is_control_class cls in
        if (control \<and> edits_count s \<noteq> 0) \<or> (cls = Digest_class \<and> digests_count s \<noteq> 0)
        then (Inl ''invalid edit composition'', s)
        else (Inr (), \<lparr>edits_count = edits_count s + 1,
                       digests_count = digests_count s + (if cls = Digest_class then 1 else 0),
                       control_seen = control\<rparr>))"

text \<open>The validator admits the classes of a plan in order and stops at the first refusal.\<close>

fun admit_all :: "edit_class list \<Rightarrow> edit_admission \<Rightarrow> unit rresult \<times> edit_admission" where
  "admit_all [] s = (Inr (), s)"
| "admit_all (c # cs) s =
     (case admit c s of (Inl e, s') \<Rightarrow> (Inl e, s') | (Inr _, s') \<Rightarrow> admit_all cs s')"

lemma admit_Err_unchanged: "admit c s = (Inl e, s') \<Longrightarrow> s' = s"
  by (auto simp: admit_def Let_def split: if_splits)

lemma admit_Ok_valid: "admit c s = (Inr u, s') \<Longrightarrow> admission_valid s'"
  by (cases c)
    (auto simp: admit_def Let_def admission_valid_def is_control_class_def split: if_splits)

lemma admit_Ok_count: "admit c s = (Inr u, s') \<Longrightarrow> edits_count s' = edits_count s + 1"
  by (auto simp: admit_def Let_def split: if_splits)

lemma admit_Ok_iff:
  "fst (admit c s) = Inr () \<longleftrightarrow>
     admission_valid s \<and> edits_count s < MAX_EDITS \<and> \<not> control_seen s \<and>
     (is_control_class c \<longrightarrow> edits_count s = 0) \<and> (c = Digest_class \<longrightarrow> digests_count s = 0)"
  by (auto simp: admit_def Let_def)

text \<open>What a plan's classes must look like, without the running state: one control edit
  alone, or up to the edit limit of elisions and digests with at most one digest.\<close>

definition composition_ok :: "edit_class list \<Rightarrow> bool" where
  "composition_ok cs \<longleftrightarrow>
     (\<exists>c. cs = [c] \<and> is_control_class c) \<or>
     (list_all (\<lambda>c. \<not> is_control_class c) cs \<and> length cs \<le> MAX_EDITS \<and>
      length (filter ((=) Digest_class) cs) \<le> 1)"

lemma admit_all_plain:
  assumes "admission_valid s" "\<not> control_seen s"
  shows "fst (admit_all cs s) = Inr () \<longleftrightarrow>
     (cs = [] \<or> (edits_count s = 0 \<and> (\<exists>c. cs = [c] \<and> is_control_class c)) \<or>
      (list_all (\<lambda>c. \<not> is_control_class c) cs \<and> edits_count s + length cs \<le> MAX_EDITS \<and>
       digests_count s + length (filter ((=) Digest_class) cs) \<le> 1))"
  using assms
proof (induction cs arbitrary: s)
  case Nil
  then show ?case by simp
next
  case (Cons c cs)
  show ?case
  proof (cases "admit c s")
    case (Pair r s')
    show ?thesis
    proof (cases r)
      case (Inl e)
      then have "fst (admit c s) \<noteq> Inr ()" using Pair by simp
      then have "\<not> (edits_count s < MAX_EDITS \<and> (is_control_class c \<longrightarrow> edits_count s = 0) \<and>
          (c = Digest_class \<longrightarrow> digests_count s = 0))"
        using Cons.prems by (simp add: admit_Ok_iff)
      then show ?thesis using Pair Inl
        by (auto simp: is_control_class_def MAX_EDITS_def)
    next
      case (Inr u)
      then have ok: "fst (admit c s) = Inr ()" using Pair by simp
      have s': "s' = \<lparr>edits_count = edits_count s + 1,
          digests_count = digests_count s + (if c = Digest_class then 1 else 0),
          control_seen = is_control_class c\<rparr>"
        using Pair Inr by (auto simp: admit_def Let_def split: if_splits)
      have valid': "admission_valid s'" using Pair Inr by (metis admit_Ok_valid)
      show ?thesis
      proof (cases "is_control_class c")
        case True
        have refuse: "fst (admit_all cs s') \<noteq> Inr ()" if "cs \<noteq> []"
          using that True s' by (cases cs) (auto simp: admit_def)
        have "c \<noteq> Digest_class" using True by (auto simp: is_control_class_def)
        moreover have "edits_count s = 0" using ok True by (simp add: admit_Ok_iff)
        ultimately show ?thesis using Pair Inr True refuse by (cases cs) auto
      next
        case False
        then have "\<not> control_seen s'" using s' by simp
        note IH = Cons.IH [OF valid' this]
        have "edits_count s < MAX_EDITS" "c = Digest_class \<longrightarrow> digests_count s = 0"
          "digests_count s \<le> 1"
          using ok Cons.prems by (simp_all add: admit_Ok_iff admission_valid_def)
        then show ?thesis using Pair Inr False s' IH by auto
      qed
    qed
  qed
qed

lemma admit_all_default: "fst (admit_all cs default_admission) = Inr () \<longleftrightarrow> composition_ok cs"
proof -
  have "admission_valid default_admission" "\<not> control_seen default_admission"
    by (simp_all add: admission_valid_def default_admission_def)
  from admit_all_plain [OF this, of cs] show ?thesis
    by (auto simp: composition_ok_def default_admission_def MAX_EDITS_def)
qed

text \<open>The composition state machine accepts exactly the plans of its abstract
  specification: a single provider or cache control edit alone, or at most 64 elisions and
  digests with at most one digest; a refused edit leaves the state unchanged and an accepted
  one leaves it valid.\<close>

theorem admit_all_refines_composition:
  "(fst (admit_all cs default_admission) = Inr () \<longleftrightarrow> composition_ok cs) \<and>
   (case admit c s of
      (Inl _, s') \<Rightarrow> s' = s
    | (Inr _, s') \<Rightarrow> admission_valid s' \<and> edits_count s' = edits_count s + 1)"
proof
  show "fst (admit_all cs default_admission) = Inr () \<longleftrightarrow> composition_ok cs"
    by (rule admit_all_default)
  show "case admit c s of
      (Inl _, s') \<Rightarrow> s' = s
    | (Inr _, s') \<Rightarrow> admission_valid s' \<and> edits_count s' = edits_count s + 1"
  proof (cases "admit c s")
    case (Pair r s')
    then show ?thesis
      using admit_Err_unchanged [of c s _ s'] admit_Ok_valid [of c s _ s'] admit_Ok_count [of c s _ s']
      by (cases r) simp_all
  qed
qed

section \<open>Ordered identities\<close>

function strictly_increasing_from :: "nat list \<Rightarrow> nat \<Rightarrow> bool" where
  "strictly_increasing_from indexes position =
     (if position < length indexes then
        if indexes ! (position - 1) \<ge> indexes ! position then False
        else strictly_increasing_from indexes (position + 1)
      else True)"
  by pat_completeness auto
termination
  by (relation "measure (\<lambda>(xs, i). length xs - i)") auto

declare strictly_increasing_from.simps [simp del]

definition strictly_increasing :: "nat list \<Rightarrow> bool" where
  "strictly_increasing indexes = strictly_increasing_from indexes 1"

function find_index_between :: "nat list \<Rightarrow> nat \<Rightarrow> nat \<Rightarrow> nat \<Rightarrow> nat option" where
  "find_index_between indexes target low high =
     (if low < high then
        let middle = low + (high - low) div 2 in
        if indexes ! middle < target then find_index_between indexes target (middle + 1) high
        else if indexes ! middle > target then find_index_between indexes target low middle
        else Some middle
      else None)"
  by pat_completeness auto
termination
  by (relation "measure (\<lambda>(xs, t, low, high). high - low)") (auto simp: Let_def)

declare find_index_between.simps [simp del]

definition find_index :: "nat list \<Rightarrow> nat \<Rightarrow> nat option" where
  "find_index indexes target = find_index_between indexes target 0 (length indexes)"

lemma strictly_increasing_from_iff:
  "1 \<le> i \<Longrightarrow> strictly_increasing_from xs i \<longleftrightarrow>
     (\<forall>k. i \<le> k \<and> k < length xs \<longrightarrow> xs ! (k - 1) < xs ! k)"
proof (induction xs i rule: strictly_increasing_from.induct)
  case (1 xs i)
  show ?case
  proof (cases "i < length xs \<and> xs ! (i - 1) < xs ! i")
    case True
    then have "strictly_increasing_from xs i = strictly_increasing_from xs (i + 1)"
      by (subst strictly_increasing_from.simps) simp
    then show ?thesis using 1 True
      by (auto simp: Suc_le_eq) (metis le_eq_less_or_eq)
  next
    case False
    then show ?thesis by (subst strictly_increasing_from.simps) auto
  qed
qed

lemma strictly_increasing_iff: "strictly_increasing xs \<longleftrightarrow> sorted_wrt (<) xs"
proof -
  have "strictly_increasing xs \<longleftrightarrow> (\<forall>i. Suc i < length xs \<longrightarrow> xs ! i < xs ! Suc i)"
    unfolding strictly_increasing_def
    by (simp add: strictly_increasing_from_iff)
      (metis One_nat_def Suc_le_mono diff_Suc_1 le0 not0_implies_Suc not_one_le_zero)
  then show ?thesis by (simp add: sorted_wrt_iff_nth_Suc_transp transp_on_less)
qed

lemma find_index_between_sound:
  "high \<le> length xs \<Longrightarrow> find_index_between xs t low high = Some i \<Longrightarrow> i < length xs \<and> xs ! i = t"
proof (induction xs t low high rule: find_index_between.induct)
  case (1 xs t low high)
  then show ?case
    by (subst (asm) (3) find_index_between.simps)
      (fastforce simp: Let_def split: if_splits)
qed

lemma find_index_between_complete:
  "sorted_wrt (<) xs \<Longrightarrow> high \<le> length xs \<Longrightarrow> low \<le> i \<Longrightarrow> i < high \<Longrightarrow> xs ! i = t \<Longrightarrow>
     find_index_between xs t low high = Some i"
proof (induction xs t low high rule: find_index_between.induct)
  case (1 xs t low high)
  define m where "m = low + (high - low) div 2"
  have m: "low \<le> m" "m < high" using 1 by (auto simp: m_def)
  have less: "j < k \<Longrightarrow> k < length xs \<Longrightarrow> xs ! j < xs ! k" for j k
    using 1(3) by (simp add: sorted_wrt_iff_nth_less)
  consider "i < m" | "i = m" | "m < i" by linarith
  then show ?case
  proof cases
    case 1
    then have "xs ! m > t" using less [of i m] m \<open>high \<le> length xs\<close> \<open>xs ! i = t\<close> by simp
    then show ?thesis using 1 "1.IH"(2) [OF _ m_def] "1.prems" m
      by (subst find_index_between.simps) (simp add: Let_def flip: m_def)
  next
    case 2
    then show ?thesis using "1.prems" m
      by (subst find_index_between.simps) (simp add: Let_def flip: m_def)
  next
    case 3
    then have "xs ! m < t" using less [of m i] m \<open>high \<le> length xs\<close> \<open>xs ! i = t\<close> \<open>i < high\<close> by simp
    then show ?thesis using 3 "1.IH"(1) [OF _ m_def] "1.prems" m
      by (subst find_index_between.simps) (simp add: Let_def flip: m_def)
  qed
qed

lemma find_index_Some:
  "sorted_wrt (<) xs \<Longrightarrow> find_index xs t = Some i \<longleftrightarrow> i < length xs \<and> xs ! i = t"
  unfolding find_index_def
  by (metis find_index_between_complete find_index_between_sound le_refl zero_le)

lemma find_index_None: "sorted_wrt (<) xs \<Longrightarrow> find_index xs t = None \<longleftrightarrow> t \<notin> set xs"
  by (metis find_index_Some in_set_conv_nth not_None_eq)

text \<open>On a list the order check accepts, the binary search finds an identity exactly where
  it is and reports absence exactly when it does not occur; the order check accepts exactly the
  strictly increasing lists, so duplicates are refused; and even on an unordered list the search
  never returns a wrong position.\<close>

theorem find_index_correct:
  "(strictly_increasing xs \<longleftrightarrow> sorted xs \<and> distinct xs) \<and>
   (strictly_increasing xs \<longrightarrow>
      (\<forall>i. find_index xs t = Some i \<longleftrightarrow> i < length xs \<and> xs ! i = t) \<and>
      (find_index xs t = None \<longleftrightarrow> t \<notin> set xs)) \<and>
   (\<forall>i. find_index xs t = Some i \<longrightarrow> i < length xs \<and> xs ! i = t)"
proof (intro conjI)
  show "strictly_increasing xs \<longleftrightarrow> sorted xs \<and> distinct xs"
    by (simp only: strictly_increasing_iff sorted_wrt_less_iff_distinct_sorted)
  show "strictly_increasing xs \<longrightarrow>
      (\<forall>i. find_index xs t = Some i \<longleftrightarrow> i < length xs \<and> xs ! i = t) \<and>
      (find_index xs t = None \<longleftrightarrow> t \<notin> set xs)"
    using find_index_Some find_index_None unfolding strictly_increasing_iff by blast
  show "\<forall>i. find_index xs t = Some i \<longrightarrow> i < length xs \<and> xs ! i = t"
    using find_index_between_sound [of "length xs" xs t 0] unfolding find_index_def by blast
qed

theorem find_index_correct_witness:
  "strictly_increasing [2, 5, 9] \<and> find_index [2, 5, 9] 5 = Some 1 \<and> find_index [2, 5, 9] 4 = None"
proof -
  have s: "strictly_increasing [2, 5, 9]" by code_simp
  then have "find_index [2, 5, 9] 5 = Some 1"
    using find_index_correct [of "[2, 5, 9]" 5] by (metis One_nat_def length_Cons nth_Cons_0
      nth_Cons_Suc Suc_less_eq zero_less_Suc)
  moreover have "find_index [2, 5, 9] 4 = None"
    using s find_index_correct [of "[2, 5, 9]" 4] by simp
  ultimately show ?thesis using s by blast
qed

end
