(* ===== verification/Strings.thy ===== *)
theory Strings
  imports Prelude
begin

text \<open>
  Rust strings. A \<open>&str\<close> or \<open>String\<close> is the list of its Unicode scalar values, so
  \<open>chars().count()\<close> is \<open>length\<close> and \<open>len()\<close>, the number of UTF-8 bytes, is
  \<open>str_len\<close>. The operations of the standard library that the program calls are defined
  on this type. Unicode case mapping needs the tables of the standard library and is an
  argument \<open>lc\<close> of the functions that lower-case text.
\<close>

section \<open>Text as scalar values\<close>

type_synonym ustr = "nat list"

definition lit :: "string \<Rightarrow> ustr" where
  "lit s = map of_char s"

definition utf8_len :: "nat \<Rightarrow> nat" where
  "utf8_len c = (if c < 128 then 1 else if c < 2048 then 2 else if c < 65536 then 3 else 4)"

definition str_len :: "ustr \<Rightarrow> nat" where
  "str_len s = sum_list (map utf8_len s)"

abbreviation (input) nl :: nat where "nl \<equiv> 10"
abbreviation (input) cr :: nat where "cr \<equiv> 13"

lemma lit_Nil [simp]: "lit [] = []"
  by (simp add: lit_def)

lemma lit_Cons [simp]: "lit (c # s) = of_char c # lit s"
  by (simp add: lit_def)

lemma str_len_simps [simp]:
  "str_len [] = 0" "str_len (c # s) = utf8_len c + str_len s"
  "str_len (s @ t) = str_len s + str_len t"
  by (simp_all add: str_len_def)

lemma length_le_str_len: "length s \<le> str_len s"
  by (induction s) (auto simp: utf8_len_def)

definition starts_with :: "ustr \<Rightarrow> ustr \<Rightarrow> bool" where
  "starts_with s p \<longleftrightarrow> take (length p) s = p"

definition ends_with :: "ustr \<Rightarrow> ustr \<Rightarrow> bool" where
  "ends_with s p \<longleftrightarrow> length p \<le> length s \<and> drop (length s - length p) s = p"

definition strip_prefix :: "ustr \<Rightarrow> ustr \<Rightarrow> ustr option" where
  "strip_prefix s p = (if starts_with s p then Some (drop (length p) s) else None)"

definition strip_suffix :: "ustr \<Rightarrow> ustr \<Rightarrow> ustr option" where
  "strip_suffix s p = (if ends_with s p then Some (take (length s - length p) s) else None)"

text \<open>\<open>str::find\<close> of a string pattern: the position of its first occurrence.\<close>

fun find_str :: "ustr \<Rightarrow> ustr \<Rightarrow> nat option" where
  "find_str p [] = (if p = [] then Some 0 else None)"
| "find_str p (c # s) =
     (if starts_with (c # s) p then Some 0 else map_option Suc (find_str p s))"

definition contains_str :: "ustr \<Rightarrow> ustr \<Rightarrow> bool" where
  "contains_str s p \<longleftrightarrow> find_str p s \<noteq> None"

lemma starts_with_append [simp]: "starts_with (p @ s) p"
  by (simp add: starts_with_def)

lemma starts_with_iff: "starts_with s p \<longleftrightarrow> (\<exists>t. s = p @ t)"
  by (metis append_take_drop_id starts_with_append starts_with_def)

lemma starts_with_Nil [simp]: "starts_with s []" "starts_with [] (c # p) = False"
  by (simp_all add: starts_with_def)

lemma starts_with_Cons [simp]: "starts_with (d # s) (c # p) \<longleftrightarrow> d = c \<and> starts_with s p"
  by (simp add: starts_with_def)

lemma starts_with_length: "starts_with s p \<Longrightarrow> length p \<le> length s"
  by (auto simp: starts_with_iff)

lemma strip_prefix_append [simp]: "strip_prefix (p @ s) p = Some s"
  by (simp add: strip_prefix_def)

lemma strip_prefix_Some: "strip_prefix s p = Some t \<longleftrightarrow> s = p @ t"
  by (auto simp: strip_prefix_def starts_with_iff)

lemma ends_with_append [simp]: "ends_with (s @ p) p"
  by (simp add: ends_with_def)

lemma strip_suffix_append [simp]: "strip_suffix (s @ p) p = Some s"
  by (simp add: strip_suffix_def)

lemma find_str_None: "find_str p s = None \<longleftrightarrow> (\<forall>a b. s \<noteq> a @ p @ b)"
proof (induction s)
  case Nil
  then show ?case by auto
next
  case (Cons c s)
  have "(\<exists>a b. c # s = a @ p @ b) \<longleftrightarrow> starts_with (c # s) p \<or> (\<exists>a b. s = a @ p @ b)"
    by (auto simp: starts_with_iff Cons_eq_append_conv)
  then show ?case using Cons by auto
qed

lemma find_str_Some:
  "find_str p s = Some i \<Longrightarrow> take i s @ p @ drop (i + length p) s = s"
proof (induction s arbitrary: i)
  case Nil
  then show ?case by (auto split: if_splits)
next
  case (Cons c s)
  then show ?case by (auto simp: starts_with_iff split: if_splits)
qed

lemma find_str_bound: "find_str p s = Some i \<Longrightarrow> i + length p \<le> length s"
proof (induction s arbitrary: i)
  case Nil
  then show ?case by (auto split: if_splits)
next
  case (Cons c s)
  then show ?case using starts_with_length [of "c # s" p] by (auto split: if_splits)
qed

section \<open>Splitting and joining\<close>

text \<open>\<open>split\<close> at the characters that satisfy a predicate: one more piece than hits.\<close>

fun split_where :: "(nat \<Rightarrow> bool) \<Rightarrow> ustr \<Rightarrow> ustr list" where
  "split_where P [] = [[]]"
| "split_where P (c # s) =
     (if P c then [] # split_where P s
      else (case split_where P s of [] \<Rightarrow> [[c]] | w # ws \<Rightarrow> (c # w) # ws))"

fun join :: "ustr \<Rightarrow> ustr list \<Rightarrow> ustr" where
  "join sep [] = []"
| "join sep [x] = x"
| "join sep (x # y # ys) = x @ sep @ join sep (y # ys)"

text \<open>\<open>split\<close> at a non-empty string pattern.\<close>

function split_str :: "ustr \<Rightarrow> ustr \<Rightarrow> ustr list" where
  "split_str p s =
     (case find_str p s of
        None \<Rightarrow> [s]
      | Some i \<Rightarrow> if p = [] then [s] else take i s # split_str p (drop (i + length p) s))"
  by pat_completeness auto
termination
proof (relation "measure (\<lambda>(p, s). length s)", goal_cases)
  case (2 p s i)
  have "i + length p \<le> length s" by (rule find_str_bound [OF 2(1)])
  moreover have "0 < length p" using 2(2) by simp
  ultimately have "length s - (i + length p) < length s" by linarith
  then show ?case by simp
qed simp

declare split_str.simps [simp del]

text \<open>\<open>split_inclusive('\n')\<close>: the pieces that end with a line feed, and the rest when there is one.\<close>

fun split_inclusive :: "ustr \<Rightarrow> ustr list" where
  "split_inclusive [] = []"
| "split_inclusive (c # s) =
     (if c = nl then [c] # split_inclusive s
      else (case split_inclusive s of [] \<Rightarrow> [[c]] | w # ws \<Rightarrow> (c # w) # ws))"

text \<open>\<open>lines()\<close>: these pieces without their line feed and, before a line feed, one carriage return.\<close>

definition line_of :: "ustr \<Rightarrow> ustr" where
  "line_of piece =
     (case strip_suffix piece [nl] of
        None \<Rightarrow> piece
      | Some l \<Rightarrow> (case strip_suffix l [cr] of Some l' \<Rightarrow> l' | None \<Rightarrow> l))"

definition lines :: "ustr \<Rightarrow> ustr list" where
  "lines s = map line_of (split_inclusive s)"

lemma split_where_nonempty [simp]: "split_where P s \<noteq> []"
  by (induction s) (auto split: list.splits)

lemma split_where_append:
  "list_all (\<lambda>c. \<not> P c) l \<Longrightarrow> P d \<Longrightarrow> split_where P (l @ d # s) = l # split_where P s"
  by (induction l) auto

lemma split_where_hits: "w \<in> set (split_where P s) \<Longrightarrow> list_all (\<lambda>c. \<not> P c) w"
  by (induction s arbitrary: w) (auto split: if_splits list.splits)

definition line_safe :: "ustr \<Rightarrow> bool" where
  "line_safe l \<longleftrightarrow> nl \<notin> set l \<and> \<not> ends_with l [cr]"

lemma split_inclusive_line:
  "nl \<notin> set l \<Longrightarrow> split_inclusive (l @ nl # s) = (l @ [nl]) # split_inclusive s"
  by (induction l) auto

lemma split_inclusive_last: "nl \<notin> set l \<Longrightarrow> l \<noteq> [] \<Longrightarrow> split_inclusive l = [l]"
proof (induction l)
  case (Cons c l)
  then show ?case by (cases "l = []") auto
qed simp

lemma concat_split_inclusive [simp]: "concat (split_inclusive s) = s"
  by (induction s) (auto split: list.splits)

lemma line_of_nl: "line_safe l \<Longrightarrow> line_of (l @ [nl]) = l"
  by (auto simp: line_of_def line_safe_def strip_suffix_def)

lemma line_of_crnl: "line_of (l @ [cr, nl]) = l"
  using strip_suffix_append [of "l @ [cr]" "[nl]"] by (simp add: line_of_def)

lemma line_of_rest: "nl \<notin> set l \<Longrightarrow> line_of l = l"
proof -
  assume "nl \<notin> set l"
  then have "\<not> ends_with l [nl]" by (metis ends_with_def in_set_dropD list.set_intros(1))
  then show ?thesis by (simp add: line_of_def strip_suffix_def)
qed

lemma lines_concat:
  "list_all line_safe ls \<Longrightarrow> lines (concat (map (\<lambda>l. l @ [nl]) ls)) = ls"
  unfolding lines_def
  by (induction ls) (auto simp: split_inclusive_line line_of_nl line_safe_def)

section \<open>Character classes\<close>

text \<open>Unicode \<open>White_Space\<close>, as \<open>char::is_whitespace\<close> and \<open>trim\<close> use it.\<close>

definition is_ws :: "nat \<Rightarrow> bool" where
  "is_ws c \<longleftrightarrow> c \<in> {9..13} \<or> c \<in> {8192..8202} \<or>
     c \<in> set [32, 133, 160, 5760, 8232, 8233, 8239, 8287, 12288]"

definition is_control :: "nat \<Rightarrow> bool" where
  "is_control c \<longleftrightarrow> c < 32 \<or> (127 \<le> c \<and> c < 160)"

definition is_ascii_digit :: "nat \<Rightarrow> bool" where
  "is_ascii_digit c \<longleftrightarrow> 48 \<le> c \<and> c \<le> 57"

definition is_ascii_alphanumeric :: "nat \<Rightarrow> bool" where
  "is_ascii_alphanumeric c \<longleftrightarrow> is_ascii_digit c \<or> (65 \<le> c \<and> c \<le> 90) \<or> (97 \<le> c \<and> c \<le> 122)"

definition ascii_lower :: "ustr \<Rightarrow> ustr" where
  "ascii_lower s = map (\<lambda>c. if 65 \<le> c \<and> c \<le> 90 then c + 32 else c) s"

definition trim_start :: "ustr \<Rightarrow> ustr" where
  "trim_start s = dropWhile is_ws s"

definition trim_end :: "ustr \<Rightarrow> ustr" where
  "trim_end s = rev (dropWhile is_ws (rev s))"

definition trim :: "ustr \<Rightarrow> ustr" where
  "trim s = trim_end (trim_start s)"

section \<open>Decimal numbers\<close>

fun dec :: "nat \<Rightarrow> ustr" where
  "dec n = (if n < 10 then [48 + n] else dec (n div 10) @ [48 + n mod 10])"

declare dec.simps [simp del]

definition dec_value :: "ustr \<Rightarrow> nat" where
  "dec_value ds = foldl (\<lambda>a c. a * 10 + (c - 48)) 0 ds"

text \<open>\<open>str::parse::<usize>\<close> on a 64-bit target: an optional plus sign, digits, no overflow.\<close>

definition parse_usize :: "ustr \<Rightarrow> nat option" where
  "parse_usize s =
     (let ds = (case s of [] \<Rightarrow> [] | c # rest \<Rightarrow> if c = 43 \<and> rest \<noteq> [] then rest else s)
      in if ds = [] \<or> \<not> list_all is_ascii_digit ds then None
         else if dec_value ds < 2 ^ 64 then Some (dec_value ds) else None)"

lemma dec_digits: "list_all is_ascii_digit (dec n)"
proof (induction n rule: dec.induct)
  case (1 n)
  then have "n < 10 \<or> list_all is_ascii_digit (dec (n div 10))" by blast
  then show ?case by (subst dec.simps) (auto simp: is_ascii_digit_def [abs_def])
qed

lemma dec_nonempty [simp]: "dec n \<noteq> []"
  by (subst dec.simps) simp

lemma dec_value_dec [simp]: "dec_value (dec n) = n"
proof (induction n rule: dec.induct)
  case (1 n)
  then show ?case by (subst dec.simps) (auto simp: dec_value_def)
qed

lemma parse_usize_dec: "n < 2 ^ 64 \<Longrightarrow> parse_usize (dec n) = Some n"
proof -
  assume n: "n < 2 ^ 64"
  obtain c r where d: "dec n = c # r" by (cases "dec n") auto
  then have "c \<noteq> 43" using dec_digits [of n] by (auto simp: is_ascii_digit_def)
  then show ?thesis using n dec_digits [of n] d dec_value_dec [of n]
    by (simp add: parse_usize_def)
qed

lemma dec_line_safe: "line_safe (dec n)" "nl \<notin> set (dec n)"
proof -
  show "nl \<notin> set (dec n)" using dec_digits [of n] by (auto simp: list_all_iff is_ascii_digit_def)
  moreover have "\<not> ends_with (dec n) [cr]"
  proof
    assume "ends_with (dec n) [cr]"
    then have "cr \<in> set (dec n)" by (metis ends_with_def in_set_dropD list.set_intros(1))
    then show False using dec_digits [of n] by (auto simp: list_all_iff is_ascii_digit_def)
  qed
  ultimately show "line_safe (dec n)" by (simp add: line_safe_def)
qed

end
