(* ===== verification/Model.thy ===== *)
theory Model
  imports Admission Strings
begin

text \<open>
  The provider-neutral transcript model (\<open>crates/gobstopper-core/src/model.rs\<close>): providers and
  session handles, transcript items, the usage sample with the operations adapters apply to it,
  and the totals strategies read. A record carries the fields of its struct; serialization
  attributes are not modelled.
\<close>

section \<open>Providers and sessions\<close>

datatype provider = Codex | ClaudeCode

fun provider_as_str :: "provider \<Rightarrow> ustr" where
  "provider_as_str Codex = lit ''codex''"
| "provider_as_str ClaudeCode = lit ''claude_code''"

record session_handle =
  provider :: provider
  session_id :: ustr
  path :: ustr
  cwd :: "ustr option"
  age_secs :: u64

definition HOT_SECS :: u64 where "HOT_SECS = 180"

definition is_active :: "session_handle \<Rightarrow> bool" where
  "is_active s \<longleftrightarrow> age_secs s \<le> HOT_SECS"

section \<open>Items\<close>

datatype item_kind = System | User | Assistant | ToolCall | ToolResult | Reasoning | Meta

record transcript_item =
  line_index :: nat
  kind :: item_kind
  est_tokens :: u64
  elidable_bytes :: "u64 option"
  elidable_parts :: u32
  label :: ustr
  summary :: "ustr option"
  uuid :: "ustr option"
  parent_uuid :: "ustr option"
  tool_use_ids :: "ustr list"
  payload_sha256 :: "ustr option"

definition is_elidable :: "transcript_item \<Rightarrow> bool" where
  "is_elidable item = is_elidable_payload (est_tokens item) (elidable_bytes item)"

definition estimated_elision_savings :: "transcript_item \<Rightarrow> u64" where
  "estimated_elision_savings item =
     elision_savings (est_tokens item) (elidable_bytes item) (elidable_parts item)"

section \<open>Usage accounting\<close>

datatype context_state = Absent | Unknown | Reported | Reset

datatype lifetime_scope = Scope_absent | Partial | Full

datatype context_reason =
    MissingComponent | NullComponent | MalformedComponent | Overflow | InvalidAncestry
  | InvalidRecord | ReadLimit | SourceChanged | SourceUnavailable

record context_components =
  input_tokens :: "u64 option"
  cache_read_tokens :: "u64 option"
  cache_creation_tokens :: "u64 option"
  output_tokens :: "u64 option"

definition opt_or :: "u64 option \<Rightarrow> u64" where
  "opt_or v = (case v of Some n \<Rightarrow> n | None \<Rightarrow> 0)"

definition some_component :: "context_components \<Rightarrow> bool" where
  "some_component c \<longleftrightarrow> input_tokens c \<noteq> None \<or> cache_read_tokens c \<noteq> None \<or>
     cache_creation_tokens c \<noteq> None \<or> output_tokens c \<noteq> None"

definition measured_subtotal :: "context_components \<Rightarrow> u64 option" where
  "measured_subtotal c =
     (if \<not> some_component c then None
      else Option.bind (checked_add (opt_or (input_tokens c)) (opt_or (cache_read_tokens c)))
        (\<lambda>a. Option.bind (checked_add a (opt_or (cache_creation_tokens c)))
          (\<lambda>b. checked_add b (opt_or (output_tokens c)))))"

definition complete_total :: "context_components \<Rightarrow> u64 option" where
  "complete_total c =
     Option.bind (input_tokens c) (\<lambda>i.
     Option.bind (cache_read_tokens c) (\<lambda>r. Option.bind (checked_add i r) (\<lambda>a.
     Option.bind (cache_creation_tokens c) (\<lambda>w. Option.bind (checked_add a w) (\<lambda>b.
     Option.bind (output_tokens c) (\<lambda>out. checked_add b out))))))"

record usage_sample =
  u_context_tokens :: u64
  lifetime_input_tokens :: u64
  lifetime_cached_tokens :: u64
  model_context_window :: "u64 option"
  context_state :: context_state
  lifetime_scope :: lifetime_scope
  u_components :: "context_components option"
  context_reason :: "context_reason option"

definition default_usage :: usage_sample where
  "default_usage = \<lparr>u_context_tokens = 0, lifetime_input_tokens = 0, lifetime_cached_tokens = 0,
     model_context_window = None, context_state = Absent, lifetime_scope = Scope_absent,
     u_components = None, context_reason = None\<rparr>"

definition observe_cumulative_report ::
    "u64 option \<Rightarrow> u64 option \<Rightarrow> u64 option \<Rightarrow> u64 option \<Rightarrow> usage_sample \<Rightarrow> usage_sample" where
  "observe_cumulative_report context input cached window u0 =
     (let u1 = (case context of
            Some c \<Rightarrow> u0\<lparr>u_context_tokens := c, context_state := Reported,
                        u_components := None, context_reason := None\<rparr>
          | None \<Rightarrow> u0);
          u2 = (case input of
            Some i \<Rightarrow> u1\<lparr>lifetime_input_tokens := i, lifetime_scope := Full\<rparr>
          | None \<Rightarrow> u1);
          u3 = (case cached of Some c \<Rightarrow> u2\<lparr>lifetime_cached_tokens := c\<rparr> | None \<Rightarrow> u2);
          u4 = u3\<lparr>lifetime_cached_tokens :=
                    min (lifetime_cached_tokens u3) (lifetime_input_tokens u3)\<rparr>
      in case window of
           Some w \<Rightarrow> if w > 0 then u4\<lparr>model_context_window := Some w\<rparr> else u4
         | None \<Rightarrow> u4)"

definition reset_context :: "usage_sample \<Rightarrow> usage_sample" where
  "reset_context u = u\<lparr>u_context_tokens := 0, context_state := Reset,
     u_components := None, context_reason := None\<rparr>"

definition invalidate_context :: "usage_sample \<Rightarrow> usage_sample" where
  "invalidate_context u = u\<lparr>u_context_tokens := 0, context_state := Unknown,
     u_components := None, context_reason := None\<rparr>"

definition invalidate_context_because :: "context_reason \<Rightarrow> usage_sample \<Rightarrow> usage_sample" where
  "invalidate_context_because r u = (invalidate_context u)\<lparr>context_reason := Some r\<rparr>"

definition observe_context_components ::
    "context_components \<Rightarrow> context_reason option \<Rightarrow> usage_sample \<Rightarrow> usage_sample" where
  "observe_context_components c reason u =
     (case (if reason = None then complete_total c else None) of
        Some tot \<Rightarrow> u\<lparr>u_context_tokens := tot, context_state := Reported,
                       u_components := None, context_reason := None\<rparr>
      | None \<Rightarrow> (invalidate_context u)\<lparr>u_components := Some c,
          context_reason := Some
            (if measured_subtotal c = None \<and> some_component c then Overflow
             else (case reason of Some r \<Rightarrow> r | None \<Rightarrow> MissingComponent))\<rparr>)"

definition measured_component_subtotal :: "usage_sample \<Rightarrow> u64 option" where
  "measured_component_subtotal u =
     (if context_state u \<noteq> Unknown \<or> context_reason u = None then None
      else Option.bind (u_components u) measured_subtotal)"

definition reported_context :: "usage_sample \<Rightarrow> u64 option" where
  "reported_context u =
     (if context_state u = Reported \<and> context_reason u = None \<and> u_components u = None
      then Some (u_context_tokens u) else None)"

definition context_hint :: "usage_sample \<Rightarrow> u64 option" where
  "context_hint u =
     (case reported_context u of Some c \<Rightarrow> Some c
      | None \<Rightarrow>
          if context_state u = Unknown \<and> u_context_tokens u > 0 then Some (u_context_tokens u)
          else measured_component_subtotal u)"

subsection \<open>Exact component totals\<close>

lemma complete_total_Some:
  "complete_total c = Some n \<longleftrightarrow>
     (\<exists>i r w out. input_tokens c = Some i \<and> cache_read_tokens c = Some r \<and>
        cache_creation_tokens c = Some w \<and> output_tokens c = Some out \<and>
        unat n = unat i + unat r + unat w + unat out)"
proof -
  obtain i r w out where "c = \<lparr>input_tokens = i, cache_read_tokens = r,
      cache_creation_tokens = w, output_tokens = out\<rparr>" by (cases c) simp
  then show ?thesis
  proof (cases "i = None \<or> r = None \<or> w = None \<or> out = None")
    case True
    with \<open>c = _\<close> show ?thesis by (auto simp: complete_total_def bind_eq_Some_conv)
  next
    case False
    with \<open>c = _\<close> show ?thesis by (auto simp: complete_total_def checked_sum4)
  qed
qed

lemma measured_subtotal_Some:
  "measured_subtotal c = Some n \<longleftrightarrow> some_component c \<and>
     unat n = unat (opt_or (input_tokens c)) + unat (opt_or (cache_read_tokens c)) +
       unat (opt_or (cache_creation_tokens c)) + unat (opt_or (output_tokens c))"
  by (simp add: measured_subtotal_def checked_sum4)

subsection \<open>The operations as a state machine\<close>

inductive usage_step :: "usage_sample \<Rightarrow> usage_sample \<Rightarrow> bool" where
  report: "usage_step u (observe_cumulative_report ctx inp cached window u)"
| reset: "usage_step u (reset_context u)"
| invalidate: "usage_step u (invalidate_context u)"
| because: "usage_step u (invalidate_context_because r u)"
| components: "usage_step u (observe_context_components c r u)"

inductive usage_reachable :: "usage_sample \<Rightarrow> bool" where
  start: "usage_reachable default_usage"
| step: "usage_reachable u \<Longrightarrow> usage_step u v \<Longrightarrow> usage_reachable v"

inductive_cases usage_stepE: "usage_step u v"

definition usage_wf :: "usage_sample \<Rightarrow> bool" where
  "usage_wf u \<longleftrightarrow>
     (context_state u = Reported \<longrightarrow> u_components u = None \<and> context_reason u = None) \<and>
     (context_state u \<noteq> Reported \<longrightarrow> u_context_tokens u = 0) \<and>
     (context_reason u \<noteq> None \<longrightarrow> context_state u = Unknown) \<and>
     (u_components u \<noteq> None \<longrightarrow> context_reason u \<noteq> None) \<and>
     lifetime_cached_tokens u \<le> lifetime_input_tokens u \<and>
     model_context_window u \<noteq> Some 0"

lemma usage_wf_default: "usage_wf default_usage"
  by (simp add: usage_wf_def default_usage_def)

lemma observe_cumulative_report_fields:
  fixes ctx inp cached window and u :: usage_sample
  defines "v \<equiv> observe_cumulative_report ctx inp cached window u"
  shows "context_state v = (if ctx = None then context_state u else Reported)"
    and "u_components v = (if ctx = None then u_components u else None)"
    and "context_reason v = (if ctx = None then context_reason u else None)"
    and "u_context_tokens v = (case ctx of None \<Rightarrow> u_context_tokens u | Some c \<Rightarrow> c)"
    and "lifetime_cached_tokens v \<le> lifetime_input_tokens v"
    and "model_context_window u \<noteq> Some 0 \<Longrightarrow> model_context_window v \<noteq> Some 0"
  unfolding v_def observe_cumulative_report_def Let_def
  by (simp_all add: word_gt_0 split: option.split)

lemma usage_wf_observe_cumulative_report:
  assumes wf: "usage_wf u"
  shows "usage_wf (observe_cumulative_report ctx inp cached window u)" (is "usage_wf ?v")
proof -
  note fields = observe_cumulative_report_fields [where ctx = ctx and inp = inp and
      cached = cached and window = window and u = u]
  have "model_context_window u \<noteq> Some 0" using wf unfolding usage_wf_def by blast
  then have w: "model_context_window ?v \<noteq> Some 0" by (rule fields(6))
  show ?thesis
  proof (cases ctx)
    case None
    then have "context_state ?v = context_state u" "u_components ?v = u_components u"
      "context_reason ?v = context_reason u" "u_context_tokens ?v = u_context_tokens u"
      using fields by simp_all
    with wf w fields(5) show ?thesis unfolding usage_wf_def by metis
  next
    case (Some c)
    then have "context_state ?v = Reported" "u_components ?v = None" "context_reason ?v = None"
      using fields by simp_all
    with w fields(5) show ?thesis unfolding usage_wf_def by simp
  qed
qed

lemma usage_wf_observe_context_components:
  "usage_wf u \<Longrightarrow> usage_wf (observe_context_components c r u)"
proof (cases "if r = None then complete_total c else None")
  case None
  assume "usage_wf u"
  with None show ?thesis
    by (simp only: usage_wf_def observe_context_components_def) (simp add: invalidate_context_def)
next
  case (Some t)
  assume "usage_wf u"
  moreover have "r = None" "complete_total c = Some t" using Some by (auto split: if_splits)
  ultimately show ?thesis by (simp add: usage_wf_def observe_context_components_def)
qed

lemma usage_step_wf: "usage_step u v \<Longrightarrow> usage_wf u \<Longrightarrow> usage_wf v"
proof (elim usage_stepE)
  assume "usage_wf u" "v = reset_context u"
  then show "usage_wf v" by (simp add: usage_wf_def reset_context_def)
next
  assume "usage_wf u" "v = invalidate_context u"
  then show "usage_wf v" by (simp add: usage_wf_def invalidate_context_def)
next
  fix r assume "usage_wf u" "v = invalidate_context_because r u"
  then show "usage_wf v"
    by (simp add: usage_wf_def invalidate_context_def invalidate_context_because_def)
qed (simp_all add: usage_wf_observe_cumulative_report usage_wf_observe_context_components)

lemma usage_reachable_wf: "usage_reachable u \<Longrightarrow> usage_wf u"
  by (induction rule: usage_reachable.induct) (auto intro: usage_wf_default usage_step_wf)

lemma usage_accounting_facts:
  assumes "usage_reachable u"
  shows "reported_context u = (if context_state u = Reported then Some (u_context_tokens u) else None)"
    and "context_state u \<noteq> Reported \<Longrightarrow> u_context_tokens u = 0"
    and "context_hint u = (if context_state u = Reported then Some (u_context_tokens u)
           else measured_component_subtotal u)"
    and "lifetime_cached_tokens u \<le> lifetime_input_tokens u"
    and "model_context_window u \<noteq> Some 0"
proof -
  have wf: "usage_wf u" by (rule usage_reachable_wf [OF assms])
  show rep: "reported_context u =
      (if context_state u = Reported then Some (u_context_tokens u) else None)"
  proof (cases "context_state u = Reported")
    case True
    then have "u_components u = None" "context_reason u = None"
      using wf unfolding usage_wf_def by blast+
    with True show ?thesis by (simp add: reported_context_def)
  qed (simp add: reported_context_def)
  show zero: "context_state u \<noteq> Reported \<Longrightarrow> u_context_tokens u = 0"
    using wf unfolding usage_wf_def by blast
  show "context_hint u = (if context_state u = Reported then Some (u_context_tokens u)
      else measured_component_subtotal u)"
    using rep zero by (simp add: context_hint_def)
  show "lifetime_cached_tokens u \<le> lifetime_input_tokens u" "model_context_window u \<noteq> Some 0"
    using wf unfolding usage_wf_def by blast+
qed



text \<open>A component reading counts as a complete report exactly when no parse reason was given,
  all four components are present and their exact sum fits 64 bits, and then the reported count
  is that sum; otherwise the context becomes unknown, keeps no count, retains the reading, and
  its reason is overflow exactly when the present components alone do not fit.\<close>

theorem component_reading_complete:
  "(reported_context (observe_context_components c reason u) = Some n \<longleftrightarrow>
      reason = None \<and>
      (\<exists>i r w out. input_tokens c = Some i \<and> cache_read_tokens c = Some r \<and>
         cache_creation_tokens c = Some w \<and> output_tokens c = Some out \<and>
         unat n = unat i + unat r + unat w + unat out)) \<and>
   (reported_context (observe_context_components c reason u) = None \<longrightarrow>
      context_state (observe_context_components c reason u) = Unknown \<and>
      u_context_tokens (observe_context_components c reason u) = 0 \<and>
      u_components (observe_context_components c reason u) = Some c \<and>
      (2 ^ 64 \<le> unat (opt_or (input_tokens c)) + unat (opt_or (cache_read_tokens c)) +
         unat (opt_or (cache_creation_tokens c)) + unat (opt_or (output_tokens c)) \<longrightarrow>
       context_reason (observe_context_components c reason u) = Some Overflow))"
  (is "(reported_context ?u = Some n \<longleftrightarrow> ?exact) \<and> _")
proof (cases "if reason = None then complete_total c else None")
  case None
  have "measured_subtotal c = None \<and> some_component c"
    if big: "2 ^ 64 \<le> unat (opt_or (input_tokens c)) + unat (opt_or (cache_read_tokens c)) +
         unat (opt_or (cache_creation_tokens c)) + unat (opt_or (output_tokens c))"
  proof
    show "measured_subtotal c = None"
    proof (cases "measured_subtotal c")
      case (Some m)
      then show ?thesis using big unat_lt_exp [of m] by (simp add: measured_subtotal_Some)
    qed
    show "some_component c"
    proof (rule ccontr)
      assume "\<not> some_component c"
      then have "opt_or (input_tokens c) = 0" "opt_or (cache_read_tokens c) = 0"
        "opt_or (cache_creation_tokens c) = 0" "opt_or (output_tokens c) = 0"
        by (simp_all add: some_component_def opt_or_def)
      with big show False by simp
    qed
  qed
  moreover have "reported_context ?u = None" "context_state ?u = Unknown"
    "u_context_tokens ?u = 0" "u_components ?u = Some c"
    "context_reason ?u = Some (if measured_subtotal c = None \<and> some_component c then Overflow
       else (case reason of Some r \<Rightarrow> r | None \<Rightarrow> MissingComponent))"
    unfolding observe_context_components_def None
    by (simp_all add: reported_context_def invalidate_context_def)
  moreover have "\<not> ?exact" using None complete_total_Some [of c n] by auto
  ultimately show ?thesis by simp
next
  case (Some t)
  then have "reported_context ?u = Some t"
    unfolding observe_context_components_def Some by (simp add: reported_context_def)
  moreover have "?exact \<longleftrightarrow> n = t"
    using Some complete_total_Some [of c n] by (auto split: if_splits)
  ultimately show ?thesis by auto
qed

theorem component_reading_complete_witness:
  "reported_context (observe_context_components
      \<lparr>input_tokens = Some 5, cache_read_tokens = Some 7, cache_creation_tokens = Some 0,
       output_tokens = Some 1\<rparr> None default_usage) = Some 13"
  using component_reading_complete [of
      "\<lparr>input_tokens = Some 5, cache_read_tokens = Some 7, cache_creation_tokens = Some 0,
       output_tokens = Some 1\<rparr>" None default_usage 13] by simp

section \<open>Transcripts\<close>

record transcript =
  session :: session_handle
  items :: "transcript_item list"
  usage :: usage_sample

definition estimated_context_tokens :: "transcript \<Rightarrow> u64" where
  "estimated_context_tokens t = fold (\<lambda>item running. add_tokens running (est_tokens item)) (items t) 0"

definition context_tokens :: "transcript \<Rightarrow> u64" where
  "context_tokens t =
     (case reported_context (usage t) of Some c \<Rightarrow> c | None \<Rightarrow> estimated_context_tokens t)"

definition elidable_tokens :: "transcript \<Rightarrow> u64" where
  "elidable_tokens t =
     fold (\<lambda>b running. add_tokens running (estimate_token_bytes b))
       (List.map_filter elidable_bytes (filter is_elidable (items t))) 0"

lemma unat_estimated_context_tokens:
  "unat (estimated_context_tokens t) =
     min (\<Sum>item\<leftarrow>items t. unat (est_tokens item)) (2 ^ 64 - 1)"
  using unat_fold_sat_add [of est_tokens "items t" "0 :: u64"]
  by (simp add: estimated_context_tokens_def add_tokens_def)

lemma estimated_elision_savings_le: "estimated_elision_savings i \<le> est_tokens i"
  by (simp add: estimated_elision_savings_def elision_savings_le)

text \<open>The items of a transcript are identified by their line: the precondition under which the
  validator accepts any edit, established by the adapters.\<close>

definition distinct_lines :: "transcript \<Rightarrow> bool" where
  "distinct_lines t \<longleftrightarrow> distinct (map line_index (items t))"

end
