(* ===== verification/Plan.thy ===== *)
theory Plan
  imports Model
begin

text \<open>
  The edit language strategies lower to (\<open>crates/gobstopper-core/src/plan.rs\<close>): edits, the
  state-card digest with its parser and size estimate, and compaction plans. The prose form of
  a digest is written by \<open>digest_text\<close> of the Claude adapter
  (\<open>crates/gobstopper-adapters/src/claude.rs\<close>; the Codex adapter has the same function).
\<close>

section \<open>Digest blocks\<close>

record digest_block =
  goal :: "ustr option"
  d_summary :: "ustr option"
  concepts :: "ustr list"
  files_touched :: "ustr list"
  decisions :: "ustr list"
  errors :: "ustr list"
  open_tasks :: "ustr list"
  current_work :: "ustr option"
  d_context :: "ustr option"
  covers_items :: nat

definition empty_digest :: digest_block where
  "empty_digest = \<lparr>goal = None, d_summary = None, concepts = [], files_touched = [],
     decisions = [], errors = [], open_tasks = [], current_work = None, d_context = None,
     covers_items = 0\<rparr>"

definition MARKER :: ustr where
  "MARKER = lit ''[gobstopper state card]''"

text \<open>The texts of a digest in the order the source chains them.\<close>

definition digest_strings :: "digest_block \<Rightarrow> ustr list" where
  "digest_strings d = opt_list (goal d) @ opt_list (d_summary d) @ concepts d @ files_touched d @
     decisions d @ errors d @ open_tasks d @ opt_list (current_work d) @ opt_list (d_context d)"

definition estimate_overhead :: "digest_block \<Rightarrow> u64" where
  "estimate_overhead d =
     estimate_token_bytes
       (fold (\<lambda>text running. add_tokens running (of_nat (str_len text))) (digest_strings d) 64)"

text \<open>One line of the card; the first prefix that matches decides, as the \<open>else if\<close> chain does.\<close>

definition parse_line :: "ustr \<Rightarrow> digest_block \<Rightarrow> digest_block" where
  "parse_line line b =
     (case strip_prefix line (lit ''goal: '') of Some g \<Rightarrow> b\<lparr>goal := Some g\<rparr> | None \<Rightarrow>
     (case strip_prefix line (lit ''summary: '') of Some s \<Rightarrow> b\<lparr>d_summary := Some s\<rparr> | None \<Rightarrow>
     (case strip_prefix line (lit ''concept: '') of Some c \<Rightarrow> b\<lparr>concepts := concepts b @ [c]\<rparr> | None \<Rightarrow>
     (case strip_prefix line (lit ''file: '') of Some f \<Rightarrow> b\<lparr>files_touched := files_touched b @ [f]\<rparr> | None \<Rightarrow>
     (case strip_prefix line (lit ''decision: '') of Some d \<Rightarrow> b\<lparr>decisions := decisions b @ [d]\<rparr> | None \<Rightarrow>
     (case strip_prefix line (lit ''error: '') of Some e \<Rightarrow> b\<lparr>errors := errors b @ [e]\<rparr> | None \<Rightarrow>
     (case strip_prefix line (lit ''todo: '') of Some t \<Rightarrow> b\<lparr>open_tasks := open_tasks b @ [t]\<rparr> | None \<Rightarrow>
     (case strip_prefix line (lit ''current: '') of Some w \<Rightarrow> b\<lparr>current_work := Some w\<rparr> | None \<Rightarrow>
     (case strip_prefix line (lit ''context: '') of Some x \<Rightarrow> b\<lparr>d_context := Some x\<rparr> | None \<Rightarrow>
     (case strip_prefix line (lit ''(covers '') of
        Some rest \<Rightarrow>
          (case Option.bind (strip_suffix rest (lit '' earlier records)'')) parse_usize of
             Some n \<Rightarrow> b\<lparr>covers_items := n\<rparr> | None \<Rightarrow> b)
      | None \<Rightarrow> b))))))))))"

definition parse_digest :: "ustr \<Rightarrow> digest_block option" where
  "parse_digest text =
     (if \<not> starts_with text MARKER then None
      else Some (fold parse_line (drop 1 (lines text)) empty_digest))"

definition card_line :: "string \<Rightarrow> ustr \<Rightarrow> ustr" where
  "card_line prefix text = lit prefix @ text @ [nl]"

definition digest_text :: "digest_block \<Rightarrow> ustr" where
  "digest_text d =
     MARKER @ [nl] @
     (case goal d of Some g \<Rightarrow> card_line ''goal: '' g | None \<Rightarrow> []) @
     (case d_summary d of Some s \<Rightarrow> card_line ''summary: '' s | None \<Rightarrow> []) @
     concat (map (card_line ''concept: '') (concepts d)) @
     concat (map (card_line ''file: '') (files_touched d)) @
     concat (map (card_line ''decision: '') (decisions d)) @
     concat (map (card_line ''error: '') (errors d)) @
     concat (map (card_line ''todo: '') (open_tasks d)) @
     (case current_work d of Some w \<Rightarrow> card_line ''current: '' w | None \<Rightarrow> []) @
     (case d_context d of Some x \<Rightarrow> card_line ''context: '' x | None \<Rightarrow> []) @
     lit ''(covers '' @ dec (covers_items d) @ lit '' earlier records)'' @ [nl]"

subsection \<open>The card as a list of lines\<close>

definition covers_line :: "nat \<Rightarrow> ustr" where
  "covers_line n = lit ''(covers '' @ dec n @ lit '' earlier records)''"

definition card_lines :: "digest_block \<Rightarrow> ustr list" where
  "card_lines d =
     map (\<lambda>t. lit ''goal: '' @ t) (opt_list (goal d)) @
     map (\<lambda>t. lit ''summary: '' @ t) (opt_list (d_summary d)) @
     map (\<lambda>t. lit ''concept: '' @ t) (concepts d) @
     map (\<lambda>t. lit ''file: '' @ t) (files_touched d) @
     map (\<lambda>t. lit ''decision: '' @ t) (decisions d) @
     map (\<lambda>t. lit ''error: '' @ t) (errors d) @
     map (\<lambda>t. lit ''todo: '' @ t) (open_tasks d) @
     map (\<lambda>t. lit ''current: '' @ t) (opt_list (current_work d)) @
     map (\<lambda>t. lit ''context: '' @ t) (opt_list (d_context d)) @
     [covers_line (covers_items d)]"

lemma digest_text_lines:
  "digest_text d = concat (map (\<lambda>l. l @ [nl]) (MARKER # card_lines d))"
proof -
  have m: "concat (map (card_line p) ts) = concat (map (\<lambda>l. l @ [nl]) (map (\<lambda>t. lit p @ t) ts))"
    for p ts by (induction ts) (simp_all add: card_line_def)
  have o: "(case v of Some t \<Rightarrow> card_line p t | None \<Rightarrow> []) =
      concat (map (\<lambda>l. l @ [nl]) (map (\<lambda>t. lit p @ t) (opt_list v)))" for p v
    by (cases v) (simp_all add: card_line_def)
  show ?thesis
    unfolding digest_text_def card_lines_def m o
    by (simp only: list.map map_append concat.simps concat_append append_assoc append_Nil2
        covers_line_def)
qed

lemma line_safe_prefixed:
  "line_safe t \<Longrightarrow> nl \<notin> set p \<Longrightarrow> \<not> ends_with p [cr] \<Longrightarrow> line_safe (p @ t)"
  by (cases t rule: rev_cases) (auto simp: line_safe_def ends_with_def)

lemma card_lines_safe:
  assumes "list_all line_safe (digest_strings d)"
  shows "list_all line_safe (MARKER # card_lines d)"
proof -
  have "line_safe MARKER" by (simp add: MARKER_def line_safe_def ends_with_def)
  moreover have "line_safe (covers_line n)" for n
    using dec_line_safe [of n] by (simp add: covers_line_def line_safe_def ends_with_def)
  moreover have "line_safe (lit ''goal: '' @ t)" "line_safe (lit ''summary: '' @ t)"
    "line_safe (lit ''concept: '' @ t)" "line_safe (lit ''file: '' @ t)"
    "line_safe (lit ''decision: '' @ t)" "line_safe (lit ''error: '' @ t)"
    "line_safe (lit ''todo: '' @ t)" "line_safe (lit ''current: '' @ t)"
    "line_safe (lit ''context: '' @ t)" if "line_safe t" for t
    by (rule line_safe_prefixed [OF that]; simp add: ends_with_def)+
  ultimately show ?thesis
    using assms unfolding card_lines_def digest_strings_def list_all_iff by auto
qed

subsection \<open>Reading the lines back\<close>

lemma strip_prefix_mismatch: "\<not> starts_with s p \<Longrightarrow> strip_prefix s p = None"
  by (simp add: strip_prefix_def)

lemma parse_line_goal: "parse_line (lit ''goal: '' @ t) b = b\<lparr>goal := Some t\<rparr>"
  by (simp only: parse_line_def strip_prefix_append option.case)

lemma parse_line_summary: "parse_line (lit ''summary: '' @ t) b = b\<lparr>d_summary := Some t\<rparr>"
  by (simp add: parse_line_def strip_prefix_def)

lemma parse_line_concept: "parse_line (lit ''concept: '' @ t) b = b\<lparr>concepts := concepts b @ [t]\<rparr>"
  by (simp add: parse_line_def strip_prefix_def)

lemma parse_line_file: "parse_line (lit ''file: '' @ t) b = b\<lparr>files_touched := files_touched b @ [t]\<rparr>"
  by (simp add: parse_line_def strip_prefix_def)

lemma parse_line_decision: "parse_line (lit ''decision: '' @ t) b = b\<lparr>decisions := decisions b @ [t]\<rparr>"
  by (simp add: parse_line_def strip_prefix_def)

lemma parse_line_error: "parse_line (lit ''error: '' @ t) b = b\<lparr>errors := errors b @ [t]\<rparr>"
  by (simp add: parse_line_def strip_prefix_def)

lemma parse_line_todo: "parse_line (lit ''todo: '' @ t) b = b\<lparr>open_tasks := open_tasks b @ [t]\<rparr>"
  by (simp add: parse_line_def strip_prefix_def)

lemma parse_line_current: "parse_line (lit ''current: '' @ t) b = b\<lparr>current_work := Some t\<rparr>"
  by (simp add: parse_line_def strip_prefix_def)

lemma parse_line_context: "parse_line (lit ''context: '' @ t) b = b\<lparr>d_context := Some t\<rparr>"
  by (simp add: parse_line_def strip_prefix_def)

lemma parse_line_covers:
  assumes "n < 2 ^ 64"
  shows "parse_line (covers_line n) b = b\<lparr>covers_items := n\<rparr>"
proof -
  have "strip_suffix (dec n @ lit '' earlier records)'') (lit '' earlier records)'') = Some (dec n)"
    by (rule strip_suffix_append)
  then show ?thesis
    using parse_usize_dec [OF assms] by (simp add: parse_line_def covers_line_def strip_prefix_def)
qed

lemmas parse_line_simps = parse_line_goal parse_line_summary parse_line_concept parse_line_file
  parse_line_decision parse_line_error parse_line_todo parse_line_current parse_line_context
  parse_line_covers

lemma fold_parse_concepts:
  "fold parse_line (map (\<lambda>t. lit ''concept: '' @ t) ts) b = b\<lparr>concepts := concepts b @ ts\<rparr>"
  by (induction ts arbitrary: b) (simp_all add: parse_line_concept del: lit_Cons)

lemma fold_parse_files:
  "fold parse_line (map (\<lambda>t. lit ''file: '' @ t) ts) b = b\<lparr>files_touched := files_touched b @ ts\<rparr>"
  by (induction ts arbitrary: b) (simp_all add: parse_line_file del: lit_Cons)

lemma fold_parse_decisions:
  "fold parse_line (map (\<lambda>t. lit ''decision: '' @ t) ts) b = b\<lparr>decisions := decisions b @ ts\<rparr>"
  by (induction ts arbitrary: b) (simp_all add: parse_line_decision del: lit_Cons)

lemma fold_parse_errors:
  "fold parse_line (map (\<lambda>t. lit ''error: '' @ t) ts) b = b\<lparr>errors := errors b @ ts\<rparr>"
  by (induction ts arbitrary: b) (simp_all add: parse_line_error del: lit_Cons)

lemma fold_parse_todos:
  "fold parse_line (map (\<lambda>t. lit ''todo: '' @ t) ts) b = b\<lparr>open_tasks := open_tasks b @ ts\<rparr>"
  by (induction ts arbitrary: b) (simp_all add: parse_line_todo del: lit_Cons)

lemma fold_parse_opt:
  "fold parse_line (map f (opt_list v)) b = (case v of Some t \<Rightarrow> parse_line (f t) b | None \<Rightarrow> b)"
  by (cases v) simp_all

lemma fold_parse_card_lines:
  assumes "covers_items d < 2 ^ 64"
  shows "fold parse_line (card_lines d) empty_digest = d"
proof -
  obtain g s c f de e t w x n where d: "d = \<lparr>goal = g, d_summary = s, concepts = c,
      files_touched = f, decisions = de, errors = e, open_tasks = t, current_work = w,
      d_context = x, covers_items = n\<rparr>" by (cases d) simp
  have n: "n < 2 ^ 64" using assms d by simp
  show ?thesis
    unfolding d card_lines_def fold_append fold_parse_opt comp_def
    by (cases g; cases s; cases w; cases x)
      (simp_all add: fold_parse_opt fold_parse_concepts fold_parse_files fold_parse_decisions
        fold_parse_errors fold_parse_todos parse_line_simps
        parse_line_covers [OF n] empty_digest_def del: lit_Cons)
qed

lemma parse_digest_digest_text:
  assumes "list_all line_safe (digest_strings d)" and "covers_items d < 2 ^ 64"
  shows "parse_digest (digest_text d) = Some d"
proof -
  have "lines (digest_text d) = MARKER # card_lines d"
    unfolding digest_text_lines by (rule lines_concat [OF card_lines_safe [OF assms(1)]])
  moreover have "starts_with (digest_text d) MARKER" by (simp add: digest_text_def)
  ultimately show ?thesis by (simp add: parse_digest_def fold_parse_card_lines [OF assms(2)])
qed

text \<open>C30: A state card whose texts are single lines reads back as the digest it was written
  from: parsing the prose the adapters write recovers every field, in order, and the number of
  covered records.\<close>

theorem digest_round_trip:
  assumes "list_all line_safe (digest_strings d)" and "covers_items d < 2 ^ 64"
  shows "parse_digest (digest_text d) = Some d"
  using assms by (rule parse_digest_digest_text)

theorem digest_round_trip_witness:
  "parse_digest (digest_text (empty_digest\<lparr>goal := Some (lit ''fix it''),
      files_touched := [lit ''a/b.rs''], covers_items := 12\<rparr>)) =
   Some (empty_digest\<lparr>goal := Some (lit ''fix it''), files_touched := [lit ''a/b.rs''],
      covers_items := 12\<rparr>)"
  by (rule digest_round_trip)
    (simp_all add: digest_strings_def empty_digest_def line_safe_def ends_with_def)

text \<open>C31: The single-line condition is needed: a goal with a line break writes a card whose
  second line is read back as another field, so card text can forge a task the digest does
  not hold.\<close>

theorem digest_text_multiline_goal_forges_field:
  "parse_digest (digest_text (empty_digest\<lparr>goal := Some (lit ''x'' @ [nl] @ lit ''todo: y'')\<rparr>)) =
     Some (empty_digest\<lparr>goal := Some (lit ''x''), open_tasks := [lit ''y'']\<rparr>)"
proof -
  let ?d = "empty_digest\<lparr>goal := Some (lit ''x'' @ [nl] @ lit ''todo: y'')\<rparr>"
  let ?e = "empty_digest\<lparr>goal := Some (lit ''x''), open_tasks := [lit ''y'']\<rparr>"
  have eq: "digest_text ?d = digest_text ?e"
    by (simp add: digest_text_def card_line_def empty_digest_def)
  have "list_all line_safe (digest_strings ?e)" "covers_items ?e < 2 ^ 64"
    by (simp_all add: digest_strings_def empty_digest_def line_safe_def ends_with_def)
  from parse_digest_digest_text [OF this] show ?thesis unfolding eq .
qed

section \<open>Edits and plans\<close>

datatype edit =
    Elide "nat list" ustr "(nat \<times> ustr) list"
  | InjectDigest digest_block
  | ProviderCompact ustr
  | CacheEdit "ustr list"

record compaction_plan =
  strategy :: ustr
  rationale :: ustr
  edits :: "edit list"
  context_tokens_before :: u64
  context_tokens_after :: u64

definition est_savings :: "compaction_plan \<Rightarrow> u64" where
  "est_savings p = sat_sub (context_tokens_before p) (context_tokens_after p)"

text \<open>The digest's size estimate is the exact rounded size, capped at the 64-bit maximum.\<close>

lemma unat_estimate_overhead:
  assumes "sum_list (map str_len (digest_strings d)) < 2 ^ 64"
  shows "unat (estimate_overhead d) =
    max ((min (64 + sum_list (map str_len (digest_strings d))) (2 ^ 64 - 1) + 3) div 4) 1"
proof -
  have "unat (of_nat (str_len t) :: u64) = str_len t" if "t \<in> set (digest_strings d)" for t
  proof -
    have "str_len t \<le> sum_list (map str_len (digest_strings d))"
      using that by (simp add: member_le_sum_list)
    then show ?thesis using assms by (simp add: unat_of_nat_small)
  qed
  then have "map (\<lambda>t. unat (of_nat (str_len t) :: u64)) (digest_strings d) =
      map str_len (digest_strings d)" by simp
  then have "(\<Sum>t\<leftarrow>digest_strings d. unat (of_nat (str_len t) :: u64)) =
      sum_list (map str_len (digest_strings d))" by (rule arg_cong)
  then show ?thesis
    unfolding estimate_overhead_def unat_estimate_token_bytes add_tokens_def unat_fold_sat_add
    by simp
qed

end
