(* ===== verification/F64.thy ===== *)
theory F64
  imports Prelude "HOL-Library.Log_Nat"
begin

text \<open>
  The \<open>f64\<close> arithmetic the policy and the ranking of plans use: binary64 with rounding to
  nearest, ties to even. A finite value is the rational it denotes, so both zeros are one
  value. The exponent is unbounded below: the program multiplies 64-bit integers by constants
  near one and cubes ratios of such integers, which stay far above the subnormal range.
  Results at or above \<open>2 ^ 1024\<close> are infinite. Conversions to \<open>u64\<close> truncate and saturate
  and send NaN to zero, as \<open>as u64\<close> does.
\<close>

datatype f64 = NaN | PInf | NInf | Fin rat

section \<open>Rounding\<close>

definition ilog2 :: "rat \<Rightarrow> int" where
  "ilog2 x = (if 1 \<le> x then int (floorlog 2 (nat \<lfloor>x\<rfloor>)) - 1
              else - int (floorlog 2 (nat \<lceil>1 / x\<rceil> - 1)))"

definition round_half_even :: "rat \<Rightarrow> int" where
  "round_half_even r =
     (let f = \<lfloor>r\<rfloor>; d = r - of_int f
      in if d < 1 / 2 then f else if d > 1 / 2 then f + 1 else if even f then f else f + 1)"

definition quantum :: "rat \<Rightarrow> rat" where
  "quantum x = 2 powi (ilog2 x - 52)"

definition rne_pos :: "rat \<Rightarrow> rat" where
  "rne_pos x = of_int (round_half_even (x / quantum x)) * quantum x"

definition rne :: "rat \<Rightarrow> rat" where
  "rne x = (if x = 0 then 0 else if x > 0 then rne_pos x else - rne_pos (- x))"

lemma round_half_even_err: "\<bar>of_int (round_half_even r) - r\<bar> \<le> 1 / 2"
proof -
  have "of_int \<lfloor>r\<rfloor> \<le> r" "r < of_int \<lfloor>r\<rfloor> + 1" by linarith+
  then show ?thesis unfolding round_half_even_def Let_def by (auto simp: abs_le_iff)
qed

lemma round_half_even_of_int [simp]: "round_half_even (of_int n) = n"
  by (simp add: round_half_even_def)

lemma round_half_even_mono: "r \<le> s \<Longrightarrow> round_half_even r \<le> round_half_even s"
proof -
  assume rs: "r \<le> s"
  show ?thesis
  proof (cases "\<lfloor>r\<rfloor> = \<lfloor>s\<rfloor>")
    case True
    then show ?thesis using rs unfolding round_half_even_def Let_def True by auto
  next
    case False
    then have "\<lfloor>r\<rfloor> + 1 \<le> \<lfloor>s\<rfloor>" using floor_mono [OF rs] by linarith
    then show ?thesis unfolding round_half_even_def Let_def by auto
  qed
qed

lemma powi_2_nat: "2 powi (int k) = (2::rat) ^ k"
  by (simp add: power_int_def)

lemma pow2_le_of_nat: "(2::rat) ^ a \<le> of_nat n \<longleftrightarrow> 2 ^ a \<le> n"
  by (metis of_nat_le_iff of_nat_numeral of_nat_power)

lemma of_nat_le_pow2: "of_nat n \<le> (2::rat) ^ a \<longleftrightarrow> n \<le> 2 ^ a"
  by (metis of_nat_le_iff of_nat_numeral of_nat_power)

lemma ilog2_bounds:
  assumes "0 < x"
  shows "2 powi (ilog2 x) \<le> x" "x < 2 powi (ilog2 x + 1)"
proof -
  have "2 powi (ilog2 x) \<le> x \<and> x < 2 powi (ilog2 x + 1)"
  proof (cases "1 \<le> x")
    case True
    define n k where "n = nat \<lfloor>x\<rfloor>" and "k = floorlog 2 n"
    have n: "0 < n" "of_nat n \<le> x" "x < of_nat n + 1"
      using True by (auto simp: n_def) linarith+
    have k: "2 ^ (k - 1) \<le> n" "n < 2 ^ k" "0 < k"
      using floorlog_bounds [of n 2] n(1) floorlog_eq_zero_iff [of 2 n] by (auto simp: k_def)
    have "ilog2 x = int (k - 1)" using True k(3) by (simp add: ilog2_def n_def k_def of_nat_diff)
    moreover have "(2::rat) ^ (k - 1) \<le> of_nat n" using k(1) by (simp only: pow2_le_of_nat)
    moreover have "of_nat n + 1 \<le> (2::rat) ^ k"
      using k(2) of_nat_le_pow2 [of "Suc n" k] by simp
    moreover have "ilog2 x + 1 = int k" using calculation(1) k(3) by simp
    ultimately show ?thesis using n by (simp only: powi_2_nat) linarith
  next
    case False
    define m j where "m = nat \<lceil>1 / x\<rceil>" and "j = floorlog 2 (m - 1)"
    have y: "1 < 1 / x" using False assms by simp
    then have m: "2 \<le> m" "1 / x \<le> of_nat m" "of_nat (m - 1) < 1 / x"
      by (auto simp: m_def of_nat_diff) linarith+
    have j: "2 ^ (j - 1) \<le> m - 1" "m - 1 < 2 ^ j" "0 < j"
      using floorlog_bounds [of "m - 1" 2] m(1) floorlog_eq_zero_iff [of 2 "m - 1"]
      by (auto simp: j_def)
    have e: "ilog2 x = - int j" using False by (simp add: ilog2_def m_def j_def)
    have "m \<le> 2 ^ j" using j(2) m(1) by linarith
    then have "of_nat m \<le> (2::rat) ^ j" by (simp only: of_nat_le_pow2)
    then have "1 / x \<le> 2 ^ j" using m(2) by linarith
    then have "inverse (2 ^ j) \<le> inverse (1 / x)" using y by (intro le_imp_inverse_le) linarith+
    then have lo: "2 powi (- int j) \<le> x" by (simp only: power_int_minus powi_2_nat) simp
    have "(2::rat) ^ (j - 1) \<le> of_nat (m - 1)"
      using j(1) by (simp only: pow2_le_of_nat)
    then have "(2::rat) ^ (j - 1) < 1 / x" using m(3) by linarith
    then have "inverse (1 / x) < inverse (2 ^ (j - 1))"
      by (intro less_imp_inverse_less) simp_all
    then have up: "x < 2 powi (- int (j - 1))" by (simp only: power_int_minus powi_2_nat) simp
    have e1: "ilog2 x + 1 = - int (j - 1)" using e j(3) by linarith
    show ?thesis unfolding e1 by (intro conjI up) (unfold e, rule lo)
  qed
  then show "2 powi (ilog2 x) \<le> x" "x < 2 powi (ilog2 x + 1)" by auto
qed

lemma powi_2_pos [simp]: "0 < (2::rat) powi e"
  by (simp add: zero_less_power_int)

lemma powi_2_le: "e \<le> f \<Longrightarrow> (2::rat) powi e \<le> 2 powi f"
  by (simp add: power_int_increasing)

lemma powi_2_less_imp: "(2::rat) powi e < 2 powi f \<Longrightarrow> e < f"
  by (meson linorder_not_less powi_2_le)

lemma ilog2_mono: "0 < x \<Longrightarrow> x \<le> y \<Longrightarrow> ilog2 x \<le> ilog2 y"
proof -
  assume "0 < x" "x \<le> y"
  then have "2 powi (ilog2 x) < (2::rat) powi (ilog2 y + 1)"
    using ilog2_bounds [of x] ilog2_bounds [of y] by linarith
  then show ?thesis using powi_2_less_imp by fastforce
qed

lemma quantum_pos [simp]: "0 < quantum x"
  by (simp add: quantum_def)

lemma quantum_nz [simp]: "quantum x \<noteq> 0"
  using quantum_pos [of x] by linarith

lemma rne_pos_err: "\<bar>rne_pos x - x\<bar> \<le> quantum x / 2"
proof -
  have "rne_pos x - x = (of_int (round_half_even (x / quantum x)) - x / quantum x) * quantum x"
    using quantum_nz [of x] by (simp add: rne_pos_def left_diff_distrib)
  then have "\<bar>rne_pos x - x\<bar> =
      \<bar>of_int (round_half_even (x / quantum x)) - x / quantum x\<bar> * quantum x"
    by (simp add: abs_mult abs_of_pos)
  also have "\<dots> \<le> 1 / 2 * quantum x"
    by (intro mult_right_mono round_half_even_err) (simp add: less_imp_le)
  finally show ?thesis by simp
qed

text \<open>A multiple of the quantum bounds the rounded value on either side.\<close>

lemma rne_pos_ge:
  assumes "of_int n * quantum x \<le> x"
  shows "of_int n * quantum x \<le> rne_pos x"
proof -
  have "of_int n \<le> x / quantum x" using assms by (simp add: pos_le_divide_eq)
  then have "n \<le> round_half_even (x / quantum x)"
    using round_half_even_mono [of "of_int n" "x / quantum x"] by simp
  then show ?thesis by (simp add: rne_pos_def mult_right_mono less_imp_le)
qed

lemma rne_pos_le:
  assumes "x \<le> of_int n * quantum x"
  shows "rne_pos x \<le> of_int n * quantum x"
proof -
  have "x / quantum x \<le> of_int n" using assms by (simp add: pos_divide_le_eq)
  then have "round_half_even (x / quantum x) \<le> n"
    using round_half_even_mono [of "x / quantum x" "of_int n"] by simp
  then show ?thesis by (simp add: rne_pos_def mult_right_mono less_imp_le)
qed

lemma powi_quantum: "2 powi (ilog2 x + int k) = of_int (2 ^ (52 + k)) * quantum x"
proof -
  have "2 powi (ilog2 x + int k) = (2::rat) powi (int (52 + k) + (ilog2 x - 52))"
    by (simp add: add.commute)
  also have "\<dots> = 2 powi (int (52 + k)) * 2 powi (ilog2 x - 52)"
    by (rule power_int_add) simp
  finally show ?thesis by (simp only: powi_2_nat quantum_def of_int_power of_int_numeral)
qed

lemma rne_pos_between:
  assumes "0 < x"
  shows "2 powi (ilog2 x) \<le> rne_pos x" "rne_pos x \<le> 2 powi (ilog2 x + 1)"
  using ilog2_bounds [OF assms] rne_pos_ge [of "2 ^ 52" x] rne_pos_le [of x "2 ^ 53"]
    powi_quantum [of x 0] powi_quantum [of x 1] by simp_all

lemma rne_pos_mono:
  assumes "0 < x" "x \<le> y"
  shows "rne_pos x \<le> rne_pos y"
proof (cases "ilog2 x = ilog2 y")
  case True
  then have q: "quantum x = quantum y" by (simp add: quantum_def)
  have "x / quantum y \<le> y / quantum y" using assms by (simp add: divide_right_mono less_imp_le)
  then have "round_half_even (x / quantum y) \<le> round_half_even (y / quantum y)"
    by (rule round_half_even_mono)
  then show ?thesis unfolding rne_pos_def q by (simp add: mult_right_mono less_imp_le)
next
  case False
  then have "ilog2 x + 1 \<le> ilog2 y" using ilog2_mono [OF assms] by linarith
  then have "(2::rat) powi (ilog2 x + 1) \<le> 2 powi (ilog2 y)" by (rule powi_2_le)
  moreover have "0 < y" using assms by linarith
  ultimately show ?thesis using rne_pos_between [of x] rne_pos_between [of y] assms by linarith
qed

lemma rne_nonneg: "0 \<le> x \<Longrightarrow> 0 \<le> rne x"
proof (cases "x = 0")
  case False
  assume "0 \<le> x"
  with False have "0 < x" by simp
  then have "0 \<le> rne_pos x"
    using rne_pos_between(1) [of x] powi_2_pos [of "ilog2 x"] by linarith
  with \<open>0 < x\<close> show ?thesis by (simp add: rne_def)
qed (simp add: rne_def)

lemma rne_mono: "0 \<le> x \<Longrightarrow> x \<le> y \<Longrightarrow> rne x \<le> rne y"
  using rne_pos_mono [of x y] rne_nonneg [of y] by (auto simp: rne_def)

lemma rne_err: "0 \<le> x \<Longrightarrow> \<bar>rne x - x\<bar> \<le> x / 2 ^ 53"
proof (cases "x = 0")
  case False
  assume "0 \<le> x"
  with False have x: "0 < x" by simp
  have "2 ^ 52 * quantum x \<le> x" using ilog2_bounds(1) [OF x] powi_quantum [of x 0] by simp
  then have "quantum x / 2 \<le> x / 2 ^ 53" by simp
  then show ?thesis using rne_pos_err [of x] x by (simp add: rne_def)
qed (simp add: rne_def)

lemma rne_of_nat:
  assumes "n \<le> 2 ^ 53"
  shows "rne (of_nat n) = of_nat n"
proof (cases "n = 0")
  case False
  then have x: "0 < (of_nat n :: rat)" by simp
  have "\<exists>m. of_nat n = of_int m * quantum (of_nat n)"
  proof (cases "ilog2 (of_nat n) \<le> 52")
    case True
    then obtain k where k: "52 - ilog2 (of_nat n) = int k" by (metis nonneg_int_cases diff_ge_0_iff_ge)
    then have "ilog2 (of_nat n) - 52 = - int k" by linarith
    then have "quantum (of_nat n) * 2 ^ k = 1"
      by (simp add: quantum_def power_int_minus powi_2_nat)
    then have "of_nat n = of_int (int n * 2 ^ k) * quantum (of_nat n)"
      by (simp add: algebra_simps)
    then show ?thesis by blast
  next
    case False
    then have "(2::rat) powi 53 \<le> 2 powi (ilog2 (of_nat n))" by (intro powi_2_le) simp
    also have "\<dots> \<le> of_nat n" by (rule ilog2_bounds(1) [OF x])
    finally have "(2::rat) ^ 53 \<le> of_nat n" by simp
    then have n: "n = 2 ^ 53" using assms pow2_le_of_nat [of 53 n] by simp
    then have "(2::rat) powi (ilog2 (of_nat n)) \<le> 2 powi 53"
      using ilog2_bounds(1) [OF x] by simp
    then have "ilog2 (of_nat n) < 54"
      using powi_2_less_imp [of "ilog2 (of_nat n)" 54] by simp
    then have "ilog2 (of_nat n) = 53" using False by linarith
    then have "of_nat n = of_int (2 ^ 52) * quantum (of_nat n)" using n by (simp add: quantum_def)
    then show ?thesis by blast
  qed
  then obtain m where m: "of_nat n = of_int m * quantum (of_nat n)" by blast
  then have "of_nat n / quantum (of_nat n) = of_int m"
    by (metis less_irrefl nonzero_mult_div_cancel_right quantum_pos)
  then have "rne_pos (of_nat n) = of_int m * quantum (of_nat n)" by (simp add: rne_pos_def)
  then show ?thesis using x m by (simp add: rne_def)
qed (simp add: rne_def)

section \<open>Operations\<close>

definition f64_of_rat :: "rat \<Rightarrow> f64" where
  "f64_of_rat r =
     (let v = rne r in if v \<ge> 2 ^ 1024 then PInf else if v \<le> - (2 ^ 1024) then NInf else Fin v)"

definition f64_of_u64 :: "u64 \<Rightarrow> f64" where
  "f64_of_u64 w = f64_of_rat (of_nat (unat w))"

definition f64_of_nat :: "nat \<Rightarrow> f64" where
  "f64_of_nat n = f64_of_rat (of_nat n)"

definition f64_sign_neg :: "f64 \<Rightarrow> bool" where
  "f64_sign_neg x = (case x of NInf \<Rightarrow> True | Fin r \<Rightarrow> r < 0 | _ \<Rightarrow> False)"

fun f64_mul :: "f64 \<Rightarrow> f64 \<Rightarrow> f64" where
  "f64_mul (Fin a) (Fin b) = f64_of_rat (a * b)"
| "f64_mul x y =
     (if x = NaN \<or> y = NaN \<or> x = Fin 0 \<or> y = Fin 0 then NaN
      else if f64_sign_neg x = f64_sign_neg y then PInf else NInf)"

fun f64_add :: "f64 \<Rightarrow> f64 \<Rightarrow> f64" where
  "f64_add (Fin a) (Fin b) = f64_of_rat (a + b)"
| "f64_add (Fin a) y = y"
| "f64_add x (Fin b) = x"
| "f64_add x y = (if x = y then x else NaN)"

fun f64_neg :: "f64 \<Rightarrow> f64" where
  "f64_neg (Fin a) = Fin (- a)"
| "f64_neg PInf = NInf"
| "f64_neg NInf = PInf"
| "f64_neg NaN = NaN"

definition f64_sub :: "f64 \<Rightarrow> f64 \<Rightarrow> f64" where
  "f64_sub x y = f64_add x (f64_neg y)"

fun f64_div :: "f64 \<Rightarrow> f64 \<Rightarrow> f64" where
  "f64_div (Fin a) (Fin b) =
     (if b = 0 then (if a = 0 then NaN else if a > 0 then PInf else NInf) else f64_of_rat (a / b))"
| "f64_div (Fin a) PInf = Fin 0"
| "f64_div (Fin a) NInf = Fin 0"
| "f64_div PInf (Fin b) = (if b < 0 then NInf else PInf)"
| "f64_div NInf (Fin b) = (if b < 0 then PInf else NInf)"
| "f64_div x y = NaN"

fun f64_less :: "f64 \<Rightarrow> f64 \<Rightarrow> bool" where
  "f64_less (Fin a) (Fin b) = (a < b)"
| "f64_less NInf y = (y \<noteq> NaN \<and> y \<noteq> NInf)"
| "f64_less (Fin a) PInf = True"
| "f64_less x y = False"

definition f64_le :: "f64 \<Rightarrow> f64 \<Rightarrow> bool" where
  "f64_le x y \<longleftrightarrow> f64_less x y \<or> (x = y \<and> x \<noteq> NaN)"

definition f64_is_finite :: "f64 \<Rightarrow> bool" where
  "f64_is_finite x = (case x of Fin _ \<Rightarrow> True | _ \<Rightarrow> False)"

text \<open>\<open>round()\<close>: to the nearest integer, halves away from zero.\<close>

definition round_half_away :: "rat \<Rightarrow> int" where
  "round_half_away r = (if r \<ge> 0 then \<lfloor>r + 1 / 2\<rfloor> else - \<lfloor>- r + 1 / 2\<rfloor>)"

definition f64_round :: "f64 \<Rightarrow> f64" where
  "f64_round x = (case x of Fin r \<Rightarrow> Fin (of_int (round_half_away r)) | _ \<Rightarrow> x)"

definition f64_max :: "f64 \<Rightarrow> f64 \<Rightarrow> f64" where
  "f64_max x y = (if x = NaN then y else if y = NaN then x else if f64_less x y then y else x)"

definition f64_clamp :: "f64 \<Rightarrow> f64 \<Rightarrow> f64 \<Rightarrow> f64" where
  "f64_clamp x lo hi = (if f64_less x lo then lo else if f64_less hi x then hi else x)"

definition f64_to_u64 :: "f64 \<Rightarrow> u64" where
  "f64_to_u64 x =
     (case x of
        NaN \<Rightarrow> 0 | NInf \<Rightarrow> 0 | PInf \<Rightarrow> - 1
      | Fin r \<Rightarrow> if r \<le> 0 then 0 else if \<lfloor>r\<rfloor> \<ge> 2 ^ 64 then - 1 else of_int \<lfloor>r\<rfloor>)"

text \<open>On the integers of the program the conversion in and out are monotone.\<close>

lemma unat_f64_to_u64: "0 \<le> r \<Longrightarrow> unat (f64_to_u64 (Fin r)) = min (nat \<lfloor>r\<rfloor>) (2 ^ 64 - 1)"
proof (cases "\<lfloor>r\<rfloor> \<ge> 2 ^ 64 \<or> r = 0")
  case False
  assume "0 \<le> r"
  with False have r: "0 < r" "0 \<le> \<lfloor>r\<rfloor>" "\<lfloor>r\<rfloor> < 2 ^ 64" by auto
  then have "(of_int \<lfloor>r\<rfloor> :: u64) = of_nat (nat \<lfloor>r\<rfloor>)" by simp
  moreover have n: "nat \<lfloor>r\<rfloor> < 2 ^ 64" using r by (simp add: nat_less_iff)
  ultimately have "unat (of_int \<lfloor>r\<rfloor> :: u64) = nat \<lfloor>r\<rfloor>" by (simp add: unat_of_nat_small)
  then show ?thesis using r n by (simp add: f64_to_u64_def min_def)
next
  case True
  assume "0 \<le> r"
  show ?thesis
  proof (cases "r = 0")
    case False
    then have "2 ^ 64 \<le> \<lfloor>r\<rfloor>" "\<not> r \<le> 0" using True \<open>0 \<le> r\<close> by auto
    moreover from this have "2 ^ 64 \<le> nat \<lfloor>r\<rfloor>" by (simp add: le_nat_iff)
    ultimately show ?thesis by (simp add: f64_to_u64_def min_def)
  qed (simp add: f64_to_u64_def)
qed

lemma f64_to_u64_mono:
  "0 \<le> r \<Longrightarrow> r \<le> s \<Longrightarrow> f64_to_u64 (Fin r) \<le> f64_to_u64 (Fin s)"
  using nat_mono [OF floor_mono, of r s] unat_f64_to_u64 [of r] unat_f64_to_u64 [of s]
  by (simp add: word_le_nat_alt)

lemma round_half_away_mono: "0 \<le> r \<Longrightarrow> r \<le> s \<Longrightarrow> round_half_away r \<le> round_half_away s"
  by (simp add: round_half_away_def floor_mono)

lemma round_half_away_err: "\<bar>of_int (round_half_away r) - r\<bar> \<le> 1 / 2"
proof -
  have e: "\<bar>of_int \<lfloor>q + 1 / 2\<rfloor> - q\<bar> \<le> 1 / 2" for q :: rat
    unfolding abs_le_iff by linarith
  show ?thesis using e [of r] e [of "- r"]
    by (cases "0 \<le> r") (simp_all add: round_half_away_def abs_minus_commute add.commute)
qed

lemma round_half_away_of_int [simp]: "round_half_away (of_int n) = n"
  by (auto simp: round_half_away_def) linarith+

text \<open>Products of a 64-bit integer and a constant of moderate size never overflow.\<close>

lemma f64_of_rat_Fin: "0 \<le> r \<Longrightarrow> r < 2 ^ 1000 \<Longrightarrow> f64_of_rat r = Fin (rne r)"
proof -
  assume r: "0 \<le> r" "r < 2 ^ 1000"
  have "rne r \<le> r + r / 2 ^ 53" using rne_err [OF r(1)] by linarith
  also have "\<dots> < 2 ^ 1001" using r by simp
  also have "(2::rat) ^ 1001 \<le> 2 ^ 1024" by (rule power_increasing) auto
  finally have "rne r < 2 ^ 1024" .
  moreover have "- (2 ^ 1024) < rne r" using rne_nonneg [OF r(1)]
    by (smt (verit) neg_less_0_iff_less zero_less_numeral zero_less_power order_less_le_trans)
  ultimately show ?thesis by (simp add: f64_of_rat_def Let_def)
qed

end
