(* ===== verification/Policy.thy ===== *)
theory Policy
  imports F64 Admission
begin

text \<open>
  Compaction policy: \<open>PolicyConfig\<close> and its trigger
  (\<open>crates/gobstopper-core/src/strategy/mod.rs\<close>), the admission of a configured policy and the
  adaptive tuner (\<open>crates/gobstopper-core/src/policy.rs\<close>). Scaled triggers use the binary64
  arithmetic of theory \<open>F64\<close>. \<open>clamp\<close> panics when its bounds cross, so the tuner is modelled with
  an optional result and its totality is a theorem.
\<close>

declare of_nat_unat [simp del]

section \<open>Configuration\<close>

datatype quota_pressure = Low | Normal | High

record policy_config =
  trigger_tokens :: u64
  floor_tokens :: u64
  keep_recent_tool_outputs :: nat
  keep_score_threshold :: "f64 option"
  min_interval_secs :: u64
  apply_hold_secs :: u64
  min_savings_tokens :: u64
  quota_pressure :: quota_pressure
  adaptive :: bool
  block_tokens :: u64
  keep_recent_turns :: nat
  result_max_bytes :: u64

definition default_policy :: policy_config where
  "default_policy = \<lparr>trigger_tokens = 250000, floor_tokens = 40000, keep_recent_tool_outputs = 8,
     keep_score_threshold = None, min_interval_secs = 300, apply_hold_secs = 1800,
     min_savings_tokens = 4096, quota_pressure = Normal, adaptive = False, block_tokens = 0,
     keep_recent_turns = 3, result_max_bytes = 500\<rparr>"

definition pressure_factor :: "quota_pressure \<Rightarrow> f64" where
  "pressure_factor q =
     (case q of High \<Rightarrow> f64_of_rat (7 / 10) | Normal \<Rightarrow> f64_of_rat 1 | Low \<Rightarrow> f64_of_rat (23 / 20))"

definition effective_trigger :: "policy_config \<Rightarrow> u64" where
  "effective_trigger p =
     f64_to_u64 (f64_max
       (f64_round (f64_mul (f64_of_u64 (trigger_tokens p)) (pressure_factor (quota_pressure p))))
       (Fin 1))"

definition accepts_savings :: "policy_config \<Rightarrow> u64 \<Rightarrow> u64 \<Rightarrow> bool" where
  "accepts_savings p before after \<longleftrightarrow> sat_sub before after \<ge> min_savings_tokens p"

definition score_in_unit :: "f64 \<Rightarrow> bool" where
  "score_in_unit v \<longleftrightarrow> f64_is_finite v \<and> f64_le (Fin 0) v \<and> f64_le v (Fin 1)"

definition validate_policy :: "policy_config \<Rightarrow> unit rresult" where
  "validate_policy p =
     (if (case keep_score_threshold p of Some v \<Rightarrow> \<not> score_in_unit v | None \<Rightarrow> False)
      then Inl ''keep_score_threshold must be a finite value between 0 and 1''
      else if trigger_tokens p = 0 \<or> trigger_tokens p > MAX_POLICY_TOKENS \<or>
              floor_tokens p \<ge> trigger_tokens p \<or>
              keep_recent_tool_outputs p > MAX_ITEMS \<or>
              min_interval_secs p > MAX_INTERVAL_SECS \<or>
              apply_hold_secs p > MAX_INTERVAL_SECS \<or>
              min_savings_tokens p > MAX_POLICY_TOKENS \<or>
              block_tokens p > MAX_POLICY_TOKENS \<or>
              keep_recent_turns p > MAX_ITEMS \<or>
              result_max_bytes p > MAX_POLICY_TOKENS
      then Inl (''invalid policy bounds: require floor < trigger <= 10000000, '' @
        ''min_savings_tokens <= 10000000, block_tokens <= 10000000, result_max_bytes <= 10000000, '' @
        ''keep_recent_tool_outputs/keep_recent_turns <= 100000, and '' @
        ''min_interval_secs/apply_hold_secs <= 86400'')
      else Inr ())"

lemma validate_policy_trigger:
  assumes "validate_policy p = Inr ()"
  shows "0 < unat (trigger_tokens p)" "unat (trigger_tokens p) \<le> 10000000"
    "floor_tokens p < trigger_tokens p"
  using assms
  by (auto simp: validate_policy_def MAX_POLICY_TOKENS_def word_le_nat_alt word_less_nat_alt not_less not_le
      unat_gt_0 split: if_splits)

section \<open>Scaling in binary64\<close>

text \<open>The scaled trigger in rational terms, valid for every \<open>u64\<close> and moderate constant.\<close>

definition scaled :: "u64 \<Rightarrow> rat \<Rightarrow> rat" where
  "scaled t c = rne (rne (of_nat (unat t)) * c)"

lemma rne_u64:
  "0 \<le> rne (of_nat (unat (t :: u64)))" "rne (of_nat (unat t)) \<le> 2 ^ 65"
proof -
  have t: "(of_nat (unat t) :: rat) \<le> 2 ^ 64"
    using unat_lt_exp [of t] of_nat_le_pow2 [of "unat t" 64] by simp
  show "0 \<le> rne (of_nat (unat t))" by (rule rne_nonneg) simp
  have "rne (of_nat (unat t)) \<le> of_nat (unat t) + of_nat (unat t) / 2 ^ 53"
    using rne_err [of "of_nat (unat t)"] by linarith
  also have "\<dots> \<le> 2 ^ 65" using t by simp
  finally show "rne (of_nat (unat t)) \<le> 2 ^ 65" .
qed

lemma f64_of_u64_Fin: "f64_of_u64 t = Fin (rne (of_nat (unat t)))"
proof -
  have "(of_nat (unat t) :: rat) \<le> 2 ^ 64"
    using unat_lt_exp [of t] of_nat_le_pow2 [of "unat t" 64] by simp
  also have "(2::rat) ^ 64 < 2 ^ 1000" by (rule power_strict_increasing) auto
  finally show ?thesis unfolding f64_of_u64_def by (intro f64_of_rat_Fin) simp_all
qed

lemma f64_mul_scaled:
  assumes "0 \<le> c" "c \<le> 2 ^ 64"
  shows "f64_mul (f64_of_u64 t) (Fin c) = Fin (scaled t c)"
proof -
  have "rne (of_nat (unat t)) * c \<le> 2 ^ 65 * 2 ^ 64"
    using rne_u64 [of t] assms by (intro mult_mono) simp_all
  also have "\<dots> = (2::rat) ^ 129" by simp
  also have "\<dots> < 2 ^ 1000" by (rule power_strict_increasing) auto
  finally show ?thesis
    using rne_u64(1) [of t] assms
    by (simp only: f64_of_u64_Fin f64_mul.simps scaled_def) (simp add: f64_of_rat_Fin)
qed

lemma scaled_nonneg: "0 \<le> c \<Longrightarrow> 0 \<le> scaled t c"
  unfolding scaled_def by (intro rne_nonneg mult_nonneg_nonneg rne_u64)

lemma scaled_mono: "t \<le> u \<Longrightarrow> 0 \<le> c \<Longrightarrow> c \<le> d \<Longrightarrow> scaled t c \<le> scaled u d"
proof -
  assume a: "t \<le> u" "0 \<le> c" "c \<le> d"
  then have "rne (of_nat (unat t)) \<le> rne (of_nat (unat u))"
    by (intro rne_mono) (simp_all add: word_le_nat_alt)
  then show ?thesis unfolding scaled_def
    using a rne_u64(1) [of t] rne_u64(1) [of u]
    by (intro rne_mono mult_mono mult_nonneg_nonneg) (simp_all add: word_le_nat_alt)
qed

lemma scaled_exact:
  assumes "unat t \<le> 2 ^ 53" "of_nat (unat t) * c = of_nat n" "n \<le> 2 ^ 53"
  shows "scaled t c = of_nat n"
  using assms by (simp add: scaled_def rne_of_nat)

lemma scaled_err:
  assumes "unat t \<le> 2 ^ 53" "0 \<le> c"
  shows "\<bar>scaled t c - of_nat (unat t) * c\<bar> \<le> of_nat (unat t) * c / 2 ^ 53"
  using assms rne_err [of "of_nat (unat t) * c"] by (simp add: scaled_def rne_of_nat)

definition round_scaled :: "u64 \<Rightarrow> rat \<Rightarrow> u64" where
  "round_scaled t c = f64_to_u64 (Fin (of_int (round_half_away (scaled t c))))"

lemma round_half_away_nonneg: "0 \<le> r \<Longrightarrow> 0 \<le> round_half_away r"
  using round_half_away_mono [of 0 r] round_half_away_of_int [of 0] by simp

lemma f64_round_mul:
  assumes "0 \<le> c" "c \<le> 2 ^ 64"
  shows "f64_to_u64 (f64_round (f64_mul (f64_of_u64 t) (Fin c))) = round_scaled t c"
  unfolding f64_mul_scaled [OF assms] by (simp add: f64_round_def round_scaled_def)

lemma round_scaled_mono:
  assumes "t \<le> u" "0 \<le> c" "c \<le> d"
  shows "round_scaled t c \<le> round_scaled u d"
proof -
  have "round_half_away (scaled t c) \<le> round_half_away (scaled u d)"
    using assms by (intro round_half_away_mono scaled_nonneg scaled_mono)
  then show ?thesis unfolding round_scaled_def using assms
    by (intro f64_to_u64_mono) (simp_all add: round_half_away_nonneg scaled_nonneg)
qed

lemma unat_round_scaled:
  "0 \<le> c \<Longrightarrow> unat (round_scaled t c) = min (nat (round_half_away (scaled t c))) (2 ^ 64 - 1)"
  unfolding round_scaled_def
  by (subst unat_f64_to_u64) (simp_all add: round_half_away_nonneg scaled_nonneg)

section \<open>The effective trigger\<close>

definition pressure_rat :: "quota_pressure \<Rightarrow> rat" where
  "pressure_rat q = (case q of High \<Rightarrow> 7 / 10 | Normal \<Rightarrow> 1 | Low \<Rightarrow> 23 / 20)"

lemma pressure_factor_Fin: "pressure_factor q = Fin (rne (pressure_rat q))"
proof -
  have "(2::rat) < 2 ^ 1000" using power_strict_increasing [of 1 1000 "2::rat"] by simp
  then have "0 \<le> pressure_rat q" "pressure_rat q < 2 ^ 1000"
    by (auto simp: pressure_rat_def split: quota_pressure.split)
  then have "f64_of_rat (pressure_rat q) = Fin (rne (pressure_rat q))"
    by (rule f64_of_rat_Fin)
  then show ?thesis by (cases q) (simp_all add: pressure_factor_def pressure_rat_def)
qed

lemma rne_le_double: "0 \<le> x \<Longrightarrow> rne x \<le> 2 * x"
proof -
  assume x: "0 \<le> x"
  have "x / 2 ^ 53 \<le> x" using x by simp
  then show ?thesis using rne_err [OF x] unfolding abs_le_iff by linarith
qed

lemma rne_pressure: "0 \<le> rne (pressure_rat q)" "rne (pressure_rat q) \<le> 2"
proof -
  have p: "0 \<le> pressure_rat q" "pressure_rat q \<le> 23 / 20"
    by (auto simp: pressure_rat_def split: quota_pressure.split)
  then show "0 \<le> rne (pressure_rat q)" by (simp add: rne_nonneg)
  show "rne (pressure_rat q) \<le> 2"
    using rne_mono [OF p] rne_err [of "23 / 20"] unfolding abs_le_iff by simp
qed

lemma effective_trigger_eq:
  "effective_trigger p =
     max (round_scaled (trigger_tokens p) (rne (pressure_rat (quota_pressure p)))) 1"
proof -
  let ?c = "rne (pressure_rat (quota_pressure p))"
  let ?k = "round_half_away (scaled (trigger_tokens p) ?c)"
  have c: "0 \<le> ?c" "?c \<le> 2 ^ 64" using rne_pressure [of "quota_pressure p"] by simp_all
  have k: "0 \<le> ?k" by (intro round_half_away_nonneg scaled_nonneg c)
  have "f64_max (Fin (of_int ?k)) (Fin 1) = Fin (of_int (max ?k 1))"
    by (simp add: f64_max_def max_def)
  then have e: "effective_trigger p = f64_to_u64 (Fin (of_int (max ?k 1)))"
    unfolding effective_trigger_def pressure_factor_Fin f64_mul_scaled [OF c]
    by (simp add: f64_round_def)
  have "unat (f64_to_u64 (Fin (of_int (max ?k 1)))) = min (nat (max ?k 1)) (2 ^ 64 - 1)"
    by (subst unat_f64_to_u64) (use k in \<open>simp_all add: max_def\<close>)
  also have "\<dots> = max (min (nat ?k) (2 ^ 64 - 1)) 1" using k by (cases ?k) (simp_all add: max_def min_def)
  finally show ?thesis unfolding e
    by (simp add: word_unat_eq_iff unat_max unat_round_scaled [OF c(1)])
qed

lemma effective_trigger_pressure_mono:
  assumes "pressure_rat (quota_pressure p) \<le> pressure_rat (quota_pressure q)"
    and "trigger_tokens p \<le> trigger_tokens q"
  shows "effective_trigger p \<le> effective_trigger q"
proof -
  have "0 \<le> pressure_rat (quota_pressure p)"
    by (simp add: pressure_rat_def split: quota_pressure.split)
  then have "rne (pressure_rat (quota_pressure p)) \<le> rne (pressure_rat (quota_pressure q))"
    using assms by (intro rne_mono)
  then show ?thesis unfolding effective_trigger_eq
    using assms rne_pressure by (intro max.mono round_scaled_mono) simp_all
qed

lemma rne_close:
  assumes "unat t \<le> 10000000" "0 \<le> c" "c \<le> 2"
  shows "\<bar>scaled t (rne c) - of_nat (unat t) * c\<bar> < 1 / 100"
proof -
  let ?t = "of_nat (unat t) :: rat"
  have t: "0 \<le> ?t" "?t \<le> 10000000" using assms(1) of_nat_mono [OF assms(1), where 'a = rat] by simp_all
  have c: "\<bar>rne c - c\<bar> \<le> c / 2 ^ 53" "0 \<le> rne c"
    using rne_err [OF assms(2)] rne_nonneg [OF assms(2)] by blast+
  have c3: "rne c \<le> 4" using rne_le_double [OF assms(2)] assms(3) by linarith
  have "\<bar>?t * rne c - ?t * c\<bar> = ?t * \<bar>rne c - c\<bar>"
    using t by (simp add: abs_mult flip: right_diff_distrib)
  also have "\<dots> \<le> 10000000 * (2 / 2 ^ 53)"
    using t order_trans [OF c(1) divide_right_mono [OF assms(3)]] by (intro mult_mono) simp_all
  finally have 1: "\<bar>?t * rne c - ?t * c\<bar> \<le> 1 / 1000" by simp
  have "unat t \<le> 2 ^ 53" using assms(1) by simp
  then have "\<bar>scaled t (rne c) - ?t * rne c\<bar> \<le> ?t * rne c / 2 ^ 53" using c by (intro scaled_err)
  moreover have "?t * rne c \<le> 10000000 * 4" using t c c3 by (intro mult_mono) simp_all
  ultimately have 2: "\<bar>scaled t (rne c) - ?t * rne c\<bar> \<le> 1 / 1000" by simp
  show ?thesis using 1 2 unfolding abs_le_iff abs_less_iff by linarith
qed

lemma effective_trigger_facts:
  assumes "validate_policy p = Inr ()"
  shows "\<bar>20 * int (unat (effective_trigger p)) -
           (case quota_pressure p of High \<Rightarrow> 14 | Normal \<Rightarrow> 20 | Low \<Rightarrow> 23) *
             int (unat (trigger_tokens p))\<bar> \<le> 10"
    and "quota_pressure p = Normal \<Longrightarrow> effective_trigger p = trigger_tokens p"
    and "1 \<le> effective_trigger q"
    and "trigger_tokens q \<le> trigger_tokens r \<Longrightarrow>
           effective_trigger (q\<lparr>quota_pressure := High\<rparr>) \<le> effective_trigger (r\<lparr>quota_pressure := Normal\<rparr>) \<and>
           effective_trigger (q\<lparr>quota_pressure := Normal\<rparr>) \<le> effective_trigger (r\<lparr>quota_pressure := Low\<rparr>) \<and>
           effective_trigger (q\<lparr>quota_pressure := x\<rparr>) \<le> effective_trigger (r\<lparr>quota_pressure := x\<rparr>)"
proof -
  let ?t = "trigger_tokens p" and ?c = "pressure_rat (quota_pressure p)"
  let ?s = "scaled ?t (rne ?c)"
  have t: "0 < unat ?t" "unat ?t \<le> 10000000" using validate_policy_trigger [OF assms] by blast+
  have c: "0 \<le> ?c" "?c \<le> 2" "7 / 10 \<le> ?c"
    by (simp_all add: pressure_rat_def split: quota_pressure.split)
  have close: "\<bar>?s - of_nat (unat ?t) * ?c\<bar> < 1 / 100" using t c by (intro rne_close)
  have "1 * (7 / 10) \<le> of_nat (unat ?t) * ?c" using t c by (intro mult_mono) (simp_all add: Suc_le_eq)
  then have s: "1 / 2 < ?s" using close unfolding abs_less_iff by linarith
  have "of_nat (unat ?t) * ?c \<le> 10000000 * 2" using t c by (intro mult_mono) simp_all
  then have s': "?s < 20000001" using close unfolding abs_less_iff by linarith
  let ?k = "round_half_away ?s"
  have k: "\<bar>of_int ?k - ?s\<bar> \<le> 1 / 2" by (rule round_half_away_err)
  then have k1: "1 \<le> ?k" "?k < 2 ^ 64" 
  proof -
    have "0 < (of_int ?k :: rat)" "of_int ?k < (20000002 :: rat)"
      using k s s' unfolding abs_le_iff by linarith+
    then have "0 < ?k" "?k < 20000002" by linarith+
    then show "1 \<le> ?k" "?k < 2 ^ 64" by simp_all
  qed
  have "unat (effective_trigger p) = nat ?k"
    using k1 unfolding effective_trigger_eq unat_max unat_round_scaled [OF rne_pressure(1)]
    by (simp add: nat_less_iff max_def min_def) linarith
  then have eff: "int (unat (effective_trigger p)) = ?k" using k1 by simp
  define m :: int where "m = (case quota_pressure p of High \<Rightarrow> 14 | Normal \<Rightarrow> 20 | Low \<Rightarrow> 23)"
  have m: "20 * ?c = of_int m" by (simp add: m_def pressure_rat_def split: quota_pressure.split)
  have "\<bar>of_int ?k - of_nat (unat ?t) * ?c\<bar> < 51 / 100"
    using k close unfolding abs_le_iff abs_less_iff by linarith
  then have "\<bar>20 * of_int ?k - of_nat (unat ?t) * (20 * ?c)\<bar> < 11"
    unfolding abs_less_iff by linarith
  then have "\<bar>of_int (20 * ?k - m * int (unat ?t))\<bar> < (11 :: rat)"
    unfolding m by (simp add: mult.commute)
  then have "\<bar>20 * ?k - m * int (unat ?t)\<bar> < 11" by (simp only: flip: of_int_abs)
  then show "\<bar>20 * int (unat (effective_trigger p)) -
           (case quota_pressure p of High \<Rightarrow> 14 | Normal \<Rightarrow> 20 | Low \<Rightarrow> 23) *
             int (unat (trigger_tokens p))\<bar> \<le> 10"
    unfolding eff m_def by linarith
  show "effective_trigger p = trigger_tokens p" if "quota_pressure p = Normal"
  proof -
    have "rne ?c = of_nat 1" using rne_of_nat [of 1] that by (simp add: pressure_rat_def)
    then have "?s = of_nat (unat ?t)" using t by (intro scaled_exact) simp_all
    then have "?k = int (unat ?t)" using round_half_away_of_int [of "int (unat ?t)"] by simp
    then show ?thesis using eff by (simp add: word_unat_eq_iff)
  qed
  show "1 \<le> effective_trigger q" by (simp add: effective_trigger_eq)
  show "effective_trigger (q\<lparr>quota_pressure := High\<rparr>) \<le> effective_trigger (r\<lparr>quota_pressure := Normal\<rparr>) \<and>
           effective_trigger (q\<lparr>quota_pressure := Normal\<rparr>) \<le> effective_trigger (r\<lparr>quota_pressure := Low\<rparr>) \<and>
           effective_trigger (q\<lparr>quota_pressure := x\<rparr>) \<le> effective_trigger (r\<lparr>quota_pressure := x\<rparr>)"
    if "trigger_tokens q \<le> trigger_tokens r"
    using that by (intro conjI effective_trigger_pressure_mono) (simp_all add: pressure_rat_def)
qed

text \<open>For every policy the validator accepts, the trigger the strategies compare with is the
  configured one scaled by exactly 70, 100 or 115 percent and rounded to a nearest whole token:
  binary64 arithmetic costs nothing in the admitted range. Under any configuration it is at
  least one token, and it never falls when the pressure eases or the configured trigger grows.\<close>

theorem effective_trigger_scaled:
  assumes "validate_policy p = Inr ()"
  shows "\<bar>20 * int (unat (effective_trigger p)) -
           (case quota_pressure p of High \<Rightarrow> 14 | Normal \<Rightarrow> 20 | Low \<Rightarrow> 23) *
             int (unat (trigger_tokens p))\<bar> \<le> 10 \<and>
    (quota_pressure p = Normal \<longrightarrow> effective_trigger p = trigger_tokens p) \<and>
    1 \<le> effective_trigger q \<and>
    (trigger_tokens q \<le> trigger_tokens r \<longrightarrow>
       effective_trigger (q\<lparr>quota_pressure := High\<rparr>) \<le> effective_trigger (r\<lparr>quota_pressure := Normal\<rparr>) \<and>
       effective_trigger (q\<lparr>quota_pressure := Normal\<rparr>) \<le> effective_trigger (r\<lparr>quota_pressure := Low\<rparr>) \<and>
       effective_trigger (q\<lparr>quota_pressure := x\<rparr>) \<le> effective_trigger (r\<lparr>quota_pressure := x\<rparr>))"
  using effective_trigger_facts [OF assms] by blast

theorem effective_trigger_scaled_witness:
  "effective_trigger default_policy = 250000"
  using effective_trigger_scaled [of default_policy default_policy default_policy]
  by (simp add: validate_policy_def default_policy_def MAX_POLICY_TOKENS_def MAX_ITEMS_def
      MAX_INTERVAL_SECS_def)


section \<open>The adaptive tuner\<close>

record adaptive_sample =
  model_context_window :: "u64 option"
  sample_context_tokens :: u64
  sample_elidable_tokens :: "u64 option"
  recent :: "(u64 \<times> u64) list"

record adaptive_outcome =
  policy :: policy_config
  reasons :: "string list"

definition WINDOW_TRIGGER_FRACTION :: f64 where "WINDOW_TRIGGER_FRACTION = f64_of_rat (1 / 4)"
definition FLOOR_TRIGGER_FRACTION :: f64 where "FLOOR_TRIGGER_FRACTION = f64_of_rat (1 / 2)"
definition LOW_YIELD_RATIO :: f64 where "LOW_YIELD_RATIO = f64_of_rat (1 / 10)"
definition LOW_YIELD_BACKOFF :: f64 where "LOW_YIELD_BACKOFF = f64_of_rat (3 / 2)"
definition MAX_TRIGGER_BOOST :: f64 where "MAX_TRIGGER_BOOST = f64_of_rat 2"
definition HIGH_ELIDABLE_RATIO :: f64 where "HIGH_ELIDABLE_RATIO = f64_of_rat (1 / 2)"
definition HIGH_ELIDABLE_TIGHTEN :: f64 where "HIGH_ELIDABLE_TIGHTEN = f64_of_rat (4 / 5)"
definition MIN_TRIGGER :: u64 where "MIN_TRIGGER = 10000"
definition MIN_FLOOR :: u64 where "MIN_FLOOR = 1000"

text \<open>\<open>((t as f64) * c).round() as u64\<close>.\<close>

definition scale_round :: "u64 \<Rightarrow> f64 \<Rightarrow> u64" where
  "scale_round t c = f64_to_u64 (f64_round (f64_mul (f64_of_u64 t) c))"

definition window_cap :: "adaptive_sample \<Rightarrow> u64 \<times> string list \<Rightarrow> u64 \<times> string list" where
  "window_cap s st =
     (case st of (trigger, rs) \<Rightarrow>
        case model_context_window s of
          None \<Rightarrow> st
        | Some window \<Rightarrow>
            if window = 0 then st
            else
              let cap = scale_round window WINDOW_TRIGGER_FRACTION in
              if trigger > cap then (max cap MIN_TRIGGER, rs @ [''trigger_capped_to_window_fraction''])
              else st)"

definition low_yield :: "u64 \<times> u64 \<Rightarrow> bool" where
  "low_yield e = (case e of (prior, reclaimed) \<Rightarrow>
     prior > 0 \<and> f64_less (f64_of_u64 reclaimed) (f64_mul (f64_of_u64 prior) LOW_YIELD_RATIO))"

definition yield_backoff ::
  "policy_config \<Rightarrow> adaptive_sample \<Rightarrow> u64 \<times> string list \<Rightarrow> u64 \<times> string list" where
  "yield_backoff base s st =
     (case st of (trigger, rs) \<Rightarrow>
        let recent3 = take 3 (recent s) in
        if length recent3 \<ge> 2 \<and> (\<forall>e \<in> set recent3. low_yield e) then
          let bound = scale_round (trigger_tokens base) MAX_TRIGGER_BOOST;
              raised = scale_round trigger LOW_YIELD_BACKOFF in
          if raised > trigger then (min raised bound, rs @ [''trigger_raised_low_yield'']) else st
        else st)"

definition elidable_tighten :: "adaptive_sample \<Rightarrow> u64 \<times> string list \<Rightarrow> u64 \<times> string list" where
  "elidable_tighten s st =
     (case st of (trigger, rs) \<Rightarrow>
        case sample_elidable_tokens s of
          None \<Rightarrow> st
        | Some elidable \<Rightarrow>
            if sample_context_tokens s > 0 \<and>
               f64_less (f64_mul (f64_of_u64 (sample_context_tokens s)) HIGH_ELIDABLE_RATIO)
                 (f64_of_u64 elidable)
            then
              let tightened = scale_round trigger HIGH_ELIDABLE_TIGHTEN in
              if tightened < trigger then (tightened, rs @ [''trigger_lowered_high_elidable''])
              else st
            else st)"

text \<open>\<open>Ord::clamp\<close>: panics, here \<open>None\<close>, when the lower bound exceeds the upper.\<close>

definition u64_clamp :: "u64 \<Rightarrow> u64 \<Rightarrow> u64 \<Rightarrow> u64 option" where
  "u64_clamp x lo hi = (if lo > hi then None else Some (if x < lo then lo else if x > hi then hi else x))"

definition adapt :: "policy_config \<Rightarrow> adaptive_sample \<Rightarrow> adaptive_outcome option" where
  "adapt base s =
     (let (trigger, rs) =
            elidable_tighten s (yield_backoff base s (window_cap s (trigger_tokens base, [])));
          floor_cap = f64_to_u64 (f64_mul (f64_of_u64 trigger) FLOOR_TRIGGER_FRACTION);
          (floor, rs) =
            (if floor_tokens base > floor_cap
             then (max floor_cap MIN_FLOOR, rs @ [''floor_capped_to_trigger_half''])
             else (floor_tokens base, rs));
          trigger = max (max trigger MIN_TRIGGER) (sat_mul floor 2)
      in case u64_clamp floor MIN_FLOOR (trigger div 2) of
           None \<Rightarrow> None
         | Some floor \<Rightarrow>
             Some \<lparr>policy = base\<lparr>trigger_tokens := trigger, floor_tokens := floor\<rparr>, reasons = rs\<rparr>)"

lemma rne_consts: "rne (1/2) = 1/2" "rne (3/2) = 3/2" "rne (1/4) = 1/4" by code_simp+

lemma f64_const: "0 \<le> r \<Longrightarrow> r \<le> 2 \<Longrightarrow> f64_of_rat r = Fin (rne r)"
  using power_strict_increasing [of 1 1000 "2::rat"] by (intro f64_of_rat_Fin) simp_all

lemma scale_round_eq:
  assumes "0 \<le> r" "r \<le> 2"
  shows "scale_round t (f64_of_rat r) = round_scaled t (rne r)"
  unfolding scale_round_def f64_const [OF assms]
  by (rule f64_round_mul) (use assms rne_nonneg [of r] rne_le_double [of r] in auto)

lemma rne_2: "rne 2 = 2" using rne_of_nat [of 2] by simp

lemma scale_round_exact:
  assumes "0 \<le> r" "r \<le> 2" "rne r = r" "unat t \<le> 2 ^ 53" "of_nat (unat t) * r = of_nat n" "n \<le> 2 ^ 53"
  shows "unat (scale_round t (f64_of_rat r)) = n"
proof -
  have "scaled t r = of_nat n" using assms by (intro scaled_exact)
  then have "round_half_away (scaled t r) = int n"
    using round_half_away_of_int [of "int n"] by simp
  then show ?thesis using assms by (simp add: scale_round_eq unat_round_scaled)
qed

lemma scale_round_boost:
  "unat t \<le> 10000000 \<Longrightarrow> unat (scale_round t MAX_TRIGGER_BOOST) = 2 * unat t"
  unfolding MAX_TRIGGER_BOOST_def by (rule scale_round_exact) (simp_all add: rne_2)

lemma floor_cap_le:
  assumes "unat t \<le> 2 ^ 52"
  shows "2 * unat (f64_to_u64 (f64_mul (f64_of_u64 t) FLOOR_TRIGGER_FRACTION)) \<le> unat t"
proof -
  let ?h = "of_nat (unat t) * (1 / 2) :: rat" and ?s = "scaled t (1 / 2)"
  have e: "f64_mul (f64_of_u64 t) FLOOR_TRIGGER_FRACTION = Fin ?s"
    unfolding FLOOR_TRIGGER_FRACTION_def f64_const [of "1 / 2", simplified] rne_consts
    by (rule f64_mul_scaled) simp_all
  have "\<bar>?s - ?h\<bar> \<le> ?h / 2 ^ 53" using assms by (intro scaled_err) simp_all
  moreover have "(of_nat (unat t) :: rat) \<le> 2 ^ 52" using assms by (simp only: of_nat_le_pow2)
  then have "?h / 2 ^ 53 < 1 / 2" by simp
  moreover have "of_int \<lfloor>?s\<rfloor> \<le> ?s" by simp
  ultimately have "of_int (2 * \<lfloor>?s\<rfloor>) < (of_int (int (unat t) + 1) :: rat)"
    unfolding abs_le_iff of_int_add of_int_mult of_int_of_nat_eq of_int_numeral of_int_1 by linarith
  then have *: "2 * \<lfloor>?s\<rfloor> < int (unat t) + 1" by (simp only: of_int_less_iff)
  have s: "0 \<le> ?s" by (rule scaled_nonneg) simp
  have "min (nat \<lfloor>?s\<rfloor>) (2 ^ 64 - 1) \<le> nat \<lfloor>?s\<rfloor>" by simp
  then show ?thesis using * s unfolding e unat_f64_to_u64 [OF s] by linarith
qed

text \<open>How far each rule can move the running trigger.\<close>

lemma window_cap_le: "unat (fst (window_cap s st)) \<le> max (unat (fst st)) 10000"
  by (auto simp: window_cap_def MIN_TRIGGER_def Let_def word_arith_simps word_less_nat_alt
      split: prod.splits option.splits)

lemma yield_backoff_le:
  "unat (fst (yield_backoff base s st)) \<le>
     max (unat (fst st)) (unat (scale_round (trigger_tokens base) MAX_TRIGGER_BOOST))"
  by (auto simp: yield_backoff_def Let_def word_arith_simps split: prod.splits)

lemma elidable_tighten_le: "unat (fst (elidable_tighten s st)) \<le> unat (fst st)"
  by (auto simp: elidable_tighten_def Let_def word_less_nat_alt split: prod.splits option.splits)

lemmas adapt_rule_bounds = window_cap_le yield_backoff_le elidable_tighten_le

lemma adapt_cases:
  obtains trigger rs floor where
    "elidable_tighten s (yield_backoff base s (window_cap s (trigger_tokens base, []))) = (trigger, rs)"
    "unat floor \<le> max (unat (f64_to_u64 (f64_mul (f64_of_u64 trigger) FLOOR_TRIGGER_FRACTION))) 1000"
    "map_option policy (adapt base s) =
       (let t = max (max trigger MIN_TRIGGER) (sat_mul floor 2) in
        map_option (\<lambda>f. base\<lparr>trigger_tokens := t, floor_tokens := f\<rparr>) (u64_clamp floor MIN_FLOOR (t div 2)))"
proof -
  obtain trigger rs where r:
    "elidable_tighten s (yield_backoff base s (window_cap s (trigger_tokens base, []))) = (trigger, rs)"
    by (rule prod.exhaust)
  let ?cap = "f64_to_u64 (f64_mul (f64_of_u64 trigger) FLOOR_TRIGGER_FRACTION)"
  show thesis
  proof (cases "floor_tokens base > ?cap")
    case True
    show thesis
      by (rule that [OF r, of "max ?cap MIN_FLOOR"])
        (simp_all add: adapt_def r True Let_def word_arith_simps MIN_FLOOR_def option.map_comp comp_def
          split: option.split)
  next
    case False
    show thesis
      by (rule that [OF r, of "floor_tokens base"])
        (use False in \<open>simp_all add: adapt_def r Let_def word_less_nat_alt option.map_comp comp_def
          split: option.split\<close>)
  qed
qed

lemma u64_clamp_Some: "lo \<le> hi \<Longrightarrow> \<exists>y. u64_clamp x lo hi = Some y \<and> lo \<le> y \<and> y \<le> hi"
  by (auto simp: u64_clamp_def)

lemma half_le: "y \<le> t div 2 \<Longrightarrow> 2 * unat y \<le> unat (t :: u64)"
  by (simp add: word_le_nat_alt unat_div)

lemma adapt_Some:
  "\<exists>out. adapt base s = Some out \<and> MIN_FLOOR \<le> floor_tokens (policy out) \<and>
     2 * unat (floor_tokens (policy out)) \<le> unat (trigger_tokens (policy out)) \<and>
     MIN_TRIGGER \<le> trigger_tokens (policy out) \<and>
     (policy out)\<lparr>trigger_tokens := trigger_tokens base, floor_tokens := floor_tokens base\<rparr> = base"
proof (rule adapt_cases [of s base])
  fix trigger rs floor
  let ?t = "max (max trigger MIN_TRIGGER) (sat_mul floor 2)"
  assume a: "map_option policy (adapt base s) =
       (let t = ?t in
        map_option (\<lambda>f. base\<lparr>trigger_tokens := t, floor_tokens := f\<rparr>) (u64_clamp floor MIN_FLOOR (t div 2)))"
  have "10000 \<le> unat ?t" by (simp add: word_arith_simps MIN_TRIGGER_def)
  then have "MIN_FLOOR \<le> ?t div 2" "MIN_TRIGGER \<le> ?t"
    by (simp_all add: MIN_FLOOR_def MIN_TRIGGER_def word_le_nat_alt unat_div)
  moreover from u64_clamp_Some [OF this(1)] obtain y where
    "u64_clamp floor MIN_FLOOR (?t div 2) = Some y" "MIN_FLOOR \<le> y" "y \<le> ?t div 2" by blast
  ultimately show ?thesis using a half_le [of y ?t]
    by (cases "adapt base s") (simp_all add: Let_def)
qed


lemma adapt_trigger_le:
  assumes "unat (trigger_tokens base) \<le> 10000000" "adapt base s = Some out"
  shows "unat (trigger_tokens (policy out)) \<le> max 10000 (2 * unat (trigger_tokens base))"
proof (rule adapt_cases [of s base])
  fix trigger rs floor
  let ?t = "max (max trigger MIN_TRIGGER) (sat_mul floor 2)"
  let ?cap = "f64_to_u64 (f64_mul (f64_of_u64 trigger) FLOOR_TRIGGER_FRACTION)"
  let ?b = "max 10000 (2 * unat (trigger_tokens base))"
  assume st: "elidable_tighten s (yield_backoff base s (window_cap s (trigger_tokens base, []))) = (trigger, rs)"
    and fl: "unat floor \<le> max (unat ?cap) 1000"
    and a: "map_option policy (adapt base s) =
       (let t = ?t in
        map_option (\<lambda>f. base\<lparr>trigger_tokens := t, floor_tokens := f\<rparr>) (u64_clamp floor MIN_FLOOR (t div 2)))"
  have tr: "unat trigger \<le> ?b"
    using elidable_tighten_le [of s "yield_backoff base s (window_cap s (trigger_tokens base, []))"]
      yield_backoff_le [of base s "window_cap s (trigger_tokens base, [])"]
      window_cap_le [of s "(trigger_tokens base, [])"] scale_round_boost [OF assms(1)]
    unfolding st by simp
  then have "2 * unat ?cap \<le> unat trigger" using assms(1) by (intro floor_cap_le) simp
  then have "2 * unat floor \<le> ?b" using fl tr by linarith
  then have "unat ?t \<le> ?b" using tr by (simp add: word_arith_simps MIN_TRIGGER_def)
  moreover have "trigger_tokens (policy out) = ?t"
    using a assms(2) by (cases "u64_clamp floor MIN_FLOOR (?t div 2)") (simp_all add: Let_def)
  ultimately show ?thesis by simp
qed

text \<open>The tuner never panics and keeps its absolute guard rails whatever it observes: it always
  returns a policy, whose floor is at least the minimum and at most half the trigger (so a
  compaction cycle has amplitude), whose trigger is at least the minimum, and which differs from
  the configured policy in nothing but those two values.\<close>

theorem adapt_guard_rails:
  "\<exists>out. adapt base s = Some out \<and> MIN_FLOOR \<le> floor_tokens (policy out) \<and>
     2 * unat (floor_tokens (policy out)) \<le> unat (trigger_tokens (policy out)) \<and>
     MIN_TRIGGER \<le> trigger_tokens (policy out) \<and>
     (policy out)\<lparr>trigger_tokens := trigger_tokens base, floor_tokens := floor_tokens base\<rparr> = base"
  by (rule adapt_Some)

lemma validate_policy_cong:
  assumes "validate_policy base = Inr ()" "p\<lparr>trigger_tokens := t, floor_tokens := f\<rparr> = base"
    "floor_tokens p < trigger_tokens p" "trigger_tokens p \<le> MAX_POLICY_TOKENS"
  shows "validate_policy p = Inr ()"
proof -
  have "trigger_tokens p \<noteq> 0" using assms(3) by auto
  then show ?thesis using assms(1,3,4) unfolding assms(2) [symmetric]
    by (auto simp: validate_policy_def not_le not_less split: if_splits option.splits)
qed

text \<open>Adaptation is bounded by the configuration: on an admitted policy the adapted trigger is
  at most twice the configured one (or the minimum of 10000), and where the configured trigger
  is at most half of the admission limit the adapted policy is admitted in turn, so the second
  admission check of an evaluation cannot fail.\<close>

theorem adapt_bounded:
  assumes "validate_policy base = Inr ()" "adapt base s = Some out"
  shows "unat (trigger_tokens (policy out)) \<le> max 10000 (2 * unat (trigger_tokens base)) \<and>
    (trigger_tokens base \<le> 5000000 \<longrightarrow> validate_policy (policy out) = Inr ())"
proof -
  have b: "unat (trigger_tokens base) \<le> 10000000" using validate_policy_trigger [OF assms(1)] by blast
  note le = adapt_trigger_le [OF b assms(2)]
  obtain out' where out': "adapt base s = Some out'"
      "2 * unat (floor_tokens (policy out')) \<le> unat (trigger_tokens (policy out'))"
      "MIN_TRIGGER \<le> trigger_tokens (policy out')"
      "(policy out')\<lparr>trigger_tokens := trigger_tokens base, floor_tokens := floor_tokens base\<rparr> = base"
    using adapt_Some [of base s] by blast
  then have [simp]: "out' = out" using assms(2) by simp
  have "validate_policy (policy out) = Inr ()" if "trigger_tokens base \<le> 5000000"
  proof (rule validate_policy_cong [OF assms(1)])
    show "(policy out)\<lparr>trigger_tokens := trigger_tokens base, floor_tokens := floor_tokens base\<rparr> = base"
      using out'(4) by simp
    show "floor_tokens (policy out) < trigger_tokens (policy out)"
      using out'(2,3) by (simp add: word_less_nat_alt word_le_nat_alt MIN_TRIGGER_def)
    show "trigger_tokens (policy out) \<le> MAX_POLICY_TOKENS"
      using le that by (simp add: MAX_POLICY_TOKENS_def word_le_nat_alt)
  qed
  with le show ?thesis by blast
qed

definition tuned_policy :: policy_config where
  "tuned_policy = default_policy\<lparr>trigger_tokens := 10000000, adaptive := True\<rparr>"

definition low_yield_sample :: adaptive_sample where
  "low_yield_sample = \<lparr>model_context_window = None, sample_context_tokens = 260000,
     sample_elidable_tokens = None, recent = [(260000, 10000), (255000, 8000)]\<rparr>"

lemma validate_default: "validate_policy default_policy = Inr ()"
  by (simp add: validate_policy_def default_policy_def MAX_POLICY_TOKENS_def MAX_ITEMS_def
      MAX_INTERVAL_SECS_def)

lemma tuned_policy_admitted: "validate_policy tuned_policy = Inr ()"
  by (simp add: validate_policy_def tuned_policy_def default_policy_def MAX_POLICY_TOKENS_def MAX_ITEMS_def
      MAX_INTERVAL_SECS_def)

theorem adapt_bounded_witness:
  "\<exists>out. adapt default_policy low_yield_sample = Some out \<and> validate_policy (policy out) = Inr ()"
proof -
  obtain out where "adapt default_policy low_yield_sample = Some out" using adapt_Some by blast
  moreover from adapt_bounded [OF validate_default this]
  have "validate_policy (policy out) = Inr ()" by (simp add: default_policy_def)
  ultimately show ?thesis by blast
qed

lemma low_yieldI:
  assumes "0 < a" "unat a \<le> 10000000" "10 * unat b < unat a"
  shows "low_yield (a, b)"
proof -
  let ?s = "scaled a (rne (1 / 10))"
  have m: "f64_mul (f64_of_u64 a) LOW_YIELD_RATIO = Fin ?s"
    unfolding LOW_YIELD_RATIO_def f64_const [of "1 / 10", simplified]
    by (rule f64_mul_scaled) (use rne_nonneg [of "1 / 10"] rne_le_double [of "1 / 10"] in auto)
  have "\<bar>?s - of_nat (unat a) * (1 / 10)\<bar> < 1 / 100"
    using assms(2) by (intro rne_close) simp_all
  moreover have "of_nat (10 * unat b + 1) \<le> (of_nat (unat a) :: rat)"
    using assms(3) by (simp only: of_nat_le_iff)
  then have "10 * of_nat (unat b) + 1 \<le> (of_nat (unat a) :: rat)" by simp
  ultimately have "of_nat (unat b) < ?s" unfolding abs_less_iff by linarith
  moreover have "f64_of_u64 b = Fin (of_nat (unat b))"
    using assms by (simp add: f64_of_u64_Fin rne_of_nat)
  ultimately show ?thesis using assms(1) by (simp add: low_yield_def m)
qed

text \<open>C32: The boundary is sharp: a policy the validator admits, with a trigger of ten million, and two
  low-yield compactions in the history make the tuner answer with a trigger of fifteen million,
  which the same validator refuses. An evaluation of such a session ends in the validator's error
  although the configuration was accepted.\<close>

theorem adapt_escapes_admission:
  "validate_policy tuned_policy = Inr () \<and>
   (case adapt tuned_policy low_yield_sample of
      None \<Rightarrow> False
    | Some out \<Rightarrow> trigger_tokens (policy out) = 15000000 \<and> isl (validate_policy (policy out)))"
proof (rule conjI [OF tuned_policy_admitted])
  have y: "low_yield (260000, 10000)" "low_yield (255000, 8000)" by (intro low_yieldI; simp)+
  have r: "scale_round 10000000 LOW_YIELD_BACKOFF = 15000000"
    unfolding word_unat_eq_iff LOW_YIELD_BACKOFF_def
    by (subst scale_round_exact [where n = 15000000]) (simp_all add: rne_consts)
  have b: "scale_round 10000000 MAX_TRIGGER_BOOST = 20000000"
    unfolding word_unat_eq_iff by (simp add: scale_round_boost)
  have st: "elidable_tighten low_yield_sample (yield_backoff tuned_policy low_yield_sample
      (window_cap low_yield_sample (trigger_tokens tuned_policy, [])))
    = (15000000, [''trigger_raised_low_yield''])"
    by (simp add: elidable_tighten_def window_cap_def yield_backoff_def low_yield_sample_def
        tuned_policy_def y r b)
  let ?cap = "f64_to_u64 (f64_mul (f64_of_u64 15000000) FLOOR_TRIGGER_FRACTION)"
  have "scaled 15000000 (1 / 2) = of_nat 7500000" by (rule scaled_exact) simp_all
  then have "f64_mul (f64_of_u64 15000000) FLOOR_TRIGGER_FRACTION = Fin 7500000"
    unfolding FLOOR_TRIGGER_FRACTION_def f64_const [of "1 / 2", simplified] rne_consts
    by (subst f64_mul_scaled) simp_all
  then have c: "?cap = 7500000" by (simp add: word_unat_eq_iff unat_f64_to_u64)
  have "adapt tuned_policy low_yield_sample = Some
      \<lparr>policy = tuned_policy\<lparr>trigger_tokens := 15000000, floor_tokens := 40000\<rparr>,
       reasons = [''trigger_raised_low_yield'']\<rparr>"
    unfolding adapt_def st prod.case Let_def c
    by (simp add: tuned_policy_def default_policy_def u64_clamp_def sat_mul_def MIN_TRIGGER_def MIN_FLOOR_def)
  then show "case adapt tuned_policy low_yield_sample of
      None \<Rightarrow> False
    | Some out \<Rightarrow> trigger_tokens (policy out) = 15000000 \<and> isl (validate_policy (policy out))"
    by (simp add: validate_policy_def MAX_POLICY_TOKENS_def tuned_policy_def default_policy_def)
qed

end
