(* ===== verification/Validation.thy ===== *)
theory Validation
  imports Plan Policy
begin

text \<open>
  The plan validator \<open>validate_edits\<close> of \<open>crates/gobstopper-core/src/validation.rs\<close>: the one gate
  every plan passes before an adapter may execute it. The hash sets of the source are lists here,
  only ever tested for membership. The main result characterises acceptance without the running
  state: a plan passes exactly when it satisfies the declarative \<open>plan_admissible\<close>.
\<close>

section \<open>The validator\<close>

text \<open>What the validator computes once from the transcript and the policy: the items in line
  order, their lines, the lines of the newest elidable items that stay protected, and the tool
  call ids in use.\<close>

record validation_env =
  v_transcript :: transcript
  v_items :: "transcript_item list"
  v_indexes :: "nat list"
  v_protected :: "nat list"
  v_tool_ids :: "ustr list"
  v_edit_count :: nat

definition protected_lines :: "transcript \<Rightarrow> nat \<Rightarrow> nat list" where
  "protected_lines t keep = map line_index (take keep (filter is_elidable (rev (items t))))"

definition known_tool_use_ids :: "transcript \<Rightarrow> ustr list" where
  "known_tool_use_ids t = concat (map tool_use_ids (items t))"

definition validation_env_of :: "transcript \<Rightarrow> policy_config \<Rightarrow> edit list \<Rightarrow> validation_env" where
  "validation_env_of t p es =
     (let sorted = sort_key line_index (items t) in
      \<lparr>v_transcript = t, v_items = sorted, v_indexes = map line_index sorted,
       v_protected = protected_lines t (keep_recent_tool_outputs p),
       v_tool_ids = known_tool_use_ids t, v_edit_count = length es\<rparr>)"

fun edit_class_of :: "edit \<Rightarrow> edit_class" where
  "edit_class_of (Elide _ _ _) = Elide_class"
| "edit_class_of (InjectDigest _) = Digest_class"
| "edit_class_of (ProviderCompact _) = Provider_control"
| "edit_class_of (CacheEdit _) = Cache_control"

definition has_line_break :: "ustr \<Rightarrow> bool" where
  "has_line_break s \<longleftrightarrow> nl \<in> set s \<or> cr \<in> set s"

definition item_stub_bad :: "ustr \<Rightarrow> bool" where
  "item_stub_bad s \<longleftrightarrow> s = [] \<or> str_len s > 200 \<or> has_line_break s \<or> list_ex is_control s"

definition elision_shape_bad :: "nat list \<Rightarrow> ustr \<Rightarrow> (nat \<times> ustr) list \<Rightarrow> bool" where
  "elision_shape_bad targets stub per_item \<longleftrightarrow>
     length targets > MAX_ITEMS \<or> str_len stub > 96 \<or> contains_str stub (lit ''{kind}'') \<or>
     has_line_break stub \<or> length per_item > length targets \<or>
     list_ex (\<lambda>(k, _). k \<notin> set targets) per_item \<or> list_ex (\<lambda>(_, s). item_stub_bad s) per_item"

text \<open>The loop over an elision's lines; it returns the lines seen so far.\<close>

fun claim_lines :: "validation_env \<Rightarrow> nat list \<Rightarrow> nat list \<Rightarrow> nat list rresult" where
  "claim_lines v [] seen = Inr seen"
| "claim_lines v (l # ls) seen =
     (case find_index (v_indexes v) l of
        None \<Rightarrow> Inl ''unknown edit index''
      | Some position \<Rightarrow>
          let item = v_items v ! position in
          if \<not> target_allowed (est_tokens item) (elidable_bytes item) (l \<in> set (v_protected v))
          then Inl ''edit targets protected or non-elidable content''
          else if l \<in> set seen then Inl ''overlapping elision edits''
          else claim_lines v ls (l # seen))"

text \<open>\<open>try_fold\<close> over the texts of a digest.\<close>

fun digest_bytes :: "ustr list \<Rightarrow> nat \<Rightarrow> nat option" where
  "digest_bytes [] running = Some running"
| "digest_bytes (s # ss) running =
     (case add_digest_bytes running (str_len s) of None \<Rightarrow> None | Some n \<Rightarrow> digest_bytes ss n)"

definition cache_id_char :: "nat \<Rightarrow> bool" where
  "cache_id_char c \<longleftrightarrow> is_ascii_alphanumeric c \<or> c = 95 \<or> c = 45 \<or> c = 46"

fun cache_ids_ok :: "ustr list \<Rightarrow> ustr list \<Rightarrow> ustr list \<Rightarrow> bool" where
  "cache_ids_ok known [] seen = True"
| "cache_ids_ok known (i # ids) seen =
     (if i = [] \<or> str_len i > 256 \<or> \<not> list_all cache_id_char i \<or> i \<notin> set known \<or> i \<in> set seen
      then False else cache_ids_ok known ids (i # seen))"

fun check_edit :: "validation_env \<Rightarrow> edit \<Rightarrow> nat list \<Rightarrow> nat list rresult" where
  "check_edit v (Elide targets stub per_item) seen =
     (if elision_shape_bad targets stub per_item then Inl ''invalid elision bounds or stub template''
      else claim_lines v targets seen)"
| "check_edit v (InjectDigest d) seen =
     (case digest_bytes (digest_strings d) 0 of
        None \<Rightarrow> Inl ''invalid digest bounds''
      | Some n \<Rightarrow>
          if covers_items d = 0 \<or> covers_items d > length (items (v_transcript v)) \<or>
             n > MAX_DIGEST_BYTES
          then Inl ''invalid digest bounds'' else Inr seen)"
| "check_edit v (ProviderCompact control) seen =
     (if v_edit_count v \<noteq> 1 \<or> control = [] \<or> str_len control > 256 \<or> list_ex is_control control
      then Inl ''invalid provider control'' else Inr seen)"
| "check_edit v (CacheEdit ids) seen =
     (if v_edit_count v \<noteq> 1 \<or> provider (session (v_transcript v)) \<noteq> ClaudeCode \<or> ids = [] \<or>
         length ids > MAX_ITEMS
      then Inl ''invalid cache edit''
      else if cache_ids_ok (v_tool_ids v) ids [] then Inr seen
      else Inl ''invalid cache edit tool_use_id'')"

fun check_edits ::
  "validation_env \<Rightarrow> edit list \<Rightarrow> edit_admission \<Rightarrow> nat list \<Rightarrow> unit rresult" where
  "check_edits v [] composition seen = Inr ()"
| "check_edits v (e # es) composition seen =
     (case admit (edit_class_of e) composition of
        (Inl m, _) \<Rightarrow> Inl m
      | (Inr _, composition') \<Rightarrow>
          (case check_edit v e seen of
             Inl m \<Rightarrow> Inl m
           | Inr seen' \<Rightarrow> check_edits v es composition' seen'))"

definition validate_edits :: "transcript \<Rightarrow> policy_config \<Rightarrow> edit list \<Rightarrow> unit rresult" where
  "validate_edits t p es =
     (if \<not> plan_bounds (length es) (length (items t)) then Inl ''plan exceeds item limits''
      else
        let v = validation_env_of t p es in
        if \<not> strictly_increasing (v_indexes v) then Inl ''ambiguous transcript indexes''
        else check_edits v es default_admission [])"

section \<open>What acceptance means\<close>

text \<open>A line an elision may target: it names a live item with a payload outside the protected
  newest outputs.\<close>

definition elision_target :: "transcript \<Rightarrow> nat \<Rightarrow> nat \<Rightarrow> bool" where
  "elision_target t keep l \<longleftrightarrow>
     (\<exists>i \<in> set (items t). line_index i = l \<and> is_elidable i) \<and> l \<notin> set (protected_lines t keep)"

fun elided_lines :: "edit \<Rightarrow> nat list" where
  "elided_lines (Elide targets _ _) = targets"
| "elided_lines _ = []"

fun edit_ok :: "transcript \<Rightarrow> nat \<Rightarrow> edit \<Rightarrow> bool" where
  "edit_ok t keep (Elide targets stub per_item) \<longleftrightarrow>
     \<not> elision_shape_bad targets stub per_item \<and> list_all (elision_target t keep) targets"
| "edit_ok t keep (InjectDigest d) \<longleftrightarrow>
     0 < covers_items d \<and> covers_items d \<le> length (items t) \<and>
     sum_list (map str_len (digest_strings d)) \<le> MAX_DIGEST_BYTES"
| "edit_ok t keep (ProviderCompact control) \<longleftrightarrow>
     control \<noteq> [] \<and> str_len control \<le> 256 \<and> \<not> list_ex is_control control"
| "edit_ok t keep (CacheEdit ids) \<longleftrightarrow>
     provider (session t) = ClaudeCode \<and> ids \<noteq> [] \<and> length ids \<le> MAX_ITEMS \<and> distinct ids \<and>
     list_all (\<lambda>i. i \<noteq> [] \<and> str_len i \<le> 256 \<and> list_all cache_id_char i \<and>
       i \<in> set (known_tool_use_ids t)) ids"

definition plan_admissible :: "transcript \<Rightarrow> nat \<Rightarrow> edit list \<Rightarrow> bool" where
  "plan_admissible t keep es \<longleftrightarrow>
     length (items t) \<le> MAX_ITEMS \<and> distinct_lines t \<and> composition_ok (map edit_class_of es) \<and>
     list_all (edit_ok t keep) es \<and> distinct (concat (map elided_lines es))"

lemma composition_ok_length: "composition_ok cs \<Longrightarrow> length cs \<le> MAX_EDITS"
  by (auto simp: composition_ok_def MAX_EDITS_def)

lemma composition_control_alone:
  "composition_ok cs \<Longrightarrow> c \<in> set cs \<Longrightarrow> is_control_class c \<Longrightarrow> length cs = 1"
  by (auto simp: composition_ok_def list_all_iff)

lemma sorted_lines_increasing:
  "strictly_increasing (map line_index (sort_key line_index (items t))) \<longleftrightarrow> distinct_lines t"
  by (simp add: strictly_increasing_iff sorted_wrt_less_iff_distinct_sorted distinct_lines_def
      distinct_map)

lemma digest_bytes_Some:
  "digest_bytes ss n = Some m \<longleftrightarrow>
     m = n + sum_list (map str_len ss) \<and> (ss = [] \<or> m \<le> MAX_DIGEST_BYTES)"
proof (induction ss arbitrary: n)
  case Nil
  then show ?case by auto
next
  case (Cons s ss)
  show ?case
  proof (cases "n + str_len s \<le> MAX_DIGEST_BYTES")
    case True
    then have "add_digest_bytes n (str_len s) = Some (n + str_len s)"
      by (simp add: add_digest_bytes_Some)
    then show ?thesis using Cons.IH [of "n + str_len s"] True by (cases ss) auto
  next
    case False
    then have "add_digest_bytes n (str_len s) = None"
      using add_digest_bytes_Some [of n "str_len s"] by (cases "add_digest_bytes n (str_len s)") auto
    then show ?thesis using False by auto
  qed
qed

lemma cache_ids_ok_iff:
  "cache_ids_ok known ids seen \<longleftrightarrow>
     distinct ids \<and> set ids \<inter> set seen = {} \<and>
     list_all (\<lambda>i. i \<noteq> [] \<and> str_len i \<le> 256 \<and> list_all cache_id_char i \<and> i \<in> set known) ids"
  by (induction ids arbitrary: seen) auto

lemma env_simps [simp]:
  "v_transcript (validation_env_of t p es) = t"
  "v_edit_count (validation_env_of t p es) = length es"
  "v_tool_ids (validation_env_of t p es) = known_tool_use_ids t"
  "v_protected (validation_env_of t p es) = protected_lines t (keep_recent_tool_outputs p)"
  "v_indexes (validation_env_of t p es) = map line_index (sort_key line_index (items t))"
  "v_items (validation_env_of t p es) = sort_key line_index (items t)"
  by (simp_all add: validation_env_of_def Let_def)

lemma claim_lines_iff:
  fixes t p es
  defines "v \<equiv> validation_env_of t p es"
  assumes "distinct_lines t"
  shows "claim_lines v ls seen = Inr seen' \<longleftrightarrow>
     seen' = rev ls @ seen \<and> distinct ls \<and> set ls \<inter> set seen = {} \<and>
     list_all (elision_target t (keep_recent_tool_outputs p)) ls"
proof (induction ls arbitrary: seen)
  case Nil
  then show ?case by auto
next
  case (Cons l ls)
  have inc: "sorted_wrt (<) (v_indexes v)"
    using assms sorted_lines_increasing by (simp add: v_def flip: strictly_increasing_iff)
  have elem: "set (v_items v) = set (items t)" by (simp add: v_def)
  show ?case
  proof (cases "find_index (v_indexes v) l")
    case None
    then have "l \<notin> line_index ` set (items t)" using find_index_None [OF inc, of l] by (simp add: v_def)
    then show ?thesis using None by (auto simp: elision_target_def)
  next
    case (Some position)
    then have pos: "position < length (v_items v)" "line_index (v_items v ! position) = l"
      using find_index_Some [OF inc, of l position] by (auto simp: v_def)
    then have mem: "v_items v ! position \<in> set (items t)" using nth_mem elem by blast
    have uniq: "i = v_items v ! position" if "i \<in> set (items t)" "line_index i = l" for i
      using that mem pos(2) assms(2) by (metis distinct_lines_def distinct_map inj_onD)
    have "(\<exists>i \<in> set (items t). line_index i = l \<and> is_elidable i) \<longleftrightarrow> is_elidable (v_items v ! position)"
      using mem pos(2) uniq by blast
    then have target: "elision_target t (keep_recent_tool_outputs p) l \<longleftrightarrow>
        target_allowed (est_tokens (v_items v ! position)) (elidable_bytes (v_items v ! position))
          (l \<in> set (v_protected v))"
      by (simp add: elision_target_def target_allowed_def is_elidable_def v_def)
    show ?thesis using Some Cons.IH [of "l # seen"] target by (auto simp: Let_def)
  qed
qed

lemma check_edit_iff:
  assumes "distinct_lines t" "composition_ok (map edit_class_of es)" "e \<in> set es"
  shows "check_edit (validation_env_of t p es) e seen = Inr seen' \<longleftrightarrow>
     seen' = rev (elided_lines e) @ seen \<and> edit_ok t (keep_recent_tool_outputs p) e \<and>
     distinct (elided_lines e) \<and> set (elided_lines e) \<inter> set seen = {}"
proof (cases e)
  case (Elide targets stub per_item)
  then show ?thesis using claim_lines_iff [OF assms(1), of p es targets seen seen'] by auto
next
  case (InjectDigest d)
  show ?thesis
  proof (cases "digest_bytes (digest_strings d) 0")
    case None
    then have "\<not> sum_list (map str_len (digest_strings d)) \<le> MAX_DIGEST_BYTES"
      using digest_bytes_Some [of "digest_strings d" 0] by (metis add_0 option.distinct(1))
    then show ?thesis using None InjectDigest by simp
  next
    case (Some n)
    then show ?thesis using InjectDigest digest_bytes_Some [of "digest_strings d" 0 n]
      by (auto split: if_splits)
  qed
next
  case (ProviderCompact control)
  then have "length es = 1" using composition_control_alone [OF assms(2), of Provider_control] assms(3)
    by (force simp: is_control_class_def)
  then show ?thesis using ProviderCompact by auto
next
  case (CacheEdit ids)
  then have "length es = 1" using composition_control_alone [OF assms(2), of Cache_control] assms(3)
    by (force simp: is_control_class_def)
  then show ?thesis using CacheEdit by (auto simp: cache_ids_ok_iff)
qed

lemma check_edits_iff:
  assumes "distinct_lines t" "composition_ok (map edit_class_of all)" "set es \<subseteq> set all"
  shows "check_edits (validation_env_of t p all) es composition seen = Inr () \<longleftrightarrow>
     fst (admit_all (map edit_class_of es) composition) = Inr () \<and>
     list_all (edit_ok t (keep_recent_tool_outputs p)) es \<and>
     distinct (concat (map elided_lines es)) \<and> set (concat (map elided_lines es)) \<inter> set seen = {}"
  using assms(3)
proof (induction es arbitrary: composition seen)
  case Nil
  then show ?case by simp
next
  case (Cons e es)
  let ?v = "validation_env_of t p all"
  note edit = check_edit_iff [OF assms(1,2), of e p seen]
  obtain r composition' where adm: "admit (edit_class_of e) composition = (r, composition')"
    by (rule prod.exhaust)
  show ?case
  proof (cases r)
    case (Inl m)
    then show ?thesis using adm by simp
  next
    case (Inr u)
    show ?thesis
    proof (cases "check_edit ?v e seen")
      case Inl': (Inl m)
      then have "\<not> (edit_ok t (keep_recent_tool_outputs p) e \<and>
        distinct (elided_lines e) \<and> set (elided_lines e) \<inter> set seen = {})"
        using edit [of "rev (elided_lines e) @ seen"] Cons.prems by simp
      then show ?thesis using adm Inr Inl' by auto
    next
      case seen': (Inr seen')
      then have "seen' = rev (elided_lines e) @ seen" "edit_ok t (keep_recent_tool_outputs p) e"
        "distinct (elided_lines e)" "set (elided_lines e) \<inter> set seen = {}"
        using edit [of seen'] Cons.prems by simp_all
      then show ?thesis using adm Inr seen' Cons.IH [of composition' seen'] Cons.prems by auto
    qed
  qed
qed

lemma check_edits_composition:
  "check_edits v es composition seen = Inr () \<Longrightarrow>
     fst (admit_all (map edit_class_of es) composition) = Inr ()"
  by (induction es arbitrary: composition seen) (auto split: prod.splits sum.splits)

lemma validate_edits_iff:
  "validate_edits t p es = Inr () \<longleftrightarrow> plan_admissible t (keep_recent_tool_outputs p) es"
proof (cases "distinct_lines t \<and> composition_ok (map edit_class_of es)")
  case True
  then show ?thesis
    using check_edits_iff [of t es es p default_admission "[]"]
      composition_ok_length [of "map edit_class_of es"]
    by (auto simp: validate_edits_def plan_bounds_def plan_admissible_def sorted_lines_increasing
        admit_all_default)
next
  case False
  then show ?thesis
    using check_edits_composition [of "validation_env_of t p es" es default_admission "[]"]
    by (auto simp: validate_edits_def plan_admissible_def sorted_lines_increasing admit_all_default
        split: if_splits)
qed

text \<open>C1: The validator accepts a plan exactly when, without any running state: the transcript is
  within its item limit and its lines identify the items; the plan is one control edit alone or
  up to 64 elisions and digests with at most one digest; every elision is well shaped and targets
  only live payloads outside the protected newest outputs; no line is elided twice, within or
  across edits; the digest fits its byte and coverage bounds; and cache edits name distinct known
  tool calls of a Claude session.\<close>

theorem validate_edits_accepts_exactly_admissible:
  "validate_edits t p es = Inr () \<longleftrightarrow>
     length (items t) \<le> MAX_ITEMS \<and> distinct_lines t \<and> composition_ok (map edit_class_of es) \<and>
     list_all (edit_ok t (keep_recent_tool_outputs p)) es \<and> distinct (concat (map elided_lines es))"
  by (simp only: validate_edits_iff plan_admissible_def)

section \<open>Plans the strategies build\<close>

text \<open>A single elision with the shared stub and no per-record text.\<close>

lemma single_elide_admissible:
  assumes "length (items t) \<le> MAX_ITEMS" "distinct_lines t" "length ls \<le> MAX_ITEMS" "distinct ls"
    and "list_all (elision_target t keep) ls"
    and "str_len stub \<le> 96" "\<not> contains_str stub (lit ''{kind}'')" "\<not> has_line_break stub"
  shows "plan_admissible t keep [Elide ls stub []]"
  using assms
  by (simp add: plan_admissible_def composition_ok_def is_control_class_def elision_shape_bad_def
      MAX_EDITS_def)

lemma elide_digest_admissible:
  assumes "length (items t) \<le> MAX_ITEMS" "distinct_lines t" "length ls \<le> MAX_ITEMS" "distinct ls"
    and "list_all (elision_target t keep) ls"
    and "str_len stub \<le> 96" "\<not> contains_str stub (lit ''{kind}'')" "\<not> has_line_break stub"
    and "edit_ok t keep (InjectDigest d)"
  shows "plan_admissible t keep [InjectDigest d, Elide ls stub []]"
    "plan_admissible t keep [Elide ls stub [], InjectDigest d]"
  using assms
  by (simp_all add: plan_admissible_def composition_ok_def is_control_class_def elision_shape_bad_def
      MAX_EDITS_def)

end
