(* ===== verification/StateCard.thy ===== *)
theory StateCard
  imports Plan "HOL-Library.List_Lexorder" "HOL-Library.Multiset"
begin

text \<open>
  The state card of \<open>crates/gobstopper-core/src/strategy/mod.rs\<close>: \<open>state_card_digest\<close>, which sorts
  the metadata of the elided items into the fields of a digest, and \<open>choose_with_digest\<close>, which
  picks how many candidates to elide while the digest's own size moves the target. Unicode lower
  casing is the argument \<open>lc\<close> of the functions that use it. Hash sets and maps are lists whose
  order the source never observes: the one it does observe, the concepts, it sorts.
\<close>

section \<open>Markers\<close>

definition error_markers :: "ustr list" where
  "error_markers = map lit [''error'', ''failed'', ''failure'', ''panic'', ''exception'', ''traceback'',
     ''enoent'', ''eacces'', ''non-zero'', ''nonzero'', ''exit code'', ''stderr:'', ''command failed'',
     ''permission denied'', ''no such file'', ''not found'', ''timed out'', ''killed'', ''abort'']"

definition is_error_marker :: "(ustr \<Rightarrow> ustr) \<Rightarrow> ustr \<Rightarrow> bool" where
  "is_error_marker lc text = list_ex (contains_str (lc text)) error_markers"

definition open_task_markers :: "ustr list" where
  "open_task_markers = map lit [''todo'', ''fixme'', ''pending'', ''open:'', ''follow up'', ''follow-up'']"

definition is_open_task_marker :: "(ustr \<Rightarrow> ustr) \<Rightarrow> ustr \<Rightarrow> bool" where
  "is_open_task_marker lc text = list_ex (contains_str (lc text)) open_task_markers"

section \<open>The digest of the chosen items\<close>

definition STATE_CARD_RESERVE_TOKENS :: u64 where "STATE_CARD_RESERVE_TOKENS = 4096"

definition CARD_MAX :: nat where "CARD_MAX = 8"

text \<open>The tool name of a label: everything before the first parenthesis or blank.\<close>

definition tool_name :: "ustr \<Rightarrow> ustr" where
  "tool_name s = takeWhile (\<lambda>c. c \<noteq> 40 \<and> c \<noteq> 32) s"

definition item_text :: "transcript_item \<Rightarrow> ustr" where
  "item_text item = (case summary item of Some s \<Rightarrow> s | None \<Rightarrow> label item)"

record card_buckets =
  cb_concepts :: "ustr list"
  cb_files :: "ustr list"
  cb_decisions :: "ustr list"
  cb_errors :: "ustr list"
  cb_open_tasks :: "ustr list"

definition empty_buckets :: card_buckets where
  "empty_buckets = \<lparr>cb_concepts = [], cb_files = [], cb_decisions = [], cb_errors = [],
     cb_open_tasks = []\<rparr>"

definition bucket_item :: "(ustr \<Rightarrow> ustr) \<Rightarrow> transcript_item \<Rightarrow> card_buckets \<Rightarrow> card_buckets" where
  "bucket_item lc item b =
     (let tool = tool_name (label item);
          b = (if tool \<noteq> [] then b\<lparr>cb_concepts := List.insert (lc tool) (cb_concepts b)\<rparr> else b);
          text = item_text item
      in if is_error_marker lc text then b\<lparr>cb_errors := cb_errors b @ [text]\<rparr>
         else if is_open_task_marker lc text then b\<lparr>cb_open_tasks := cb_open_tasks b @ [text]\<rparr>
         else if 47 \<in> set text \<or> kind item = ToolResult then b\<lparr>cb_files := cb_files b @ [text]\<rparr>
         else b\<lparr>cb_decisions := cb_decisions b @ [text]\<rparr>)"

text \<open>The map from lines to items keeps the last item of a line.\<close>

definition item_by_line :: "transcript \<Rightarrow> nat \<Rightarrow> transcript_item option" where
  "item_by_line t l = find (\<lambda>i. line_index i = l) (rev (items t))"

definition fill_buckets :: "(ustr \<Rightarrow> ustr) \<Rightarrow> transcript \<Rightarrow> nat list \<Rightarrow> card_buckets" where
  "fill_buckets lc t chosen =
     fold (\<lambda>l b. case item_by_line t l of Some item \<Rightarrow> bucket_item lc item b | None \<Rightarrow> b)
       chosen empty_buckets"

definition is_goal_item :: "transcript_item \<Rightarrow> bool" where
  "is_goal_item i \<longleftrightarrow> kind i = User \<and>
     (case summary i of
        None \<Rightarrow> False
      | Some s \<Rightarrow> \<not> starts_with s [60] \<and> \<not> starts_with s (lit ''[gobstopper state card]''))"

definition card_goal :: "transcript \<Rightarrow> ustr option" where
  "card_goal t = Option.bind (find is_goal_item (rev (items t))) summary"

text \<open>\<open>String::truncate\<close> at the last character boundary not after byte \<open>n\<close>.\<close>

fun floor_prefix :: "nat \<Rightarrow> ustr \<Rightarrow> ustr" where
  "floor_prefix n [] = []"
| "floor_prefix n (c # cs) =
     (if utf8_len c \<le> n then c # floor_prefix (n - utf8_len c) cs else [])"

definition card_summary :: "ustr option \<Rightarrow> nat \<Rightarrow> ustr" where
  "card_summary g n =
     (case g of
        Some text \<Rightarrow>
          let s = trim text in
          if str_len s > 120 then floor_prefix 117 s @ lit ''...'' else s
      | None \<Rightarrow> lit ''gobstopper state card covering '' @ dec n @ lit '' elided items'')"

definition card_current_work :: "transcript \<Rightarrow> ustr option" where
  "card_current_work t =
     (case Option.bind (find (\<lambda>i. kind i = Assistant) (rev (items t))) summary of
        Some s \<Rightarrow> if starts_with s (lit ''[gobstopper state card]'') then None else Some s
      | None \<Rightarrow> None)"

definition state_card_digest :: "(ustr \<Rightarrow> ustr) \<Rightarrow> transcript \<Rightarrow> nat list \<Rightarrow> digest_block" where
  "state_card_digest lc t chosen =
     (let b = fill_buckets lc t chosen in
      \<lparr>goal = card_goal t,
       d_summary = Some (card_summary (card_goal t) (length chosen)),
       concepts = take CARD_MAX (sort (cb_concepts b)),
       files_touched = take CARD_MAX (cb_files b),
       decisions = take CARD_MAX (cb_decisions b),
       errors = take CARD_MAX (cb_errors b),
       open_tasks = take CARD_MAX (cb_open_tasks b),
       current_work = card_current_work t,
       d_context = Some (lit ''provider: '' @ provider_as_str (provider (session t))),
       covers_items = length chosen\<rparr>)"

section \<open>Choosing what to elide under a moving target\<close>

text \<open>Elide candidates in order while the projection is over the target; returns what was chosen,
  the projection, and the candidates left.\<close>

fun push_items ::
  "u64 \<Rightarrow> transcript_item list \<Rightarrow> u64 \<Rightarrow> nat list \<Rightarrow> nat list \<times> u64 \<times> transcript_item list" where
  "push_items target [] projected chosen = (chosen, projected, [])"
| "push_items target (i # is) projected chosen =
     (if projected > target
      then push_items target is (sat_sub projected (estimated_elision_savings i)) (chosen @ [line_index i])
      else (chosen, projected, i # is))"

lemma push_items_prefix:
  "push_items target cs projected chosen = (chosen', projected', rest) \<Longrightarrow>
     \<exists>k. k \<le> length cs \<and> rest = drop k cs \<and> chosen' = chosen @ map line_index (take k cs) \<and>
       projected' = fold (\<lambda>i acc. sat_sub acc (estimated_elision_savings i)) (take k cs) projected \<and>
       (k = length cs \<or> projected' \<le> target) \<and>
       (\<forall>j < k. target < fold (\<lambda>i acc. sat_sub acc (estimated_elision_savings i)) (take j cs) projected)"
proof (induction target cs projected chosen rule: push_items.induct)
  case (1 target projected chosen)
  then show ?case by simp
next
  case (2 target i cs projected chosen)
  show ?case
  proof (cases "projected > target")
    case True
    with 2 obtain k where k: "k \<le> length cs" "rest = drop k cs"
      "chosen' = chosen @ [line_index i] @ map line_index (take k cs)"
      "projected' = fold (\<lambda>i acc. sat_sub acc (estimated_elision_savings i)) (take k cs)
         (sat_sub projected (estimated_elision_savings i))"
      "k = length cs \<or> projected' \<le> target"
      "\<forall>j < k. target < fold (\<lambda>i acc. sat_sub acc (estimated_elision_savings i)) (take j cs)
         (sat_sub projected (estimated_elision_savings i))" by auto
    have "\<forall>j < Suc k. target <
        fold (\<lambda>i acc. sat_sub acc (estimated_elision_savings i)) (take j (i # cs)) projected"
      using k(6) True by (auto simp: less_Suc_eq_0_disj)
    then show ?thesis using k by (intro exI [of _ "Suc k"]) auto
  next
    case False
    then show ?thesis using 2 by (intro exI [of _ 0]) auto
  qed
qed

lemma push_items_length: "push_items target cs p ch = (ch', p', rest) \<Longrightarrow> length rest \<le> length cs"
  by (drule push_items_prefix) auto

function digest_loop ::
  "(ustr \<Rightarrow> ustr) \<Rightarrow> transcript \<Rightarrow> u64 \<Rightarrow> nat list \<Rightarrow> u64 \<Rightarrow> transcript_item list \<Rightarrow>
     nat list \<times> digest_block \<times> u64" where
  "digest_loop lc t flr chosen projected rest =
     (let chosen = sort chosen;
          digest = state_card_digest lc t chosen;
          overhead = estimate_overhead digest;
          after = sat_add projected overhead
      in if after \<le> flr \<or> rest = [] then (chosen, digest, after)
         else
           case push_items (sat_sub flr overhead) rest projected chosen of (chosen', projected', rest') \<Rightarrow>
             if length rest' < length rest then digest_loop lc t flr chosen' projected' rest'
             else (chosen, digest, after))"
  by pat_completeness auto
termination
  by (relation "measure (\<lambda>(lc, t, flr, chosen, projected, rest). length rest)")
    (auto split: prod.splits)

declare digest_loop.simps [simp del]

definition choose_with_digest ::
  "(ustr \<Rightarrow> ustr) \<Rightarrow> transcript \<Rightarrow> u64 \<Rightarrow> transcript_item list \<Rightarrow> (nat list \<times> digest_block \<times> u64) option" where
  "choose_with_digest lc t flr candidates =
     (case push_items flr candidates (context_tokens t) [] of (chosen, projected, rest) \<Rightarrow>
        if chosen = [] then None else Some (digest_loop lc t flr chosen projected rest))"


section \<open>What was chosen\<close>

definition spent :: "transcript_item list \<Rightarrow> u64 \<Rightarrow> nat \<Rightarrow> u64" where
  "spent candidates start k =
     fold (\<lambda>i acc. sat_sub acc (estimated_elision_savings i)) (take k candidates) start"

lemma spent_0 [simp]: "spent cs a 0 = a"
  by (simp add: spent_def)

lemma spent_drop: "spent (drop k cs) (spent cs a k) j = spent cs a (k + j)"
  by (simp add: spent_def take_add)

text \<open>The running subtraction is the saturated difference with the exact total.\<close>

lemma unat_spent:
  "unat (spent cs a k) = unat a - (\<Sum>i\<leftarrow>take k cs. unat (estimated_elision_savings i))"
proof (induction k)
  case (Suc k)
  then show ?case
    by (cases "k < length cs") (auto simp: spent_def take_Suc_conv_app_nth word_arith_simps)
qed simp

text \<open>The outcome of \<open>choose_with_digest\<close>: a prefix of the candidates, in line order.\<close>

definition digest_outcome ::
  "(ustr \<Rightarrow> ustr) \<Rightarrow> transcript \<Rightarrow> transcript_item list \<Rightarrow> nat \<Rightarrow> nat list \<times> digest_block \<times> u64" where
  "digest_outcome lc t cs k =
     (let chosen = sort (map line_index (take k cs));
          digest = state_card_digest lc t chosen
      in (chosen, digest, sat_add (spent cs (context_tokens t) k) (estimate_overhead digest)))"

lemma not_pushed:
  fixes projected flr overhead :: u64
  assumes "projected \<le> sat_sub flr overhead" "\<not> sat_add projected overhead \<le> flr"
  shows "projected = 0 \<and> flr < overhead"
proof -
  have "unat projected \<le> unat flr - unat overhead" using assms(1)
    by (simp add: word_le_nat_alt word_arith_simps)
  moreover have "unat flr < unat (sat_add projected overhead)" using assms(2)
    by (simp add: word_le_nat_alt)
  moreover have "unat (sat_add projected overhead) \<le> unat projected + unat overhead"
    by (simp add: word_arith_simps)
  ultimately have "unat projected = 0" "unat flr < unat overhead" by linarith+
  then show ?thesis by (simp add: word_less_nat_alt unat_eq_zero)
qed

lemma digest_loop_outcome:
  assumes "mset chosen = mset (map line_index (take k cs))" "k \<le> length cs"
    and "projected = spent cs (context_tokens t) k" "rest = drop k cs"
  shows "\<exists>m. k \<le> m \<and> m \<le> length cs \<and> digest_loop lc t flr chosen projected rest = digest_outcome lc t cs m \<and>
    (snd (snd (digest_outcome lc t cs m)) \<le> flr \<or> m = length cs \<or>
     (spent cs (context_tokens t) m = 0 \<and> flr < estimate_overhead (fst (snd (digest_outcome lc t cs m)))))"
  using assms
proof (induction lc t flr chosen projected rest arbitrary: k rule: digest_loop.induct)
  case (1 lc t flr chosen projected rest)
  have chosen: "sort chosen = sort (map line_index (take k cs))"
    using "1.prems"(1) by (metis properties_for_sort mset_sort sorted_sort)
  let ?digest = "state_card_digest lc t (sort chosen)"
  let ?overhead = "estimate_overhead ?digest"
  let ?after = "sat_add projected ?overhead"
  have out: "(sort chosen, ?digest, ?after) = digest_outcome lc t cs k"
    using chosen 1(4) by (simp add: digest_outcome_def Let_def)
  obtain chosen' projected' rest' where push:
    "push_items (sat_sub flr ?overhead) rest projected (sort chosen) = (chosen', projected', rest')"
    by (metis prod_cases3)
  from push_items_prefix [OF this] obtain j where j: "j \<le> length rest" "rest' = drop j rest"
    "chosen' = sort chosen @ map line_index (take j rest)"
    "projected' = spent rest projected j" "j = length rest \<or> projected' \<le> sat_sub flr ?overhead"
    by (auto simp: spent_def)
  consider "?after \<le> flr \<or> rest = []" | "\<not> ?after \<le> flr" "rest \<noteq> []" "length rest' < length rest"
    | "\<not> ?after \<le> flr" "rest \<noteq> []" "\<not> length rest' < length rest" by blast
  then show ?case
  proof cases
    case 1
    then have "digest_loop lc t flr chosen projected rest = digest_outcome lc t cs k"
      unfolding out [symmetric] by (subst digest_loop.simps) (auto simp: Let_def)
    moreover have "snd (snd (digest_outcome lc t cs k)) \<le> flr \<or> k = length cs"
      unfolding out [symmetric] using 1 "1.prems" by auto
    ultimately show ?thesis using "1.prems"(2) by blast
  next
    case 2
    have eq: "digest_loop lc t flr chosen projected rest = digest_loop lc t flr chosen' projected' rest'"
      using 2 push by (subst digest_loop.simps) (simp add: Let_def)
    have kj: "k + j \<le> length cs" using j(1) "1.prems"(2,4) by simp
    have "mset chosen' = mset (map line_index (take (k + j) cs))"
      using j(3) "1.prems"(1,4) by (simp add: take_add)
    moreover have "projected' = spent cs (context_tokens t) (k + j)"
      using j(4) "1.prems"(3,4) by (simp add: spent_drop)
    moreover have "rest' = drop (k + j) cs" using j(2) "1.prems"(4) by (simp add: add.commute)
    ultimately have "\<exists>m. k + j \<le> m \<and> m \<le> length cs \<and>
      digest_loop lc t flr chosen' projected' rest' = digest_outcome lc t cs m \<and>
      (snd (snd (digest_outcome lc t cs m)) \<le> flr \<or> m = length cs \<or>
       (spent cs (context_tokens t) m = 0 \<and> flr < estimate_overhead (fst (snd (digest_outcome lc t cs m)))))"
      using kj 2 push by (intro "1.IH" [OF refl refl refl refl, of chosen' "(projected', rest')"]) simp_all
    then obtain m where "k + j \<le> m" "m \<le> length cs"
      "digest_loop lc t flr chosen' projected' rest' = digest_outcome lc t cs m"
      "snd (snd (digest_outcome lc t cs m)) \<le> flr \<or> m = length cs \<or>
       (spent cs (context_tokens t) m = 0 \<and> flr < estimate_overhead (fst (snd (digest_outcome lc t cs m))))"
      by blast
    then show ?thesis using eq by (intro exI [of _ m]) simp
  next
    case 3
    then have "j = 0" using j(1,2) by (cases rest) auto
    then have "projected \<le> sat_sub flr ?overhead" using j(4,5) 3(2) by simp
    from not_pushed [OF this 3(1)] have "projected = 0" "flr < ?overhead" by blast+
    moreover have "digest_loop lc t flr chosen projected rest = digest_outcome lc t cs k"
      unfolding out [symmetric] using 3 push by (subst digest_loop.simps) (simp add: Let_def)
    ultimately show ?thesis using "1.prems"(2,3)
      by (intro exI [of _ k]) (simp flip: out)
  qed
qed

text \<open>C17: Choosing under a moving target is total and correct: it declines exactly when the context
  is already at the floor or there is nothing to elide; otherwise it elides a nonempty prefix of
  the candidates in their priority order, listed in line order, the digest is the state card of
  exactly those lines, the reported size is what is left plus the digest, and it stops at or
  under the floor unless every candidate is used or the card alone exceeds the floor.\<close>

theorem choose_with_digest_correct:
  "case choose_with_digest lc t flr cs of
     None \<Rightarrow> context_tokens t \<le> flr \<or> cs = []
   | Some (chosen, digest, after) \<Rightarrow>
       flr < context_tokens t \<and> digest = state_card_digest lc t chosen \<and>
       (\<exists>k. 0 < k \<and> k \<le> length cs \<and> chosen = sort (map line_index (take k cs)) \<and>
          after = sat_add (spent cs (context_tokens t) k) (estimate_overhead digest) \<and>
          (after \<le> flr \<or> k = length cs \<or>
           (spent cs (context_tokens t) k = 0 \<and> flr < estimate_overhead digest)))"
proof -
  obtain chosen projected rest where push:
    "push_items flr cs (context_tokens t) [] = (chosen, projected, rest)" by (metis prod_cases3)
  from push_items_prefix [OF this] obtain k where k: "k \<le> length cs" "rest = drop k cs"
    "chosen = map line_index (take k cs)" "projected = spent cs (context_tokens t) k"
    "k = length cs \<or> projected \<le> flr" "\<forall>j < k. flr < spent cs (context_tokens t) j"
    by (auto simp: spent_def)
  show ?thesis
  proof (cases "k = 0")
    case True
    then show ?thesis using k push by (auto simp: choose_with_digest_def)
  next
    case False
    then have "chosen \<noteq> []" using k(1,3) by auto
    then have c: "choose_with_digest lc t flr cs = Some (digest_loop lc t flr chosen projected rest)"
      by (simp add: choose_with_digest_def push)
    have "flr < context_tokens t" using k(6) False by auto
    moreover obtain m where "k \<le> m" "m \<le> length cs"
      "digest_loop lc t flr chosen projected rest = digest_outcome lc t cs m"
      "snd (snd (digest_outcome lc t cs m)) \<le> flr \<or> m = length cs \<or>
       (spent cs (context_tokens t) m = 0 \<and> flr < estimate_overhead (fst (snd (digest_outcome lc t cs m))))"
      using digest_loop_outcome [of chosen k cs projected t rest lc flr] k by auto
    ultimately show ?thesis unfolding c using False
      by (auto simp: digest_outcome_def Let_def intro!: exI [of _ m])
  qed
qed

lemma choose_with_digest_SomeE:
  assumes "choose_with_digest lc t flr cs = Some (chosen, digest, after)"
  obtains k where "0 < k" "k \<le> length cs" "chosen = sort (map line_index (take k cs))"
    "digest = state_card_digest lc t chosen"
    "after = sat_add (spent cs (context_tokens t) k) (estimate_overhead digest)"
proof -
  obtain ch projected rest where push:
    "push_items flr cs (context_tokens t) [] = (ch, projected, rest)" by (metis prod_cases3)
  from push_items_prefix [OF this] obtain k where k: "k \<le> length cs" "rest = drop k cs"
    "ch = map line_index (take k cs)" "projected = spent cs (context_tokens t) k"
    by (auto simp: spent_def)
  have "ch \<noteq> []" and eq: "digest_loop lc t flr ch projected rest = (chosen, digest, after)"
    using assms push by (auto simp: choose_with_digest_def split: if_splits)
  then have "0 < k" using k by auto
  moreover obtain m where "k \<le> m" "m \<le> length cs"
      "digest_loop lc t flr ch projected rest = digest_outcome lc t cs m"
    using digest_loop_outcome [of ch k cs projected t rest lc flr] k by auto
  ultimately show thesis using that [of m] eq by (auto simp: digest_outcome_def Let_def)
qed

lemma choose_with_digest_over:
  "choose_with_digest lc t flr cs = Some r \<Longrightarrow> flr < context_tokens t"
  by (cases cs) (auto simp: choose_with_digest_def split: if_splits)

section \<open>What a card can hold\<close>

definition buckets_ok :: "(ustr \<Rightarrow> ustr) \<Rightarrow> (ustr \<Rightarrow> bool) \<Rightarrow> card_buckets \<Rightarrow> bool" where
  "buckets_ok lc P b \<longleftrightarrow>
     distinct (cb_concepts b) \<and>
     (\<forall>x \<in> set (cb_errors b). P x \<and> is_error_marker lc x) \<and>
     (\<forall>x \<in> set (cb_open_tasks b). P x \<and> is_open_task_marker lc x \<and> \<not> is_error_marker lc x) \<and>
     (\<forall>x \<in> set (cb_files b). P x \<and> \<not> is_error_marker lc x \<and> \<not> is_open_task_marker lc x) \<and>
     (\<forall>x \<in> set (cb_decisions b).
        P x \<and> \<not> is_error_marker lc x \<and> \<not> is_open_task_marker lc x \<and> 47 \<notin> set x)"

lemma bucket_item_ok:
  "buckets_ok lc P b \<Longrightarrow> P (item_text item) \<Longrightarrow> buckets_ok lc P (bucket_item lc item b)"
  by (auto simp: buckets_ok_def bucket_item_def Let_def)

lemma fill_buckets_ok:
  assumes "\<And>l item. l \<in> set chosen \<Longrightarrow> item_by_line t l = Some item \<Longrightarrow> P (item_text item)"
  shows "buckets_ok lc P (fill_buckets lc t chosen)"
proof -
  have "buckets_ok lc P b \<Longrightarrow> buckets_ok lc P
      (fold (\<lambda>l b. case item_by_line t l of Some item \<Rightarrow> bucket_item lc item b | None \<Rightarrow> b) chosen b)" for b
    using assms
  proof (induction chosen arbitrary: b)
    case (Cons l ls)
    have "buckets_ok lc P (case item_by_line t l of Some item \<Rightarrow> bucket_item lc item b | None \<Rightarrow> b)"
      using Cons.prems by (auto split: option.split intro: bucket_item_ok)
    from Cons.IH [OF this] show ?case using Cons.prems(2) by auto
  qed simp
  moreover have "buckets_ok lc P empty_buckets" by (simp add: buckets_ok_def empty_buckets_def)
  ultimately show ?thesis unfolding fill_buckets_def by blast
qed

lemma item_by_line_Some:
  "item_by_line t l = Some item \<Longrightarrow> item \<in> set (items t) \<and> line_index item = l"
  by (auto simp: item_by_line_def find_Some_iff in_set_conv_nth)
    (metis length_rev nth_mem set_rev in_set_conv_nth)

lemma str_len_floor_prefix: "str_len (floor_prefix n s) \<le> n"
  by (induction n s rule: floor_prefix.induct) (auto simp: str_len_def)

lemma floor_prefix_prefix: "\<exists>r. s = floor_prefix n s @ r"
  by (induction n s rule: floor_prefix.induct) auto

lemma card_summary_len: "str_len (card_summary (Some g) n) \<le> 120"
  using str_len_floor_prefix [of 117 "trim g"] by (auto simp: card_summary_def Let_def utf8_len_def)

lemma card_goal_Some:
  "card_goal t = Some g \<Longrightarrow>
     \<not> starts_with g [60] \<and> \<not> starts_with g (lit ''[gobstopper state card]'')"
  by (auto simp: card_goal_def bind_eq_Some_conv find_Some_iff is_goal_item_def)

lemma list_all_take: "(\<And>x. x \<in> set xs \<Longrightarrow> P x) \<Longrightarrow> list_all P (take n xs)"
  by (auto simp: list_all_iff dest: in_set_takeD)

text \<open>A state card is bounded and honest: every field holds at most eight entries; the concepts
  are sorted and distinct; every error, task, file and decision is the text of a chosen item and
  sits in the field its markers call for; the goal is a user text that is neither markup nor an
  earlier card; the summary of a goal is at most 120 bytes; and the card counts the chosen lines.\<close>

theorem state_card_bounded:
  fixes lc t chosen
  defines "d \<equiv> state_card_digest lc t chosen"
    and "of_chosen \<equiv> \<lambda>x. \<exists>i \<in> set (items t). line_index i \<in> set chosen \<and> item_text i = x"
  shows "covers_items d = length chosen \<and>
    list_all (\<lambda>f. length f \<le> 8) [concepts d, files_touched d, decisions d, errors d, open_tasks d] \<and>
    sorted (concepts d) \<and> distinct (concepts d) \<and>
    list_all (\<lambda>x. of_chosen x \<and> is_error_marker lc x) (errors d) \<and>
    list_all (\<lambda>x. of_chosen x \<and> is_open_task_marker lc x \<and> \<not> is_error_marker lc x) (open_tasks d) \<and>
    list_all (\<lambda>x. of_chosen x \<and> \<not> is_error_marker lc x \<and> \<not> is_open_task_marker lc x) (files_touched d) \<and>
    list_all (\<lambda>x. of_chosen x \<and> \<not> is_error_marker lc x \<and> \<not> is_open_task_marker lc x \<and> 47 \<notin> set x)
      (decisions d) \<and>
    (case goal d of
       None \<Rightarrow> True
     | Some g \<Rightarrow> \<not> starts_with g [60] \<and> \<not> starts_with g (lit ''[gobstopper state card]'') \<and>
         (\<exists>s. d_summary d = Some s \<and> str_len s \<le> 120))"
proof -
  have "buckets_ok lc of_chosen (fill_buckets lc t chosen)"
    by (rule fill_buckets_ok) (use item_by_line_Some in \<open>auto simp: of_chosen_def\<close>)
  note ok = this [unfolded buckets_ok_def]
  have g: "case goal d of
       None \<Rightarrow> True
     | Some g \<Rightarrow> \<not> starts_with g [60] \<and> \<not> starts_with g (lit ''[gobstopper state card]'') \<and>
         (\<exists>s. d_summary d = Some s \<and> str_len s \<le> 120)"
  proof (cases "card_goal t")
    case None
    then show ?thesis by (simp add: d_def state_card_digest_def Let_def)
  next
    case (Some g)
    then show ?thesis using card_goal_Some [OF Some] card_summary_len [of g]
      by (simp add: d_def state_card_digest_def Let_def)
  qed
  have "list_all (\<lambda>x. of_chosen x \<and> is_error_marker lc x) (errors d)"
    "list_all (\<lambda>x. of_chosen x \<and> is_open_task_marker lc x \<and> \<not> is_error_marker lc x) (open_tasks d)"
    "list_all (\<lambda>x. of_chosen x \<and> \<not> is_error_marker lc x \<and> \<not> is_open_task_marker lc x) (files_touched d)"
    "list_all (\<lambda>x. of_chosen x \<and> \<not> is_error_marker lc x \<and> \<not> is_open_task_marker lc x \<and> 47 \<notin> set x)
      (decisions d)"
    using ok by (auto simp: d_def state_card_digest_def Let_def intro!: list_all_take)
  moreover have "sorted (concepts d)" "distinct (concepts d)"
    using ok by (simp_all add: d_def state_card_digest_def Let_def sorted_wrt_take)
  ultimately show ?thesis using g by (simp add: d_def state_card_digest_def Let_def CARD_MAX_def)
qed

end
