(* ===== verification/Strategy.thy ===== *)
theory Strategy
  imports StateCard Validation
begin

text \<open>
  The strategy contract and the strategies that elide stale tool outputs by position
  (\<open>strategy/elide.rs\<close>, \<open>cache_aware.rs\<close>, \<open>compacted.rs\<close>, \<open>structured.rs\<close>) or delegate to the
  provider (\<open>sawtooth.rs\<close>). The trait \<open>Strategy\<close> is a locale over the evaluation function: its
  laws say when a plan is returned and that the validator admits it; what follows for a caller is
  proved once inside the locale and holds of every strategy that interprets it.
\<close>

section \<open>The contract\<close>

text \<open>A strategy fires only at or over the trigger and reports the context it started from.\<close>

locale strategy_contract =
  fixes evaluate :: "transcript \<Rightarrow> policy_config \<Rightarrow> compaction_plan option"
  assumes fires: "evaluate t p = Some plan \<Longrightarrow> effective_trigger p \<le> context_tokens t"
    and before: "evaluate t p = Some plan \<Longrightarrow> context_tokens_before plan = context_tokens t"
begin

lemma under_threshold: "context_tokens t < effective_trigger p \<Longrightarrow> evaluate t p = None"
  using fires by (cases "evaluate t p") (auto dest: leD)

lemma savings_bounded: "evaluate t p = Some plan \<Longrightarrow> est_savings plan \<le> context_tokens t"
  using before by (simp add: est_savings_def)

end

text \<open>What the validator requires beyond the strategy's own choices: identified lines, the item
  limit, well-formed tool call ids, and a digest text within its byte limit.\<close>

definition digest_fits :: "edit list \<Rightarrow> bool" where
  "digest_fits es \<longleftrightarrow>
     list_all (\<lambda>e. case e of
        InjectDigest d \<Rightarrow> sum_list (map str_len (digest_strings d)) \<le> MAX_DIGEST_BYTES
      | _ \<Rightarrow> True) es"

definition tool_ids_ok :: "transcript \<Rightarrow> bool" where
  "tool_ids_ok t \<longleftrightarrow>
     list_all (\<lambda>i. distinct (tool_use_ids i) \<and>
       list_all (\<lambda>u. u \<noteq> [] \<and> str_len u \<le> 256 \<and> list_all cache_id_char u) (tool_use_ids i)) (items t)"

definition plan_ready :: "transcript \<Rightarrow> edit list \<Rightarrow> bool" where
  "plan_ready t es \<longleftrightarrow> distinct_lines t \<and> length (items t) \<le> MAX_ITEMS \<and> tool_ids_ok t \<and> digest_fits es"

locale admissible_strategy = strategy_contract +
  assumes admissible:
    "evaluate t p = Some plan \<Longrightarrow> plan_ready t (edits plan) \<Longrightarrow>
       plan_admissible t (keep_recent_tool_outputs p) (edits plan)"
begin

lemma accepted:
  "evaluate t p = Some plan \<Longrightarrow> plan_ready t (edits plan) \<Longrightarrow> validate_edits t p (edits plan) = Inr ()"
  using admissible by (simp add: validate_edits_iff)

lemma spares_protected:
  assumes "evaluate t p = Some plan" "plan_ready t (edits plan)"
    and "l \<in> set (concat (map elided_lines (edits plan)))"
  shows "elision_target t (keep_recent_tool_outputs p) l"
proof -
  obtain e where e: "e \<in> set (edits plan)" "l \<in> set (elided_lines e)" using assms(3) by auto
  then have "edit_ok t (keep_recent_tool_outputs p) e"
    using admissible [OF assms(1,2)] by (simp add: plan_admissible_def list_all_iff)
  then show ?thesis using e(2) by (cases e) (auto simp: list_all_iff)
qed

end

section \<open>Candidates\<close>

definition elidable_items :: "transcript \<Rightarrow> transcript_item list" where
  "elidable_items t = filter is_elidable (items t)"

text \<open>The stale outputs: all elidable items but the newest \<open>keep_recent_tool_outputs\<close>.\<close>

definition stale_candidates :: "transcript \<Rightarrow> policy_config \<Rightarrow> transcript_item list" where
  "stale_candidates t p =
     (let elidable = elidable_items t;
          keep_from = unprotected_len (length elidable) (keep_recent_tool_outputs p)
      in take (min keep_from (length elidable)) elidable)"

lemma stale_candidates_eq:
  "stale_candidates t p =
     take (length (elidable_items t) - keep_recent_tool_outputs p) (elidable_items t)"
  by (simp add: stale_candidates_def unprotected_len_def Let_def)

lemma protected_lines_eq:
  "set (protected_lines t keep) =
     line_index ` set (drop (length (elidable_items t) - keep) (elidable_items t))"
proof -
  have "filter is_elidable (rev (items t)) = rev (elidable_items t)"
    by (simp add: elidable_items_def rev_filter)
  then show ?thesis by (simp add: protected_lines_def take_rev)
qed

lemma distinct_elidable_lines: "distinct_lines t \<Longrightarrow> distinct (map line_index (elidable_items t))"
  by (simp add: distinct_lines_def elidable_items_def distinct_map_filter)

lemma stale_candidate_target:
  assumes "distinct_lines t" "i \<in> set (stale_candidates t p)"
  shows "elision_target t (keep_recent_tool_outputs p) (line_index i)"
proof -
  let ?E = "elidable_items t" and ?n = "length (elidable_items t) - keep_recent_tool_outputs p"
  have i: "i \<in> set (take ?n ?E)" using assms(2) by (simp add: stale_candidates_eq)
  then have "i \<in> set ?E" by (rule in_set_takeD)
  then have live: "i \<in> set (items t)" "is_elidable i" by (simp_all add: elidable_items_def)
  have "set (map line_index (take ?n ?E)) \<inter> set (map line_index (drop ?n ?E)) = {}"
    using distinct_elidable_lines [OF assms(1)]
    by (metis append_take_drop_id distinct_append map_append)
  then have "line_index i \<notin> line_index ` set (drop ?n ?E)" using i by auto
  then show ?thesis using live unfolding elision_target_def protected_lines_eq by blast
qed

lemma distinct_candidate_lines: "distinct_lines t \<Longrightarrow> distinct (map line_index (stale_candidates t p))"
  using distinct_elidable_lines [of t] distinct_take by (simp add: stale_candidates_eq flip: take_map)

lemma length_elidable_items: "length (elidable_items t) \<le> length (items t)"
  by (simp add: elidable_items_def)

lemma length_stale_candidates: "length (stale_candidates t p) \<le> length (items t)"
  using length_elidable_items [of t] by (simp add: stale_candidates_eq)

definition DEFAULT_STUB :: ustr where
  "DEFAULT_STUB = lit ''[output elided by gobstopper: {bytes} bytes]''"

lemma default_stub_ok:
  "str_len DEFAULT_STUB \<le> 96" "\<not> contains_str DEFAULT_STUB (lit ''{kind}'')"
  "\<not> has_line_break DEFAULT_STUB"
  by (simp_all add: DEFAULT_STUB_def str_len_def utf8_len_def has_line_break_def contains_str_def)


section \<open>Elide\<close>

text \<open>The walk over the candidates is \<open>push_items\<close>: oldest first while over the floor.\<close>

definition rationale_head :: "u64 \<Rightarrow> policy_config \<Rightarrow> ustr" where
  "rationale_head b p =
     lit ''context '' @ dec (unat b) @ lit '' tokens exceeds trigger '' @ dec (unat (trigger_tokens p))"

definition elide_evaluate :: "transcript \<Rightarrow> policy_config \<Rightarrow> compaction_plan option" where
  "elide_evaluate t p =
     (let prior = context_tokens t in
      if prior < effective_trigger p then None
      else
        let elidable = elidable_items t;
            candidates = stale_candidates t p;
            (chosen, projected, _) = push_items (floor_tokens p) candidates prior []
        in if chosen = [] then None
           else Some
             \<lparr>strategy = lit ''elide'',
              rationale = rationale_head prior p @ lit ''; eliding '' @ dec (length chosen) @
                lit '' of '' @ dec (length elidable) @ lit '' stale tool outputs'',
              edits = [Elide chosen DEFAULT_STUB []],
              context_tokens_before = prior, context_tokens_after = projected\<rparr>)"

lemma elide_evaluate_Some:
  assumes "elide_evaluate t p = Some plan"
  obtains k where "0 < k" "k \<le> length (stale_candidates t p)" "effective_trigger p \<le> context_tokens t"
    "edits plan = [Elide (map line_index (take k (stale_candidates t p))) DEFAULT_STUB []]"
    "context_tokens_before plan = context_tokens t"
    "context_tokens_after plan = spent (stale_candidates t p) (context_tokens t) k"
    "k = length (stale_candidates t p) \<or> context_tokens_after plan \<le> floor_tokens p"
    "\<forall>j < k. floor_tokens p < spent (stale_candidates t p) (context_tokens t) j"
proof -
  obtain chosen projected rest where push:
    "push_items (floor_tokens p) (stale_candidates t p) (context_tokens t) [] = (chosen, projected, rest)"
    by (metis prod_cases3)
  have plan: "effective_trigger p \<le> context_tokens t" "chosen \<noteq> []"
    "edits plan = [Elide chosen DEFAULT_STUB []]" "context_tokens_before plan = context_tokens t"
    "context_tokens_after plan = projected"
    using assms by (auto simp: elide_evaluate_def Let_def push not_less split: if_splits)
  from push_items_prefix [OF push] obtain k where k: "k \<le> length (stale_candidates t p)"
    "chosen = map line_index (take k (stale_candidates t p))"
    "projected = spent (stale_candidates t p) (context_tokens t) k"
    "k = length (stale_candidates t p) \<or> projected \<le> floor_tokens p"
    "\<forall>j < k. floor_tokens p < spent (stale_candidates t p) (context_tokens t) j"
    by (auto simp: spent_def)
  then have "0 < k" using plan(2) by auto
  then show thesis using that [of k] k plan by simp
qed

lemma elide_evaluate_None:
  "elide_evaluate t p = None \<longleftrightarrow>
     context_tokens t < effective_trigger p \<or> context_tokens t \<le> floor_tokens p \<or>
     stale_candidates t p = []"
proof -
  obtain chosen projected rest where push:
    "push_items (floor_tokens p) (stale_candidates t p) (context_tokens t) [] = (chosen, projected, rest)"
    by (metis prod_cases3)
  have "chosen = [] \<longleftrightarrow> context_tokens t \<le> floor_tokens p \<or> stale_candidates t p = []"
  proof (cases "stale_candidates t p")
    case Nil
    then show ?thesis using push by simp
  next
    case (Cons i cs)
    then show ?thesis using push push_items_prefix [of "floor_tokens p" cs _ "[line_index i]"]
      by (auto split: if_splits)
  qed
  then show ?thesis by (auto simp: elide_evaluate_def Let_def push split: if_splits)
qed

text \<open>An elision of some of the stale candidates is admissible.\<close>

lemma stale_elision_admissible:
  assumes "plan_ready t es" "distinct (map line_index cs)" "set cs \<subseteq> set (stale_candidates t p)"
  shows "plan_admissible t (keep_recent_tool_outputs p) [Elide (map line_index cs) DEFAULT_STUB []]"
    (is "plan_admissible t ?k _")
proof (rule single_elide_admissible)
  show "length (items t) \<le> MAX_ITEMS" "distinct_lines t" using assms(1) by (simp_all add: plan_ready_def)
  show "list_all (elision_target t ?k) (map line_index cs)"
    using assms(1,3) stale_candidate_target by (auto simp: list_all_iff plan_ready_def)
  have "length cs = card (set (map line_index cs))" using assms(2) by (metis distinct_card length_map)
  also have "\<dots> \<le> card (line_index ` set (stale_candidates t p))"
    using assms(3) by (intro card_mono) auto
  also have "\<dots> \<le> length (stale_candidates t p)"
    using card_image_le card_length le_trans by (metis List.finite_set)
  finally show "length (map line_index cs) \<le> MAX_ITEMS"
    using assms(1) length_stale_candidates [of t p] by (simp add: plan_ready_def)
qed (use assms(2) default_stub_ok in auto)

interpretation elide: admissible_strategy elide_evaluate
proof
  fix t p plan assume a: "elide_evaluate t p = Some plan"
  then show "effective_trigger p \<le> context_tokens t" "context_tokens_before plan = context_tokens t"
    by (auto elim: elide_evaluate_Some)
  assume r: "plan_ready t (edits plan)"
  from a obtain k where k:
    "edits plan = [Elide (map line_index (take k (stale_candidates t p))) DEFAULT_STUB []]"
    by (auto elim: elide_evaluate_Some)
  have "distinct (map line_index (take k (stale_candidates t p)))"
    using distinct_candidate_lines [of t p] r by (simp add: plan_ready_def flip: take_map)
  then show "plan_admissible t (keep_recent_tool_outputs p) (edits plan)"
    unfolding k using r by (intro stale_elision_admissible) (auto dest: in_set_takeD)
qed

section \<open>Strategies that carry a state card\<close>

lemma covers_state_card [simp]: "covers_items (state_card_digest lc t chosen) = length chosen"
  by (simp add: state_card_digest_def Let_def)

lemma digest_plan_admissible:
  assumes chosen: "choose_with_digest lc t flr cs = Some (chosen, digest, after)"
    and ready: "plan_ready t [Elide chosen DEFAULT_STUB [], InjectDigest digest]"
    and cs: "distinct (map line_index cs)" "list_all (\<lambda>i. elision_target t keep (line_index i)) cs"
      "length cs \<le> length (items t)"
  shows "plan_admissible t keep [Elide chosen DEFAULT_STUB [], InjectDigest digest]"
proof -
  from choose_with_digest_SomeE [OF chosen] obtain k where k: "0 < k" "k \<le> length cs"
    "chosen = sort (map line_index (take k cs))" "digest = state_card_digest lc t chosen" by metis
  have len: "length chosen = k" using k by simp
  show ?thesis
  proof (rule elide_digest_admissible(2))
    show "length (items t) \<le> MAX_ITEMS" "distinct_lines t" using ready by (simp_all add: plan_ready_def)
    then show "length chosen \<le> MAX_ITEMS" using len k(2) cs(3) by linarith
    show "distinct chosen" unfolding k(3) using cs(1) by (simp flip: take_map)
    show "list_all (elision_target t keep) chosen"
      using cs(2) unfolding k(3) by (auto simp: list_all_iff dest: in_set_takeD)
    show "edit_ok t keep (InjectDigest digest)"
      using ready len k cs(3) by (simp add: plan_ready_def digest_fits_def)
  qed (use default_stub_ok in auto)
qed

text \<open>The two strategies below differ in the order of their candidates and in their rationale:
  \<open>cache_aware\<close> elides the newest stale outputs first so that the conversation prefix stays
  byte-identical, \<open>compacted\<close> the oldest first.\<close>

definition cache_aware_evaluate ::
  "(ustr \<Rightarrow> ustr) \<Rightarrow> transcript \<Rightarrow> policy_config \<Rightarrow> compaction_plan option" where
  "cache_aware_evaluate lc t p =
     (let prior = context_tokens t in
      if prior < effective_trigger p then None
      else
        let candidates = stale_candidates t p in
        if candidates = [] then None
        else
          case choose_with_digest lc t (floor_tokens p) (rev candidates) of
            None \<Rightarrow> None
          | Some (chosen, digest, after) \<Rightarrow>
              let first_elided = (case chosen of [] \<Rightarrow> 0 | l # _ \<Rightarrow> l);
                  prefix_items = length (filter (\<lambda>i. line_index i < first_elided) (items t))
              in Some
                \<lparr>strategy = lit ''cache_aware'',
                 rationale = rationale_head prior p @ lit ''; eliding '' @ dec (length chosen) @
                   lit '' latest stale outputs before tail to keep '' @ dec prefix_items @
                   lit '' prefix records in cache'',
                 edits = [Elide chosen DEFAULT_STUB [], InjectDigest digest],
                 context_tokens_before = prior, context_tokens_after = after\<rparr>)"

definition compacted_evaluate ::
  "(ustr \<Rightarrow> ustr) \<Rightarrow> transcript \<Rightarrow> policy_config \<Rightarrow> compaction_plan option" where
  "compacted_evaluate lc t p =
     (let prior = context_tokens t in
      if prior < effective_trigger p then None
      else
        case choose_with_digest lc t (floor_tokens p) (stale_candidates t p) of
          None \<Rightarrow> None
        | Some (elided_indexes, digest, after) \<Rightarrow>
            Some
              \<lparr>strategy = lit ''compacted'',
               rationale = rationale_head prior p @ lit ''; emitting a compacted record for '' @
                 dec (length elided_indexes) @ lit '' elided items'',
               edits = [Elide elided_indexes DEFAULT_STUB [], InjectDigest digest],
               context_tokens_before = prior, context_tokens_after = after\<rparr>)"

text \<open>Both build their plan from one choice over a list of candidates.\<close>

definition digest_plan_of ::
  "(ustr \<Rightarrow> ustr) \<Rightarrow> transcript \<Rightarrow> policy_config \<Rightarrow> transcript_item list \<Rightarrow> compaction_plan \<Rightarrow> bool" where
  "digest_plan_of lc t p cs plan \<longleftrightarrow>
     effective_trigger p \<le> context_tokens t \<and> context_tokens_before plan = context_tokens t \<and>
     (\<exists>chosen digest.
        choose_with_digest lc t (floor_tokens p) cs = Some (chosen, digest, context_tokens_after plan) \<and>
        edits plan = [Elide chosen DEFAULT_STUB [], InjectDigest digest])"

lemma cache_aware_digest_plan:
  "cache_aware_evaluate lc t p = Some plan \<Longrightarrow> digest_plan_of lc t p (rev (stale_candidates t p)) plan"
  by (auto simp: cache_aware_evaluate_def digest_plan_of_def Let_def not_less
      split: if_splits option.splits)

lemma compacted_digest_plan:
  "compacted_evaluate lc t p = Some plan \<Longrightarrow> digest_plan_of lc t p (stale_candidates t p) plan"
  by (auto simp: compacted_evaluate_def digest_plan_of_def Let_def not_less
      split: if_splits option.splits)

text \<open>Any strategy whose plans come from a choice over unprotected candidates keeps the contract.\<close>

lemma digest_strategy_contract:
  assumes plan: "\<And>t p plan. ev t p = Some plan \<Longrightarrow> digest_plan_of lc t p (cands t p) plan"
    and cands: "\<And>t p. distinct_lines t \<Longrightarrow> distinct (map line_index (cands t p)) \<and>
      list_all (\<lambda>i. elision_target t (keep_recent_tool_outputs p) (line_index i)) (cands t p) \<and>
      length (cands t p) \<le> length (items t)"
  shows "admissible_strategy ev"
proof
  fix t p pl assume a: "ev t p = Some pl"
  from plan [OF a] show "effective_trigger p \<le> context_tokens t"
    "context_tokens_before pl = context_tokens t" by (simp_all add: digest_plan_of_def)
  assume r: "plan_ready t (edits pl)"
  from plan [OF a] obtain chosen digest where c:
    "choose_with_digest lc t (floor_tokens p) (cands t p) = Some (chosen, digest, context_tokens_after pl)"
    "edits pl = [Elide chosen DEFAULT_STUB [], InjectDigest digest]"
    by (auto simp: digest_plan_of_def)
  then show "plan_admissible t (keep_recent_tool_outputs p) (edits pl)"
    using digest_plan_admissible [OF c(1)] cands [of t p] r by (simp add: plan_ready_def)
qed

lemma stale_candidates_ok:
  assumes "distinct_lines t"
  shows "distinct (map line_index (stale_candidates t p))"
    "list_all (\<lambda>i. elision_target t (keep_recent_tool_outputs p) (line_index i)) (stale_candidates t p)"
    "length (stale_candidates t p) \<le> length (items t)"
  using assms distinct_candidate_lines stale_candidate_target length_stale_candidates
  by (auto simp: list_all_iff)

interpretation cache_aware: admissible_strategy "cache_aware_evaluate lc" for lc
  by (rule digest_strategy_contract [OF cache_aware_digest_plan])
    (use stale_candidates_ok in \<open>auto simp: list_all_iff simp flip: rev_map\<close>)

interpretation compacted: admissible_strategy "compacted_evaluate lc" for lc
  by (rule digest_strategy_contract [OF compacted_digest_plan]) (use stale_candidates_ok in auto)

section \<open>Structured\<close>

definition KEEP_TAIL_ITEMS :: nat where "KEEP_TAIL_ITEMS = 24"

definition structured_eligible :: "transcript \<Rightarrow> policy_config \<Rightarrow> transcript_item list" where
  "structured_eligible t p =
     (let tail_start = length (items t) - KEEP_TAIL_ITEMS;
          protected = protected_lines t (keep_recent_tool_outputs p)
      in filter (\<lambda>i. is_elidable i \<and> line_index i \<notin> set protected) (take tail_start (items t)))"

definition structured_evaluate :: "transcript \<Rightarrow> policy_config \<Rightarrow> compaction_plan option" where
  "structured_evaluate t p =
     (let prior = context_tokens t in
      if prior < effective_trigger p then None
      else
        let tail_start = length (items t) - KEEP_TAIL_ITEMS in
        if take tail_start (items t) = [] then None
        else
          let eligible = structured_eligible t p;
              covered_lines = map line_index eligible;
              elided_tokens =
                fold (\<lambda>i running. add_tokens running (estimated_elision_savings i)) eligible 0;
              es = (if covered_lines \<noteq> [] then [Elide covered_lines DEFAULT_STUB []] else [])
          in if es = [] then None
             else Some
               \<lparr>strategy = lit ''structured'',
                rationale = rationale_head prior p @ lit ''; masking fallback over '' @ dec tail_start @
                  lit '' items, '' @ dec (length (items t) - tail_start) @
                  lit '' tail items kept; semantic summary requires a content-authorized plugin'',
                edits = es, context_tokens_before = prior,
                context_tokens_after = sat_sub prior elided_tokens\<rparr>)"

lemma structured_eligible_ok:
  assumes "distinct_lines t"
  shows "distinct (map line_index (structured_eligible t p))"
    "list_all (\<lambda>i. elision_target t (keep_recent_tool_outputs p) (line_index i)) (structured_eligible t p)"
    "length (structured_eligible t p) \<le> length (items t)"
proof -
  show "distinct (map line_index (structured_eligible t p))" using assms
    by (simp add: structured_eligible_def Let_def distinct_lines_def distinct_map_filter flip: take_map)
  show "list_all (\<lambda>i. elision_target t (keep_recent_tool_outputs p) (line_index i)) (structured_eligible t p)"
    by (auto simp: structured_eligible_def Let_def list_all_iff elision_target_def dest: in_set_takeD)
  have "length (structured_eligible t p) \<le> length (take (length (items t) - KEEP_TAIL_ITEMS) (items t))"
    unfolding structured_eligible_def Let_def by (rule length_filter_le)
  then show "length (structured_eligible t p) \<le> length (items t)" by simp
qed

lemma structured_evaluate_Some:
  assumes "structured_evaluate t p = Some plan"
  shows "effective_trigger p \<le> context_tokens t \<and> context_tokens_before plan = context_tokens t \<and>
    structured_eligible t p \<noteq> [] \<and>
    edits plan = [Elide (map line_index (structured_eligible t p)) DEFAULT_STUB []] \<and>
    context_tokens_after plan = fold (\<lambda>i acc. sat_sub acc (estimated_elision_savings i))
      (structured_eligible t p) (context_tokens t)"
  using assms
  by (auto simp: structured_evaluate_def Let_def not_less add_tokens_def fold_sat_sub split: if_splits)

interpretation structured: admissible_strategy structured_evaluate
proof
  fix t p plan assume "structured_evaluate t p = Some plan"
  note s = structured_evaluate_Some [OF this]
  then show "effective_trigger p \<le> context_tokens t" "context_tokens_before plan = context_tokens t"
    by blast+
  assume r: "plan_ready t (edits plan)"
  then have d: "distinct_lines t" "length (items t) \<le> MAX_ITEMS" by (simp_all add: plan_ready_def)
  show "plan_admissible t (keep_recent_tool_outputs p) (edits plan)"
    using single_elide_admissible [OF d(2,1), of "map line_index (structured_eligible t p)"]
      structured_eligible_ok [OF d(1), of p] d(2) default_stub_ok s
    by (simp add: list_all_iff)
qed

section \<open>Sawtooth\<close>

definition sawtooth_control :: "provider \<Rightarrow> ustr" where
  "sawtooth_control pr =
     (case pr of
        Codex \<Rightarrow> lit ''codex app-server: thread/compact/start''
      | ClaudeCode \<Rightarrow> lit ''claude: /compact (or --autocompact at launch)'')"

definition sawtooth_evaluate :: "transcript \<Rightarrow> policy_config \<Rightarrow> compaction_plan option" where
  "sawtooth_evaluate t p =
     (let prior = context_tokens t in
      if prior < effective_trigger p then None
      else Some
        \<lparr>strategy = lit ''sawtooth'', rationale = rationale_head prior p,
         edits = [ProviderCompact (sawtooth_control (provider (session t)))],
         context_tokens_before = prior, context_tokens_after = floor_tokens p\<rparr>)"

lemma sawtooth_control_ok:
  "sawtooth_control pr \<noteq> []" "str_len (sawtooth_control pr) \<le> 256"
  "\<not> list_ex is_control (sawtooth_control pr)"
  by (cases pr; simp add: sawtooth_control_def str_len_def utf8_len_def is_control_def)+

interpretation sawtooth: admissible_strategy sawtooth_evaluate
proof
  fix t p plan assume "sawtooth_evaluate t p = Some plan"
  then have s: "effective_trigger p \<le> context_tokens t" "context_tokens_before plan = context_tokens t"
    "edits plan = [ProviderCompact (sawtooth_control (provider (session t)))]"
    by (auto simp: sawtooth_evaluate_def Let_def split: if_splits)
  then show "effective_trigger p \<le> context_tokens t" "context_tokens_before plan = context_tokens t"
    by blast+
  assume "plan_ready t (edits plan)"
  then show "plan_admissible t (keep_recent_tool_outputs p) (edits plan)"
    using sawtooth_control_ok s(3)
    by (simp add: plan_admissible_def plan_ready_def composition_ok_def is_control_class_def)
qed

section \<open>What the position strategies choose\<close>

text \<open>\<open>elide\<close> masks exactly the shortest prefix of the stale outputs, oldest first, that brings
  the projection to the floor, or all of them when they do not suffice; the projected size is the
  exact difference with the savings of the masked outputs; and it declines only under the
  trigger, at the floor, or with nothing stale.\<close>

theorem elide_plan_correct:
  "case elide_evaluate t p of
     None \<Rightarrow> context_tokens t < effective_trigger p \<or> context_tokens t \<le> floor_tokens p \<or>
       stale_candidates t p = []
   | Some plan \<Rightarrow>
       effective_trigger p \<le> context_tokens t \<and>
       (\<exists>k. 0 < k \<and> k \<le> length (stale_candidates t p) \<and>
          edits plan = [Elide (map line_index (take k (stale_candidates t p))) DEFAULT_STUB []] \<and>
          unat (context_tokens_after plan) = unat (context_tokens t) -
            (\<Sum>i\<leftarrow>take k (stale_candidates t p). unat (estimated_elision_savings i)) \<and>
          (k = length (stale_candidates t p) \<or> context_tokens_after plan \<le> floor_tokens p) \<and>
          list_all (\<lambda>j. floor_tokens p < spent (stale_candidates t p) (context_tokens t) j) [0..<k])"
proof (cases "elide_evaluate t p")
  case None
  then show ?thesis using elide_evaluate_None [of t p] by simp
next
  case (Some plan)
  from elide_evaluate_Some [OF this] obtain k where k:
    "0 < k" "k \<le> length (stale_candidates t p)" "effective_trigger p \<le> context_tokens t"
    "edits plan = [Elide (map line_index (take k (stale_candidates t p))) DEFAULT_STUB []]"
    "context_tokens_after plan = spent (stale_candidates t p) (context_tokens t) k"
    "k = length (stale_candidates t p) \<or> context_tokens_after plan \<le> floor_tokens p"
    "\<forall>j < k. floor_tokens p < spent (stale_candidates t p) (context_tokens t) j" by metis
  have "unat (context_tokens_after plan) = unat (context_tokens t) -
      (\<Sum>i\<leftarrow>take k (stale_candidates t p). unat (estimated_elision_savings i))"
    unfolding k(5) by (rule unat_spent)
  moreover have "list_all (\<lambda>j. floor_tokens p < spent (stale_candidates t p) (context_tokens t) j) [0..<k]"
    using k(7) by (simp add: list_all_iff)
  ultimately show ?thesis using Some k(1-4,6) by auto
qed

lemma sorted_stale_lines:
  assumes "sorted (map line_index (items t))"
  shows "sorted (map line_index (stale_candidates t p))"
  using assms sorted_filter [of line_index "items t" is_elidable]
  by (simp add: stale_candidates_eq elidable_items_def sorted_wrt_take flip: take_map)

text \<open>\<open>cache_aware\<close> keeps the prompt cache prefix: on a transcript in line order it elides a
  suffix of the stale outputs, so every stale output before the first elided line is kept and
  every one from it on is elided, and it elides one output only where the context is over the
  floor.\<close>

theorem cache_aware_elides_suffix:
  assumes "sorted (map line_index (items t))" "cache_aware_evaluate lc t p = Some plan"
  shows "floor_tokens p < context_tokens t \<and>
    (\<exists>k < length (stale_candidates t p). \<exists>d.
       edits plan = [Elide (map line_index (drop k (stale_candidates t p))) DEFAULT_STUB [], InjectDigest d] \<and>
       covers_items d = length (stale_candidates t p) - k)"
proof -
  let ?cs = "stale_candidates t p"
  from cache_aware_digest_plan [OF assms(2)] obtain chosen digest where c:
    "choose_with_digest lc t (floor_tokens p) (rev ?cs) = Some (chosen, digest, context_tokens_after plan)"
    "edits plan = [Elide chosen DEFAULT_STUB [], InjectDigest digest]"
    by (auto simp: digest_plan_of_def)
  from choose_with_digest_SomeE [OF c(1)] obtain k where k: "0 < k" "k \<le> length (rev ?cs)"
    "chosen = sort (map line_index (take k (rev ?cs)))" "digest = state_card_digest lc t chosen" by metis
  have "mset chosen = mset (map line_index (drop (length ?cs - k) ?cs))"
    unfolding k(3) by (simp add: take_rev)
  moreover have "sorted (map line_index (drop (length ?cs - k) ?cs))"
    using sorted_stale_lines [OF assms(1), of p] by (simp add: sorted_wrt_drop flip: drop_map)
  ultimately have ch: "chosen = map line_index (drop (length ?cs - k) ?cs)"
    unfolding k(3) by (metis mset_sort properties_for_sort sorted_sort sorted_sort_id)
  have "floor_tokens p < context_tokens t"
    using choose_with_digest_over [OF c(1)] .
  then show ?thesis using ch k c(2) by (intro conjI exI [of _ "length ?cs - k"]) auto
qed


text \<open>A session of tool outputs of one tool, 40000 tokens each, over the default trigger.\<close>

definition sample_output :: "nat \<Rightarrow> transcript_item" where
  "sample_output l = \<lparr>line_index = l, kind = ToolResult, est_tokens = 40000,
     elidable_bytes = Some 160000, elidable_parts = 1, label = lit ''ls'', summary = None,
     uuid = None, parent_uuid = None, tool_use_ids = [], payload_sha256 = None\<rparr>"

definition sample_session :: "provider \<Rightarrow> nat \<Rightarrow> transcript" where
  "sample_session pr n =
     \<lparr>session = \<lparr>provider = pr, session_id = lit ''s'', path = lit ''s'', cwd = None, age_secs = 1000\<rparr>,
      items = map sample_output [0..<n],
      usage = default_usage\<lparr>u_context_tokens := 300000, context_state := Reported\<rparr>\<rparr>"

lemma sample_output_simps [simp]:
  "line_index (sample_output l) = l" "is_elidable (sample_output l)" "est_tokens (sample_output l) = 40000"
  "label (sample_output l) = lit ''ls''" "payload_sha256 (sample_output l) = None"
  by (simp_all add: sample_output_def is_elidable_def is_elidable_payload_def)

lemma sample_session_simps [simp]:
  "context_tokens (sample_session pr n) = 300000" "items (sample_session pr n) = map sample_output [0..<n]"
  "elidable_items (sample_session pr n) = map sample_output [0..<n]"
  "provider (session (sample_session pr n)) = pr" "\<not> is_active (session (sample_session pr n))"
  by (simp_all add: sample_session_def context_tokens_def reported_context_def elidable_items_def
      filter_id_conv is_active_def HOT_SECS_def default_usage_def)

lemma sample_session_ready: "n \<le> 100000 \<Longrightarrow> distinct_lines (sample_session pr n) \<and>
    length (items (sample_session pr n)) \<le> MAX_ITEMS"
  by (simp add: distinct_lines_def MAX_ITEMS_def comp_def)

lemma default_trigger: "effective_trigger default_policy = 250000"
  using effective_trigger_facts(2) [OF validate_default] by (simp add: default_policy_def)

lemma default_keep: "keep_recent_tool_outputs default_policy = 8" "floor_tokens default_policy = 40000"
  by (simp_all add: default_policy_def)

lemma choose_with_digest_Some_iff:
  "choose_with_digest lc t flr cs \<noteq> None \<longleftrightarrow> flr < context_tokens t \<and> cs \<noteq> []"
proof (cases cs)
  case Nil
  then show ?thesis by (simp add: choose_with_digest_def)
next
  case (Cons i xs)
  then show ?thesis
    using push_items_prefix [of flr xs _ "[line_index i]"]
    by (auto simp: choose_with_digest_def split: prod.splits if_splits) (metis prod_cases3)
qed

lemma cache_aware_Some_iff:
  "cache_aware_evaluate lc t p \<noteq> None \<longleftrightarrow>
     effective_trigger p \<le> context_tokens t \<and> floor_tokens p < context_tokens t \<and>
     stale_candidates t p \<noteq> []"
  using choose_with_digest_Some_iff [of lc t "floor_tokens p" "rev (stale_candidates t p)"]
  by (auto simp: cache_aware_evaluate_def Let_def not_less split: option.splits)

theorem cache_aware_elides_suffix_witness:
  "\<exists>plan k d. cache_aware_evaluate id (sample_session Codex 10) default_policy = Some plan \<and>
     k < 2 \<and> edits plan = [Elide [k..<2] DEFAULT_STUB [], InjectDigest d]"
proof -
  let ?t = "sample_session Codex 10"
  have stale: "stale_candidates ?t default_policy = map sample_output [0, 1]"
    by (simp add: stale_candidates_eq default_keep upt_rec)
  have "cache_aware_evaluate id ?t default_policy \<noteq> None"
    unfolding cache_aware_Some_iff by (simp add: stale default_trigger default_keep)
  then obtain plan where plan: "cache_aware_evaluate id ?t default_policy = Some plan" by blast
  have "sorted (map line_index (items ?t))" by (simp add: comp_def)
  from cache_aware_elides_suffix [OF this plan] obtain k d where
    "k < length (stale_candidates ?t default_policy)"
    "edits plan = [Elide (map line_index (drop k (stale_candidates ?t default_policy))) DEFAULT_STUB [],
       InjectDigest d]" by blast
  then have k: "k < 2" "edits plan = [Elide (map line_index (drop k (map sample_output [0, 1])))
      DEFAULT_STUB [], InjectDigest d]" unfolding stale by simp_all
  then have "map line_index (drop k (map sample_output [0, 1])) = [k..<2]"
    by (auto simp: less_Suc_eq numeral_2_eq_2 upt_rec)
  then show ?thesis using plan k by auto
qed

end
