(* ===== verification/Grouping.thy ===== *)
theory Grouping
  imports Strategy
begin

text \<open>
  The strategies that choose among the elidable outputs by group: \<open>strategy/dedupe.rs\<close> keeps the
  newest of identical outputs, \<open>strategy/micro.rs\<close> the newest two of each tool, and
  \<open>strategy/middle.rs\<close> the first and last ones. Their hash maps from a key to positions are
  association lists filled in the order the source fills them.
\<close>

section \<open>Positions by key\<close>

fun push_group :: "'k \<Rightarrow> nat \<Rightarrow> ('k \<times> nat list) list \<Rightarrow> ('k \<times> nat list) list" where
  "push_group k pos [] = [(k, [pos])]"
| "push_group k pos ((k', ps) # gs) =
     (if k = k' then (k', ps @ [pos]) # gs else (k', ps) # push_group k pos gs)"

definition group_positions ::
  "('a \<Rightarrow> 'k option) \<Rightarrow> 'a list \<Rightarrow> ('k \<times> nat list) list" where
  "group_positions key xs =
     fold (\<lambda>(pos, x) gs. case key x of Some k \<Rightarrow> push_group k pos gs | None \<Rightarrow> gs) (enumerate 0 xs) []"

text \<open>The positions of a key, in increasing order.\<close>

definition positions_of :: "('a \<Rightarrow> 'k option) \<Rightarrow> 'a list \<Rightarrow> 'k \<Rightarrow> nat list" where
  "positions_of key xs k = filter (\<lambda>i. key (xs ! i) = Some k) [0..<length xs]"

lemma map_of_push_group:
  "map_of (push_group k pos gs) k' =
     (if k' = k then Some (case map_of gs k of Some ps \<Rightarrow> ps @ [pos] | None \<Rightarrow> [pos]) else map_of gs k')"
  by (induction k pos gs rule: push_group.induct) auto

lemma keys_push_group: "distinct (map fst gs) \<Longrightarrow> distinct (map fst (push_group k pos gs))"
proof (induction k pos gs rule: push_group.induct)
  case (2 k pos k' ps gs)
  have "fst ` set (push_group k pos gs) \<subseteq> insert k (fst ` set gs)"
    by (induction k pos gs rule: push_group.induct) auto
  then show ?case using 2 by auto
qed simp

lemma group_positions_snoc:
  "group_positions key (xs @ [x]) =
     (case key x of Some k \<Rightarrow> push_group k (length xs) (group_positions key xs)
      | None \<Rightarrow> group_positions key xs)"
  by (simp add: group_positions_def enumerate_append_eq split: option.split)

lemma positions_of_snoc:
  "positions_of key (xs @ [x]) k = positions_of key xs k @ (if key x = Some k then [length xs] else [])"
  by (auto simp: positions_of_def nth_append intro!: filter_cong)

lemma map_of_group_positions:
  "map_of (group_positions key xs) k =
     (if positions_of key xs k = [] then None else Some (positions_of key xs k))"
proof (induction xs rule: rev_induct)
  case Nil
  then show ?case by (simp add: group_positions_def positions_of_def)
next
  case (snoc x xs)
  then show ?case
    by (auto simp: group_positions_snoc positions_of_snoc map_of_push_group split: option.split)
qed

lemma distinct_group_keys: "distinct (map fst (group_positions key xs))"
proof (induction xs rule: rev_induct)
  case Nil
  then show ?case by (simp add: group_positions_def)
next
  case (snoc x xs)
  then show ?case by (auto simp: group_positions_snoc keys_push_group split: option.split)
qed

lemma group_member:
  "ps \<in> snd ` set (group_positions key xs) \<longleftrightarrow> ps \<noteq> [] \<and> (\<exists>k. ps = positions_of key xs k)"
proof
  assume "ps \<in> snd ` set (group_positions key xs)"
  then obtain k where "(k, ps) \<in> set (group_positions key xs)" by auto
  then have "map_of (group_positions key xs) k = Some ps" using distinct_group_keys
    by (metis map_of_is_SomeI)
  then show "ps \<noteq> [] \<and> (\<exists>k. ps = positions_of key xs k)"
    by (auto simp: map_of_group_positions split: if_splits)
next
  assume "ps \<noteq> [] \<and> (\<exists>k. ps = positions_of key xs k)"
  then obtain k where "ps \<noteq> []" "positions_of key xs k = ps" by blast
  then have "map_of (group_positions key xs) k = Some ps" by (simp add: map_of_group_positions)
  then show "ps \<in> snd ` set (group_positions key xs)" by (force dest: map_of_SomeD)
qed

lemma positions_of_mem [simp]:
  "i \<in> set (positions_of key xs k) \<longleftrightarrow> i < length xs \<and> key (xs ! i) = Some k"
  by (auto simp: positions_of_def)

lemma sorted_positions_of: "sorted_wrt (<) (positions_of key xs k)"
  by (simp add: positions_of_def sorted_wrt_filter)

lemma le_last: "sorted_wrt (<) (ps :: nat list) \<Longrightarrow> i \<in> set ps \<Longrightarrow> i \<le> last ps"
  by (cases ps rule: rev_cases) (auto simp: sorted_wrt_append)

section \<open>Keeping positions\<close>

text \<open>The candidates whose position is not kept, in line order.\<close>

definition unkept :: "nat list \<Rightarrow> transcript_item list \<Rightarrow> transcript_item list" where
  "unkept keep xs =
     sort_key line_index (map snd (filter (\<lambda>(pos, _). pos \<notin> set keep) (enumerate 0 xs)))"

lemma set_unkept: "set (unkept keep xs) = {xs ! i | i. i < length xs \<and> i \<notin> set keep}"
  by (auto simp: unkept_def in_set_enumerate_eq image_iff)

lemma unkept_ok:
  assumes "distinct (map line_index xs)"
  shows "distinct (map line_index (unkept keep xs))" "length (unkept keep xs) \<le> length xs"
proof -
  let ?f = "filter (\<lambda>(pos, _). pos \<notin> set keep) (enumerate 0 xs)"
  have "map line_index xs = map (line_index \<circ> snd) (enumerate 0 xs)"
    by (simp flip: map_map)
  then have "distinct (map (line_index \<circ> snd) ?f)"
    using assms distinct_map_filter [of "line_index \<circ> snd" "enumerate 0 xs"] by simp
  then have "distinct (map line_index (map snd ?f))" by (simp only: map_map)
  then show "distinct (map line_index (unkept keep xs))"
    by (metis (no_types, lifting) mset_map mset_sort mset_eq_imp_distinct_iff unkept_def)
  show "length (unkept keep xs) \<le> length xs"
    by (simp add: unkept_def) (metis length_enumerate length_filter_le)
qed


section \<open>Dedupe\<close>

definition dedupe_key :: "transcript_item \<Rightarrow> (ustr \<times> ustr) option" where
  "dedupe_key item =
     (case payload_sha256 item of Some digest \<Rightarrow> Some (label item, digest) | None \<Rightarrow> None)"

text \<open>Kept positions: every item without a payload digest and the newest of each group.\<close>

definition dedupe_keep :: "transcript_item list \<Rightarrow> nat list" where
  "dedupe_keep candidates =
     filter (\<lambda>i. dedupe_key (candidates ! i) = None) [0..<length candidates] @
     map (\<lambda>(_, positions). last positions) (group_positions dedupe_key candidates)"

definition dedupe_candidates :: "transcript \<Rightarrow> policy_config \<Rightarrow> transcript_item list" where
  "dedupe_candidates t p = unkept (dedupe_keep (stale_candidates t p)) (stale_candidates t p)"

definition dedupe_evaluate ::
  "(ustr \<Rightarrow> ustr) \<Rightarrow> transcript \<Rightarrow> policy_config \<Rightarrow> compaction_plan option" where
  "dedupe_evaluate lc t p =
     (let prior = context_tokens t in
      if prior < effective_trigger p then None
      else if stale_candidates t p = [] then None
      else
        case choose_with_digest lc t (floor_tokens p) (dedupe_candidates t p) of
          None \<Rightarrow> None
        | Some (chosen, digest, after) \<Rightarrow>
            Some
              \<lparr>strategy = lit ''dedupe'',
               rationale = rationale_head prior p @ lit ''; deduping '' @ dec (length chosen) @
                 lit '' stale tool outputs'',
               edits = [Elide chosen DEFAULT_STUB [], InjectDigest digest],
               context_tokens_before = prior, context_tokens_after = after\<rparr>)"

lemma dedupe_digest_plan:
  "dedupe_evaluate lc t p = Some plan \<Longrightarrow> digest_plan_of lc t p (dedupe_candidates t p) plan"
  by (auto simp: dedupe_evaluate_def digest_plan_of_def Let_def not_less
      split: if_splits option.splits)

lemma set_dedupe_keep:
  "i < length xs \<Longrightarrow> i \<notin> set (dedupe_keep xs) \<Longrightarrow>
     \<exists>j k. dedupe_key (xs ! i) = Some k \<and> i < j \<and> j < length xs \<and> dedupe_key (xs ! j) = Some k \<and>
       j \<in> set (dedupe_keep xs)"
proof -
  assume i: "i < length xs" "i \<notin> set (dedupe_keep xs)"
  then obtain k where k: "dedupe_key (xs ! i) = Some k" by (auto simp: dedupe_keep_def)
  let ?ps = "positions_of dedupe_key xs k"
  have mem: "i \<in> set ?ps" using i k by simp
  then have ne: "?ps \<noteq> []" by (metis empty_iff list.set(1))
  then have "?ps \<in> snd ` set (group_positions dedupe_key xs)" unfolding group_member by blast
  then have last: "last ?ps \<in> set (dedupe_keep xs)" by (force simp: dedupe_keep_def)
  have "last ?ps \<in> set ?ps" using ne by (rule last_in_set)
  moreover have "i < last ?ps"
  proof -
    have "i \<noteq> last ?ps" using last i(2) by auto
    moreover have "i \<le> last ?ps" using sorted_positions_of mem by (rule le_last)
    ultimately show ?thesis by simp
  qed
  ultimately show ?thesis using k last by auto
qed

lemma dedupe_candidates_ok:
  assumes "distinct_lines t"
  shows "distinct (map line_index (dedupe_candidates t p)) \<and>
    list_all (\<lambda>i. elision_target t (keep_recent_tool_outputs p) (line_index i)) (dedupe_candidates t p) \<and>
    length (dedupe_candidates t p) \<le> length (items t)"
proof -
  have "set (dedupe_candidates t p) \<subseteq> set (stale_candidates t p)"
    by (auto simp: dedupe_candidates_def set_unkept)
  then show ?thesis
    using unkept_ok [OF stale_candidates_ok(1) [OF assms, of p]] stale_candidates_ok [OF assms, of p]
    by (auto simp: list_all_iff dedupe_candidates_def intro: le_trans)
qed

interpretation dedupe: admissible_strategy "dedupe_evaluate lc" for lc
  by (rule digest_strategy_contract, erule dedupe_digest_plan, erule dedupe_candidates_ok)

text \<open>C28: Deduplication loses no output: for every line a \<open>dedupe\<close> plan elides, a later stale output
  with the same tool label and the same payload digest stays, and every elided output has a
  payload digest.\<close>

theorem dedupe_keeps_newest_copy:
  assumes "distinct_lines t" "dedupe_evaluate lc t p = Some plan"
    and "l \<in> set (concat (map elided_lines (edits plan)))"
  shows "\<exists>i j. i < j \<and> j < length (stale_candidates t p) \<and>
    line_index (stale_candidates t p ! i) = l \<and>
    label (stale_candidates t p ! j) = label (stale_candidates t p ! i) \<and>
    payload_sha256 (stale_candidates t p ! j) = payload_sha256 (stale_candidates t p ! i) \<and>
    payload_sha256 (stale_candidates t p ! i) \<noteq> None \<and>
    line_index (stale_candidates t p ! j) \<notin> set (concat (map elided_lines (edits plan)))"
proof -
  let ?cs = "stale_candidates t p" and ?ds = "dedupe_candidates t p"
  from dedupe_digest_plan [OF assms(2)] obtain chosen digest where c:
    "choose_with_digest lc t (floor_tokens p) ?ds = Some (chosen, digest, context_tokens_after plan)"
    "edits plan = [Elide chosen DEFAULT_STUB [], InjectDigest digest]"
    by (auto simp: digest_plan_of_def)
  from choose_with_digest_SomeE [OF c(1)] obtain k where
    "chosen = sort (map line_index (take k ?ds))" by metis
  then have chosen: "set chosen \<subseteq> line_index ` set ?ds" by (auto dest: in_set_takeD)
  have el: "set (concat (map elided_lines (edits plan))) = set chosen" using c(2) by simp
  then obtain d where "d \<in> set ?ds" "line_index d = l" using assms(3) chosen by auto
  then obtain i where i: "i < length ?cs" "i \<notin> set (dedupe_keep ?cs)" "line_index (?cs ! i) = l"
    by (auto simp: dedupe_candidates_def set_unkept)
  from set_dedupe_keep [OF this(1,2)] obtain j key where j:
    "dedupe_key (?cs ! i) = Some key" "i < j" "j < length ?cs" "dedupe_key (?cs ! j) = Some key"
    "j \<in> set (dedupe_keep ?cs)" by blast
  have "line_index (?cs ! j) \<notin> set chosen"
  proof
    assume "line_index (?cs ! j) \<in> set chosen"
    then obtain m where m: "m < length ?cs" "m \<notin> set (dedupe_keep ?cs)"
      "line_index (?cs ! m) = line_index (?cs ! j)"
      using chosen by (auto simp: dedupe_candidates_def set_unkept)
    then have "m = j" using j(3) distinct_candidate_lines [OF assms(1), of p]
      by (metis length_map nth_eq_iff_index_eq nth_map)
    then show False using m j by simp
  qed
  moreover have "label (?cs ! j) = label (?cs ! i)" "payload_sha256 (?cs ! j) = payload_sha256 (?cs ! i)"
    "payload_sha256 (?cs ! i) \<noteq> None"
    using j(1,4) by (auto simp: dedupe_key_def split: option.splits)
  ultimately show ?thesis using i j el by metis
qed

definition sample_copy :: "nat \<Rightarrow> transcript_item" where
  "sample_copy l = (sample_output l)\<lparr>payload_sha256 := Some (lit ''aa'')\<rparr>"

definition sample_copies :: transcript where
  "sample_copies = (sample_session Codex 0)\<lparr>items := map sample_copy [0..<10]\<rparr>"

lemma sample_copies_simps [simp]:
  "line_index (sample_copy l) = l" "is_elidable (sample_copy l)"
  "dedupe_key (sample_copy l) = Some (lit ''ls'', lit ''aa'')"
  "context_tokens sample_copies = 300000" "items sample_copies = map sample_copy [0..<10]"
  by (simp_all add: sample_copy_def is_elidable_def is_elidable_payload_def sample_output_def
      dedupe_key_def sample_copies_def sample_session_def context_tokens_def reported_context_def
      default_usage_def)

lemma sample_copies_stale: "stale_candidates sample_copies default_policy = map sample_copy [0, 1]"
  by (simp add: stale_candidates_eq elidable_items_def filter_id_conv default_keep upt_rec)

theorem dedupe_keeps_newest_copy_witness:
  "\<exists>plan. dedupe_evaluate id sample_copies default_policy = Some plan \<and>
     elided_lines (hd (edits plan)) = [0] \<and>
     payload_sha256 (stale_candidates sample_copies default_policy ! 0) \<noteq> None"
proof -
  let ?t = sample_copies
  have cs: "dedupe_candidates ?t default_policy = [sample_copy 0]"
    by (simp add: dedupe_candidates_def sample_copies_stale unkept_def dedupe_keep_def
        group_positions_def)
  obtain chosen digest after where c:
    "choose_with_digest id ?t 40000 [sample_copy 0] = Some (chosen, digest, after)"
    using choose_with_digest_Some_iff [of id ?t 40000 "[sample_copy 0]"] by auto
  from choose_with_digest_SomeE [OF c] obtain k where "0 < k" "k \<le> 1"
    "chosen = sort (map line_index (take k [sample_copy 0]))" by auto
  then have ch: "chosen = [0]" by (cases k) auto
  obtain plan where plan: "dedupe_evaluate id ?t default_policy = Some plan"
    "edits plan = [Elide [0] DEFAULT_STUB [], InjectDigest digest]"
    using c ch by (simp add: dedupe_evaluate_def Let_def default_trigger cs default_keep
        sample_copies_stale)
  have "distinct_lines ?t" by (simp add: distinct_lines_def comp_def)
  from dedupe_keeps_newest_copy [OF this plan(1), of 0] plan(2)
  obtain i where "line_index (stale_candidates ?t default_policy ! i) = 0"
    "i < length (stale_candidates ?t default_policy)"
    "payload_sha256 (stale_candidates ?t default_policy ! i) \<noteq> None" by auto
  then have "payload_sha256 (stale_candidates ?t default_policy ! 0) \<noteq> None"
    by (cases i) (auto simp: sample_copies_stale)
  then show ?thesis using plan by simp
qed

section \<open>Micro\<close>

definition MICRO_KEEP_PER_LABEL :: nat where "MICRO_KEEP_PER_LABEL = 2"

definition micro_tool :: "(ustr \<Rightarrow> ustr) \<Rightarrow> transcript_item \<Rightarrow> ustr option" where
  "micro_tool lc item = Some (lc (tool_name (label item)))"

definition micro_keep :: "(ustr \<Rightarrow> ustr) \<Rightarrow> transcript_item list \<Rightarrow> nat list" where
  "micro_keep lc elidable =
     concat (map (\<lambda>(_, positions). take MICRO_KEEP_PER_LABEL (rev positions))
       (group_positions (micro_tool lc) elidable))"

definition micro_candidates :: "(ustr \<Rightarrow> ustr) \<Rightarrow> transcript \<Rightarrow> transcript_item list" where
  "micro_candidates lc t = unkept (micro_keep lc (elidable_items t)) (elidable_items t)"

definition micro_evaluate ::
  "(ustr \<Rightarrow> ustr) \<Rightarrow> transcript \<Rightarrow> policy_config \<Rightarrow> compaction_plan option" where
  "micro_evaluate lc t p =
     (let prior = context_tokens t in
      if prior < effective_trigger p then None
      else if elidable_items t = [] then None
      else
        case choose_with_digest lc t (floor_tokens p) (micro_candidates lc t) of
          None \<Rightarrow> None
        | Some (chosen, digest, after) \<Rightarrow>
            Some
              \<lparr>strategy = lit ''micro'',
               rationale = rationale_head prior p @ lit ''; micro-stubbing '' @ dec (length chosen) @
                 lit '' stale tool outputs'',
               edits = [Elide chosen DEFAULT_STUB [], InjectDigest digest],
               context_tokens_before = prior, context_tokens_after = after\<rparr>)"

lemma micro_digest_plan:
  "micro_evaluate lc t p = Some plan \<Longrightarrow> digest_plan_of lc t p (micro_candidates lc t) plan"
  by (auto simp: micro_evaluate_def digest_plan_of_def Let_def not_less
      split: if_splits option.splits)

interpretation micro: strategy_contract "micro_evaluate lc" for lc
  by unfold_locales (auto dest: micro_digest_plan simp: digest_plan_of_def)

text \<open>C27: \<open>micro\<close> can plan what the validator refuses: it keeps two outputs per tool whatever the
  policy protects, so on an idle session of three large outputs of one tool, within the eight
  newest outputs the default policy protects, it elides a protected output and its plan is
  rejected. The other file strategies decline there, so nothing else is proposed.\<close>

theorem micro_elides_protected_output:
  "case micro_evaluate id (sample_session Codex 3) default_policy of
     None \<Rightarrow> False
   | Some plan \<Rightarrow>
       elided_lines (hd (edits plan)) = [0] \<and>
       0 \<in> set (protected_lines (sample_session Codex 3) 8) \<and>
       isl (validate_edits (sample_session Codex 3) default_policy (edits plan)) \<and>
       elide_evaluate (sample_session Codex 3) default_policy = None \<and>
       cache_aware_evaluate id (sample_session Codex 3) default_policy = None \<and>
       structured_evaluate (sample_session Codex 3) default_policy = None"
proof -
  let ?t = "sample_session Codex 3"
  have el: "elidable_items ?t = map sample_output [0, 1, 2]"
    by (simp add: upt_rec numeral_2_eq_2)
  have stale: "stale_candidates ?t default_policy = []"
    by (simp add: stale_candidates_eq default_keep)
  have cs: "micro_candidates id ?t = [sample_output 0]"
    unfolding micro_candidates_def el
    by (simp add: unkept_def micro_keep_def group_positions_def micro_tool_def MICRO_KEEP_PER_LABEL_def)
  obtain chosen digest after where c:
    "choose_with_digest id ?t 40000 [sample_output 0] = Some (chosen, digest, after)"
    using choose_with_digest_Some_iff [of id ?t 40000 "[sample_output 0]"] by auto
  from choose_with_digest_SomeE [OF c] obtain k where "0 < k" "k \<le> 1"
    "chosen = sort (map line_index (take k [sample_output 0]))" by auto
  then have ch: "chosen = [0]" by (cases k) auto
  obtain plan where plan: "micro_evaluate id ?t default_policy = Some plan"
    "edits plan = [Elide [0] DEFAULT_STUB [], InjectDigest digest]"
    using c ch el by (simp add: micro_evaluate_def Let_def default_trigger cs default_keep)
  have prot: "0 \<in> set (protected_lines ?t 8)"
    unfolding protected_lines_eq by (simp add: image_comp comp_def)
  then have "\<not> elision_target ?t (keep_recent_tool_outputs default_policy) 0"
    by (simp add: elision_target_def default_keep)
  then have "validate_edits ?t default_policy (edits plan) \<noteq> Inr ()"
    unfolding validate_edits_iff plan plan_admissible_def by simp
  then have "isl (validate_edits ?t default_policy (edits plan))"
    by (cases "validate_edits ?t default_policy (edits plan)") auto
  moreover have "elide_evaluate ?t default_policy = None" by (simp add: elide_evaluate_None stale)
  moreover have "cache_aware_evaluate id ?t default_policy = None"
    using cache_aware_Some_iff [of id ?t default_policy] stale by blast
  moreover have "structured_evaluate ?t default_policy = None"
    by (simp add: structured_evaluate_def Let_def KEEP_TAIL_ITEMS_def)
  ultimately show ?thesis using plan prot by simp
qed

section \<open>Middle\<close>

definition middle_keep :: "policy_config \<Rightarrow> nat \<Rightarrow> nat list" where
  "middle_keep p n =
     (let keep_each = keep_recent_tool_outputs p;
          head = min keep_each n;
          tail = min keep_each (n - head)
      in [0..<head] @ [n - tail..<n])"

definition middle_candidates :: "transcript \<Rightarrow> policy_config \<Rightarrow> transcript_item list" where
  "middle_candidates t p = unkept (middle_keep p (length (elidable_items t))) (elidable_items t)"

definition middle_evaluate ::
  "(ustr \<Rightarrow> ustr) \<Rightarrow> transcript \<Rightarrow> policy_config \<Rightarrow> compaction_plan option" where
  "middle_evaluate lc t p =
     (let prior = context_tokens t in
      if prior < effective_trigger p then None
      else if elidable_items t = [] then None
      else
        let n = length (elidable_items t);
            head = min (keep_recent_tool_outputs p) n;
            tail = min (keep_recent_tool_outputs p) (n - head) in
        case choose_with_digest lc t (floor_tokens p) (middle_candidates t p) of
          None \<Rightarrow> None
        | Some (chosen, digest, after) \<Rightarrow>
            Some
              \<lparr>strategy = lit ''middle'',
               rationale = rationale_head prior p @ lit ''; keeping '' @ dec head @ lit '' head + '' @
                 dec tail @ lit '' tail, eliding '' @ dec (length chosen) @ lit '' middle outputs'',
               edits = [Elide chosen DEFAULT_STUB [], InjectDigest digest],
               context_tokens_before = prior, context_tokens_after = after\<rparr>)"

lemma middle_digest_plan:
  "middle_evaluate lc t p = Some plan \<Longrightarrow> digest_plan_of lc t p (middle_candidates t p) plan"
  by (auto simp: middle_evaluate_def digest_plan_of_def Let_def not_less
      split: if_splits option.splits)

lemma middle_position:
  "i < n \<Longrightarrow> i \<notin> set (middle_keep p n) \<Longrightarrow>
     keep_recent_tool_outputs p \<le> i \<and> i < n - keep_recent_tool_outputs p"
  by (auto simp: middle_keep_def Let_def)

lemma set_middle_candidates:
  "set (middle_candidates t p) \<subseteq> set (stale_candidates t p)"
proof
  fix x assume "x \<in> set (middle_candidates t p)"
  then obtain i where i: "i < length (elidable_items t)"
    "i \<notin> set (middle_keep p (length (elidable_items t)))" "x = elidable_items t ! i"
    by (auto simp: middle_candidates_def set_unkept)
  from middle_position [OF this(1,2)] i show "x \<in> set (stale_candidates t p)"
    by (auto simp: stale_candidates_eq in_set_conv_nth intro!: exI [of _ i])
qed

lemma middle_candidates_ok:
  assumes "distinct_lines t"
  shows "distinct (map line_index (middle_candidates t p)) \<and>
    list_all (\<lambda>i. elision_target t (keep_recent_tool_outputs p) (line_index i)) (middle_candidates t p) \<and>
    length (middle_candidates t p) \<le> length (items t)"
  using set_middle_candidates [of t p] stale_candidate_target [OF assms, of _ p]
    unkept_ok(1) [OF distinct_elidable_lines [OF assms]]
    le_trans [OF unkept_ok(2) [OF distinct_elidable_lines [OF assms]] length_elidable_items]
  by (auto simp: list_all_iff middle_candidates_def)

interpretation middle: admissible_strategy "middle_evaluate lc" for lc
  by (rule digest_strategy_contract, erule middle_digest_plan, erule middle_candidates_ok)

end
