(* ===== verification/Cliff.thy ===== *)
theory Cliff
  imports Strategy
begin

text \<open>
  The strategy \<open>cliff\<close> (\<open>strategy/cliff.rs\<close>): head and newest assistant steps stay byte for byte,
  older tool results over a size limit are dropped. Beside the validator contract this theory
  proves what the source's documentation promises: compacting a compacted copy later yields what
  a single compaction from the source would.
\<close>

section \<open>The range that may be dropped from\<close>

definition assistant_side :: "transcript_item \<Rightarrow> bool" where
  "assistant_side item \<longleftrightarrow> kind item \<in> {Assistant, ToolCall, Reasoning}"

fun turn_starts_from :: "nat \<Rightarrow> bool \<Rightarrow> transcript_item list \<Rightarrow> nat list" where
  "turn_starts_from position previous_assistant [] = []"
| "turn_starts_from position previous_assistant (item # rest) =
     (if est_tokens item = 0 then turn_starts_from (Suc position) previous_assistant rest
      else
        let current = assistant_side item;
            starts = turn_starts_from (Suc position) current rest
        in if current \<and> \<not> previous_assistant then position # starts else starts)"

definition turn_starts :: "transcript_item list \<Rightarrow> nat list" where
  "turn_starts its = turn_starts_from 0 False its"

definition compactable_range :: "transcript_item list \<Rightarrow> nat \<Rightarrow> (nat \<times> nat) option" where
  "compactable_range its keep =
     (let starts = turn_starts its;
          older = unprotected_len (length starts) keep
      in if older = 0 then None
         else
           let head_end = starts ! 0;
               tail_start = (if older < length starts then starts ! older else length its)
           in if head_end < tail_start then Some (head_end, tail_start) else None)"

section \<open>The strategy\<close>

definition CLIFF_STUB :: ustr where
  "CLIFF_STUB = lit ''[tool result dropped by gobstopper cliff: {bytes} bytes]''"

definition over_limit :: "policy_config \<Rightarrow> transcript_item \<Rightarrow> bool" where
  "over_limit p item \<longleftrightarrow>
     (case elidable_bytes item of Some b \<Rightarrow> b > result_max_bytes p | None \<Rightarrow> False)"

fun cliff_walk ::
  "policy_config \<Rightarrow> nat list \<Rightarrow> transcript_item list \<Rightarrow> nat list \<Rightarrow> nat \<Rightarrow> u64 \<Rightarrow> nat list \<times> nat \<times> u64" where
  "cliff_walk p protected [] chosen kept_small projected = (chosen, kept_small, projected)"
| "cliff_walk p protected (item # rest) chosen kept_small projected =
     (if \<not> is_elidable item \<or> line_index item \<in> set protected
      then cliff_walk p protected rest chosen kept_small projected
      else if over_limit p item
      then cliff_walk p protected rest (chosen @ [line_index item]) kept_small
        (sat_sub projected (estimated_elision_savings item))
      else cliff_walk p protected rest chosen (Suc kept_small) projected)"

definition cliff_evaluate :: "transcript \<Rightarrow> policy_config \<Rightarrow> compaction_plan option" where
  "cliff_evaluate t p =
     (let prior = context_tokens t in
      if prior < effective_trigger p then None
      else
        case compactable_range (items t) (keep_recent_turns p) of
          None \<Rightarrow> None
        | Some (head_end, tail_start) \<Rightarrow>
            let protected = protected_lines t (keep_recent_tool_outputs p);
                (chosen, kept_small, projected) =
                  cliff_walk p protected (drop head_end (take tail_start (items t))) [] 0 prior
            in if chosen = [] then None
               else
                 let steps = length (turn_starts (items t)) in
                 Some
                   \<lparr>strategy = lit ''cliff'',
                    rationale = rationale_head prior p @ lit ''; head and newest '' @
                      dec (min (keep_recent_turns p) steps) @ lit '' of '' @ dec steps @
                      lit '' assistant steps kept verbatim; dropping '' @ dec (length chosen) @
                      lit '' older tool results over '' @ dec (unat (result_max_bytes p)) @
                      lit '' bytes, keeping '' @ dec kept_small @ lit '' smaller ones'',
                    edits = [Elide (sort chosen) CLIFF_STUB []],
                    context_tokens_before = prior, context_tokens_after = projected\<rparr>)"

text \<open>The items the strategy drops, without the loop.\<close>

definition cliff_range :: "transcript \<Rightarrow> policy_config \<Rightarrow> transcript_item list" where
  "cliff_range t p =
     (case compactable_range (items t) (keep_recent_turns p) of
        Some (head_end, tail_start) \<Rightarrow> drop head_end (take tail_start (items t))
      | None \<Rightarrow> [])"

definition cliff_drops :: "policy_config \<Rightarrow> nat list \<Rightarrow> transcript_item \<Rightarrow> bool" where
  "cliff_drops p protected i \<longleftrightarrow> is_elidable i \<and> line_index i \<notin> set protected \<and> over_limit p i"

definition cliff_chosen :: "transcript \<Rightarrow> policy_config \<Rightarrow> transcript_item list" where
  "cliff_chosen t p =
     filter (cliff_drops p (protected_lines t (keep_recent_tool_outputs p))) (cliff_range t p)"

lemma cliff_walk_eq:
  "cliff_walk p protected its chosen kept projected =
     (chosen @ map line_index (filter (cliff_drops p protected) its),
      kept + length (filter (\<lambda>i. is_elidable i \<and> line_index i \<notin> set protected \<and> \<not> over_limit p i) its),
      fold (\<lambda>i acc. sat_sub acc (estimated_elision_savings i)) (filter (cliff_drops p protected) its)
        projected)"
  by (induction p protected its chosen kept projected rule: cliff_walk.induct)
    (auto simp: cliff_drops_def)

lemma cliff_evaluate_Some_iff:
  "cliff_evaluate t p \<noteq> None \<longleftrightarrow> effective_trigger p \<le> context_tokens t \<and> cliff_chosen t p \<noteq> []"
  by (auto simp: cliff_evaluate_def Let_def cliff_walk_eq cliff_chosen_def cliff_range_def not_less
      split: option.splits prod.splits)

lemma cliff_evaluate_Some:
  "cliff_evaluate t p = Some plan \<Longrightarrow>
     effective_trigger p \<le> context_tokens t \<and> context_tokens_before plan = context_tokens t \<and>
     edits plan = [Elide (sort (map line_index (cliff_chosen t p))) CLIFF_STUB []] \<and>
     context_tokens_after plan = fold (\<lambda>i acc. sat_sub acc (estimated_elision_savings i))
       (cliff_chosen t p) (context_tokens t)"
  by (auto simp: cliff_evaluate_def Let_def cliff_walk_eq cliff_chosen_def cliff_range_def not_less
      split: option.splits prod.splits if_splits)

lemma cliff_stub_ok:
  "str_len CLIFF_STUB \<le> 96" "\<not> contains_str CLIFF_STUB (lit ''{kind}'')" "\<not> has_line_break CLIFF_STUB"
  by (simp_all add: CLIFF_STUB_def str_len_def utf8_len_def has_line_break_def contains_str_def)

lemma cliff_range_subset: "set (cliff_range t p) \<subseteq> set (items t)"
  by (auto simp: cliff_range_def dest: in_set_dropD in_set_takeD split: option.splits)

lemma cliff_range_ok:
  "distinct_lines t \<Longrightarrow> distinct (map line_index (cliff_range t p)) \<and> length (cliff_range t p) \<le> length (items t)"
  by (auto simp: cliff_range_def distinct_lines_def simp flip: drop_map take_map split: option.splits)

interpretation cliff: admissible_strategy cliff_evaluate
proof
  fix t p plan assume "cliff_evaluate t p = Some plan"
  note s = cliff_evaluate_Some [OF this]
  then show "effective_trigger p \<le> context_tokens t" "context_tokens_before plan = context_tokens t"
    by blast+
  assume r: "plan_ready t (edits plan)"
  then have d: "distinct_lines t" "length (items t) \<le> MAX_ITEMS" by (simp_all add: plan_ready_def)
  have "length (cliff_chosen t p) \<le> length (cliff_range t p)"
    unfolding cliff_chosen_def by (rule length_filter_le)
  then have "length (sort (map line_index (cliff_chosen t p))) \<le> MAX_ITEMS"
    using cliff_range_ok [OF d(1), of p] d(2) by simp
  moreover have "distinct (sort (map line_index (cliff_chosen t p)))"
    using cliff_range_ok [OF d(1), of p] by (simp add: cliff_chosen_def distinct_map_filter)
  moreover have "list_all (elision_target t (keep_recent_tool_outputs p))
      (sort (map line_index (cliff_chosen t p)))"
    using cliff_range_subset [of t p]
    by (auto simp: list_all_iff elision_target_def cliff_chosen_def cliff_drops_def)
  ultimately show "plan_admissible t (keep_recent_tool_outputs p) (edits plan)"
    using single_elide_admissible [OF d(2,1)] cliff_stub_ok s by simp
qed

section \<open>Compacting again\<close>

text \<open>Turn starts of an extended conversation, and of one whose payloads were replaced.\<close>

definition last_side :: "bool \<Rightarrow> transcript_item list \<Rightarrow> bool" where
  "last_side b its = fold (\<lambda>i b. if est_tokens i = 0 then b else assistant_side i) its b"

lemma last_side_simps [simp]:
  "last_side b [] = b"
  "last_side b (i # xs) = last_side (if est_tokens i = 0 then b else assistant_side i) xs"
  by (simp_all add: last_side_def)

lemma turn_starts_append:
  "turn_starts_from pos b (xs @ ys) =
     turn_starts_from pos b xs @ turn_starts_from (pos + length xs) (last_side b xs) ys"
  by (induction xs arbitrary: pos b) (simp_all add: Let_def)

lemma turn_starts_bounds: "x \<in> set (turn_starts_from pos b xs) \<Longrightarrow> pos \<le> x \<and> x < pos + length xs"
  by (induction pos b xs rule: turn_starts_from.induct) (fastforce simp: Let_def split: if_splits)+

lemma sorted_turn_starts: "sorted_wrt (<) (turn_starts_from pos b xs)"
proof (induction pos b xs rule: turn_starts_from.induct)
  case (2 pos b i xs)
  then show ?case using turn_starts_bounds [of _ "Suc pos" "assistant_side i" xs]
    by (auto simp: Let_def Suc_le_eq)
qed simp

lemma turn_starts_map:
  assumes "\<And>i. est_tokens (g i) = 0 \<longleftrightarrow> est_tokens i = 0" "\<And>i. kind (g i) = kind i"
  shows "turn_starts_from pos b (map g xs) = turn_starts_from pos b xs"
proof -
  have "assistant_side (g i) = assistant_side i" for i using assms(2) by (simp add: assistant_side_def)
  then show ?thesis using assms(1) by (induction xs arbitrary: pos b) (simp_all add: Let_def)
qed

lemma compactable_range_append:
  assumes "compactable_range xs k = Some (h, e)"
  shows "\<exists>e'. compactable_range (xs @ ys) k = Some (h, e') \<and> e \<le> e' \<and> h < e \<and> e \<le> length xs"
proof -
  let ?S = "turn_starts xs" and ?S' = "turn_starts (xs @ ys)"
  obtain T where T: "?S' = ?S @ T" by (simp add: turn_starts_def turn_starts_append)
  have sorted: "sorted ?S'"
    using sorted_turn_starts unfolding turn_starts_def by (metis strict_sorted_imp_sorted)
  have older: "0 < length ?S - k" and h: "h = ?S ! 0" and lt: "h < e"
    and e: "e = (if length ?S - k < length ?S then ?S ! (length ?S - k) else length xs)"
    using assms by (auto simp: compactable_range_def Let_def unprotected_len_def split: if_splits)
  define e' where "e' = (if length ?S' - k < length ?S' then ?S' ! (length ?S' - k) else length (xs @ ys))"
  have elen: "e \<le> length xs"
  proof (cases "length ?S - k < length ?S")
    case True
    then have "?S ! (length ?S - k) \<in> set (turn_starts_from 0 False xs)"
      unfolding turn_starts_def [symmetric] by simp
    from turn_starts_bounds [OF this] show ?thesis using e True by simp
  qed (use e in simp)
  have "e \<le> e'"
  proof (cases "length ?S - k < length ?S")
    case True
    then have k: "0 < k" by linarith
    then have "length ?S - k \<le> length ?S' - k" "length ?S' - k < length ?S'"
      using T older by simp_all
    then have "?S' ! (length ?S - k) \<le> e'" unfolding e'_def
      using sorted by (simp add: sorted_nth_mono)
    then show ?thesis using e True T by (simp add: nth_append)
  next
    case False
    then have "k = 0" using older by (cases k) auto
    then show ?thesis using e False by (simp add: e'_def)
  qed
  moreover have "?S \<noteq> []" using older by auto
  then have "?S' ! 0 = h" "0 < length ?S' - k" using h older T by (simp_all add: nth_append)
  ultimately show ?thesis using lt elen
    by (intro exI [of _ e']) (simp add: compactable_range_def Let_def unprotected_len_def e'_def)
qed

lemma compactable_range_map:
  assumes "\<And>i. est_tokens (g i) = 0 \<longleftrightarrow> est_tokens i = 0" "\<And>i. kind (g i) = kind i"
  shows "compactable_range (map g xs) k = compactable_range xs k"
  by (simp add: compactable_range_def turn_starts_def turn_starts_map [OF assms] Let_def)

text \<open>The copy an adapter writes: the elided records keep their place and kind but hold a stub,
  whose size \<open>f\<close> estimates, and no payload.\<close>

definition drop_payloads :: "nat list \<Rightarrow> (transcript_item \<Rightarrow> u64) \<Rightarrow> transcript_item \<Rightarrow> transcript_item" where
  "drop_payloads ls f i =
     (if line_index i \<in> set ls then i\<lparr>elidable_bytes := None, est_tokens := (if est_tokens i = 0 then 0 else f i)\<rparr>
      else i)"

lemma drop_payloads_simps [simp]:
  "line_index (drop_payloads ls f i) = line_index i" "kind (drop_payloads ls f i) = kind i"
  "is_elidable (drop_payloads ls f i) \<longleftrightarrow> is_elidable i \<and> line_index i \<notin> set ls"
  "line_index i \<notin> set ls \<Longrightarrow> drop_payloads ls f i = i"
  by (auto simp: drop_payloads_def is_elidable_def is_elidable_payload_def)

lemma take_filter_id: "(\<And>x. x \<in> set (take k xs) \<Longrightarrow> P x) \<Longrightarrow> take k (filter P xs) = take k xs"
proof (induction xs arbitrary: k)
  case (Cons x xs)
  then show ?case by (cases k) auto
qed simp

lemma protected_after_drop:
  assumes "set ls \<inter> set (protected_lines t k) = {}"
  shows "protected_lines (t\<lparr>items := map (drop_payloads ls f) (items t), usage := u\<rparr>) k = protected_lines t k"
proof -
  let ?R = "filter is_elidable (rev (items t))"
  have "filter is_elidable (rev (map (drop_payloads ls f) (items t))) =
      map (drop_payloads ls f) (filter (\<lambda>i. line_index i \<notin> set ls) ?R)"
    by (simp add: rev_map filter_map comp_def conj_commute)
  moreover have "take k (filter (\<lambda>i. line_index i \<notin> set ls) ?R) = take k ?R"
    by (rule take_filter_id) (use assms in \<open>auto simp: protected_lines_def\<close>)
  ultimately show ?thesis by (simp add: protected_lines_def take_map comp_def)
qed

lemma protected_append:
  assumes "distinct (map line_index (items t @ new))"
    and "set ls \<subseteq> line_index ` set (items t)" "set ls \<inter> set (protected_lines t k) = {}"
  shows "set ls \<inter> set (protected_lines (t\<lparr>items := items t @ new\<rparr>) k) = {}"
proof -
  let ?N = "filter is_elidable (rev new)" and ?R = "filter is_elidable (rev (items t))"
  have "set (take (k - length ?N) ?R) \<subseteq> set (take k ?R)" by (rule set_take_subset_set_take) simp
  moreover have "line_index ` set new \<inter> set ls = {}" using assms(1,2) by auto
  moreover have "set (take k ?N) \<subseteq> set new" by (auto dest: in_set_takeD)
  moreover have "protected_lines (t\<lparr>items := items t @ new\<rparr>) k =
      map line_index (take k ?N) @ map line_index (take (k - length ?N) ?R)"
    by (simp add: protected_lines_def)
  moreover have "set (protected_lines t k) = line_index ` set (take k ?R)"
    by (simp add: protected_lines_def)
  ultimately show ?thesis using assms(3) by (simp only: set_append set_map) blast
qed

lemma cliff_recompaction_chosen:
  fixes s new p f u
  defines "ls \<equiv> map line_index (cliff_chosen s p)" and "src \<equiv> s\<lparr>items := items s @ new\<rparr>"
  defines "copy \<equiv> src\<lparr>items := map (drop_payloads ls f) (items s) @ new, usage := u\<rparr>"
  assumes dist: "distinct_lines src" and live: "\<And>i. est_tokens i \<noteq> 0 \<Longrightarrow> f i \<noteq> 0"
  shows "cliff_chosen copy p = filter (\<lambda>i. line_index i \<notin> set ls) (cliff_chosen src p)"
    "set ls \<subseteq> line_index ` set (cliff_chosen src p)"
proof -
  let ?g = "drop_payloads ls f" and ?k = "keep_recent_tool_outputs p"
  have lsub: "set ls \<subseteq> line_index ` set (items s)"
    using cliff_range_subset [of s p] by (auto simp: ls_def cliff_chosen_def)
  have lprot: "set ls \<inter> set (protected_lines s ?k) = {}"
    by (auto simp: ls_def cliff_chosen_def cliff_drops_def)
  have d: "distinct (map line_index (items s @ new))" using dist by (simp add: src_def distinct_lines_def)
  have prot: "set ls \<inter> set (protected_lines src ?k) = {}"
    unfolding src_def by (rule protected_append [OF d lsub lprot])
  have "line_index i \<notin> set ls" if "i \<in> set new" for i using d lsub that by auto
  then have "map ?g new = new" by (simp add: map_idI)
  then have copy: "copy = src\<lparr>items := map ?g (items src), usage := u\<rparr>"
    by (simp add: copy_def src_def)
  have g: "est_tokens (?g i) = 0 \<longleftrightarrow> est_tokens i = 0" for i using live by (simp add: drop_payloads_def)
  have range: "cliff_range copy p = map ?g (cliff_range src p)"
    by (simp add: cliff_range_def copy compactable_range_map [OF g] drop_map take_map split: option.split)
  have pcopy: "protected_lines copy ?k = protected_lines src ?k"
    unfolding copy by (rule protected_after_drop [OF prot])
  have "cliff_drops p (protected_lines src ?k) (?g i) \<longleftrightarrow>
      cliff_drops p (protected_lines src ?k) i \<and> line_index i \<notin> set ls" for i
    by (cases "line_index i \<in> set ls") (auto simp: cliff_drops_def)
  then have "cliff_chosen copy p =
      map ?g (filter (\<lambda>i. line_index i \<notin> set ls) (cliff_chosen src p))"
    unfolding cliff_chosen_def range pcopy
    by (simp add: filter_map comp_def conj_commute)
  also have "\<dots> = filter (\<lambda>i. line_index i \<notin> set ls) (cliff_chosen src p)"
    by (rule map_idI) simp
  finally show "cliff_chosen copy p = filter (\<lambda>i. line_index i \<notin> set ls) (cliff_chosen src p)" .
  show "set ls \<subseteq> line_index ` set (cliff_chosen src p)"
  proof
    fix l assume l: "l \<in> set ls"
    then obtain i where i: "i \<in> set (cliff_range s p)" "line_index i = l"
      "cliff_drops p (protected_lines s ?k) i" by (auto simp: ls_def cliff_chosen_def)
    then obtain h e where he: "compactable_range (items s) (keep_recent_turns p) = Some (h, e)"
      "i \<in> set (drop h (take e (items s)))"
      by (cases "compactable_range (items s) (keep_recent_turns p)") (auto simp: cliff_range_def)
    from compactable_range_append [OF he(1), of new] obtain e' where e':
      "compactable_range (items src) (keep_recent_turns p) = Some (h, e')" "e \<le> e'" "e \<le> length (items s)"
      by (auto simp: src_def)
    have "i \<in> set (drop h (take e' (items src)))"
    proof -
      have "take e (items s) = take e (take e' (items src))" using e'(2,3) by (simp add: src_def min_absorb1)
      then show ?thesis using he(2) by (metis drop_take in_set_takeD)
    qed
    then have "i \<in> set (cliff_range src p)" using e'(1) by (simp add: cliff_range_def)
    moreover have "cliff_drops p (protected_lines src ?k) i"
      using i(2,3) l prot by (auto simp: cliff_drops_def)
    ultimately show "l \<in> line_index ` set (cliff_chosen src p)" using i(2) by (auto simp: cliff_chosen_def)
  qed
qed



definition sample_step :: "nat \<Rightarrow> transcript_item list" where
  "sample_step n = [(sample_output (2 * n))\<lparr>kind := ToolCall, elidable_bytes := None\<rparr>,
     sample_output (2 * n + 1)]"

definition sample_steps :: "nat \<Rightarrow> transcript" where
  "sample_steps n = (sample_session Codex 0)\<lparr>items := concat (map sample_step [0..<n])\<rparr>"

definition sample_policy :: policy_config where
  "sample_policy = default_policy\<lparr>keep_recent_tool_outputs := 1, keep_recent_turns := 1\<rparr>"

lemma sample_policy_simps [simp]:
  "effective_trigger sample_policy = 250000" "keep_recent_tool_outputs sample_policy = 1"
  "keep_recent_turns sample_policy = 1" "result_max_bytes sample_policy = 500"
proof -
  have "validate_policy sample_policy = Inr ()"
    by (simp add: validate_policy_def sample_policy_def default_policy_def MAX_POLICY_TOKENS_def
        MAX_ITEMS_def MAX_INTERVAL_SECS_def)
  from effective_trigger_facts(2) [OF this] show "effective_trigger sample_policy = 250000"
    by (simp add: sample_policy_def default_policy_def)
qed (simp_all add: sample_policy_def default_policy_def)

lemma sample_steps_items:
  "items (sample_steps 3) = concat (map sample_step [0, 1, 2])"
  "items (sample_steps 4) = concat (map sample_step [0, 1, 2, 3])"
  by (simp_all add: sample_steps_def upt_rec numeral_2_eq_2 numeral_3_eq_3)

lemmas sample_steps_eval = cliff_chosen_def cliff_range_def compactable_range_def turn_starts_def
  sample_step_def assistant_side_def sample_output_def Let_def unprotected_len_def cliff_drops_def
  over_limit_def is_elidable_def is_elidable_payload_def protected_lines_def

lemma sample_steps_chosen:
  "map line_index (cliff_chosen (sample_steps 3) sample_policy) = [1, 3]"
  "map line_index (cliff_chosen (sample_steps 4) sample_policy) = [1, 3, 5]"
  by (simp_all add: sample_steps_items sample_steps_eval)

lemma sample_steps_context [simp]:
  "context_tokens (sample_steps n) = 300000"
  "context_tokens (sample_steps n\<lparr>items := x\<rparr>) = 300000"
  by (simp_all add: sample_steps_def sample_session_def context_tokens_def reported_context_def
      default_usage_def)


end
