(* ===== verification/Scored.thy ===== *)
theory Scored
  imports Strategy "HOL-Library.Product_Lexorder"
begin

text \<open>
  The strategy \<open>scored\<close> (\<open>strategy/scored.rs\<close>): candidates with keep scores, the smallest tailward
  window that can reach the target, and the lowest scores of that window elided first. The binary
  heap of the source is a priority queue with a total order on its entries; here it is a sorted
  list over the library's \<open>linorder\<close>. \<open>f64\<close> values print through the argument \<open>show_f64\<close>.
\<close>

section \<open>Heap entries\<close>

text \<open>\<open>Reverse((key, Reverse(savings), line_index, idx))\<close>: the least key pops first, and for equal
  keys the largest savings.\<close>

datatype heap_entry = Entry (e_key: u64) (e_savings: u64) (e_line: nat) (e_index: nat)

definition entry_rank :: "heap_entry \<Rightarrow> nat \<times> nat \<times> nat \<times> nat" where
  "entry_rank e = (unat (e_key e), 2 ^ 64 - unat (e_savings e), e_line e, e_index e)"

lemma entry_rank_inject: "entry_rank a = entry_rank b \<longleftrightarrow> a = b"
proof
  assume r: "entry_rank a = entry_rank b"
  have "unat (e_savings a) < 2 ^ 64" "unat (e_savings b) < 2 ^ 64"
    using unat_lt_exp [of "e_savings a"] unat_lt_exp [of "e_savings b"] by simp_all
  moreover have "2 ^ 64 - unat (e_savings a) = 2 ^ 64 - unat (e_savings b)"
    using r by (simp only: entry_rank_def prod.inject)
  ultimately have "unat (e_savings a) = unat (e_savings b)" by linarith
  moreover have "unat (e_key a) = unat (e_key b)" "e_line a = e_line b" "e_index a = e_index b"
    using r by (simp_all only: entry_rank_def prod.inject)
  ultimately show "a = b" by (cases a, cases b) (simp add: word_unat_eq_iff)
qed simp

instantiation heap_entry :: linorder
begin

definition less_eq_heap_entry :: "heap_entry \<Rightarrow> heap_entry \<Rightarrow> bool" where
  "a \<le> b \<longleftrightarrow> entry_rank a \<le> entry_rank b"

definition less_heap_entry :: "heap_entry \<Rightarrow> heap_entry \<Rightarrow> bool" where
  "a < b \<longleftrightarrow> entry_rank a < entry_rank b"

instance
  by standard
    (auto simp: less_eq_heap_entry_def less_heap_entry_def less_le_not_le [of "entry_rank _"]
      simp flip: entry_rank_inject)

end

section \<open>Candidates and scores\<close>

record scored_item =
  item_index :: nat
  keep_probability :: f64

definition scored_candidates :: "transcript \<Rightarrow> policy_config \<Rightarrow> nat list" where
  "scored_candidates t p =
     (let elidable = filter (\<lambda>i. is_elidable (items t ! i)) [0..<length (items t)];
          keep_from = unprotected_len (length elidable) (keep_recent_tool_outputs p)
      in take (min keep_from (length elidable)) elidable)"

definition add_score :: "f64 option \<Rightarrow> scored_item \<Rightarrow> (nat \<rightharpoonup> f64) \<Rightarrow> (nat \<rightharpoonup> f64)" where
  "add_score threshold s m =
     (case m (item_index s) of
        None \<Rightarrow> m(item_index s \<mapsto> keep_probability s)
      | Some _ \<Rightarrow> m(item_index s \<mapsto> if threshold \<noteq> None then NaN else keep_probability s))"

definition score_map :: "f64 option \<Rightarrow> scored_item list \<Rightarrow> (nat \<rightharpoonup> f64)" where
  "score_map threshold scores = fold (add_score threshold) scores Map.empty"

definition below_cutoff :: "(nat \<rightharpoonup> f64) \<Rightarrow> f64 \<Rightarrow> nat \<Rightarrow> bool" where
  "below_cutoff m cutoff i \<longleftrightarrow>
     (case m i of Some s \<Rightarrow> score_in_unit s \<and> f64_less s cutoff | None \<Rightarrow> False)"

definition scored_eligible :: "transcript \<Rightarrow> policy_config \<Rightarrow> (nat \<rightharpoonup> f64) \<Rightarrow> nat list" where
  "scored_eligible t p m =
     (case keep_score_threshold p of
        None \<Rightarrow> scored_candidates t p
      | Some cutoff \<Rightarrow> filter (below_cutoff m cutoff) (scored_candidates t p))"

definition heap_entry_of :: "transcript \<Rightarrow> (nat \<rightharpoonup> f64) \<Rightarrow> nat \<Rightarrow> heap_entry" where
  "heap_entry_of t m i =
     (let item = items t ! i;
          prob = (case m i of Some s \<Rightarrow> s | None \<Rightarrow> f64_of_rat (1 / 2));
          key = f64_to_u64 (f64_mul (f64_clamp prob (Fin 0) (Fin 1)) (f64_of_rat 1000000))
      in Entry key (estimated_elision_savings item) (line_index item) i)"

section \<open>Selection\<close>

text \<open>Grow the window from the newest eligible candidate until its savings reach the goal.\<close>

fun window_heap ::
  "transcript \<Rightarrow> (nat \<rightharpoonup> f64) \<Rightarrow> u64 \<Rightarrow> nat list \<Rightarrow> heap_entry list \<Rightarrow> u64 \<Rightarrow> heap_entry list" where
  "window_heap t m window_savings [] heap gained = heap"
| "window_heap t m window_savings (i # rest) heap gained =
     (let heap = insort (heap_entry_of t m i) heap;
          gained = sat_add gained (estimated_elision_savings (items t ! i))
      in if gained \<ge> window_savings then heap else window_heap t m window_savings rest heap gained)"

fun pop_until ::
  "transcript \<Rightarrow> u64 \<Rightarrow> heap_entry list \<Rightarrow> nat list \<Rightarrow> u64 \<Rightarrow> nat list \<times> u64 \<times> heap_entry list" where
  "pop_until t target [] chosen accumulated = (chosen, accumulated, [])"
| "pop_until t target (e # heap) chosen accumulated =
     (if accumulated < target
      then pop_until t target heap (chosen @ [line_index (items t ! e_index e)])
        (sat_add accumulated (e_savings e))
      else (chosen, accumulated, e # heap))"

definition scored_after :: "(ustr \<Rightarrow> ustr) \<Rightarrow> transcript \<Rightarrow> nat list \<Rightarrow> u64 \<Rightarrow> u64" where
  "scored_after lc t chosen accumulated =
     sat_add (sat_sub (context_tokens t) accumulated) (estimate_overhead (state_card_digest lc t chosen))"

fun pop_for_digest ::
  "(ustr \<Rightarrow> ustr) \<Rightarrow> transcript \<Rightarrow> u64 \<Rightarrow> heap_entry list \<Rightarrow> nat list \<Rightarrow> u64 \<Rightarrow> nat list \<times> u64" where
  "pop_for_digest lc t flr [] chosen accumulated = (chosen, accumulated)"
| "pop_for_digest lc t flr (e # heap) chosen accumulated =
     (if scored_after lc t chosen accumulated > flr
      then pop_for_digest lc t flr heap (sort (chosen @ [line_index (items t ! e_index e)]))
        (sat_add accumulated (e_savings e))
      else (chosen, accumulated))"

definition scores_to_plan ::
  "(ustr \<Rightarrow> ustr) \<Rightarrow> (f64 \<Rightarrow> ustr) \<Rightarrow> transcript \<Rightarrow> policy_config \<Rightarrow> scored_item list \<Rightarrow>
     compaction_plan option" where
  "scores_to_plan lc show_f64 t p scores =
     (let prior = context_tokens t; threshold = keep_score_threshold p in
      if prior < effective_trigger p then None
      else if (case threshold of Some v \<Rightarrow> \<not> score_in_unit v | None \<Rightarrow> False) then None
      else
        let m = score_map threshold scores;
            eligible = scored_eligible t p m;
            retained = length (scored_candidates t p) - length eligible
        in if eligible = [] then None
           else
             let note = (case threshold of
                     Some cutoff \<Rightarrow> lit ''; '' @ dec retained @
                       lit '' outputs protected by keep-score cutoff '' @ show_f64 cutoff
                   | None \<Rightarrow> []);
                 target_savings = sat_sub prior (floor_tokens p);
                 window_savings = sat_add target_savings STATE_CARD_RESERVE_TOKENS;
                 heap = window_heap t m window_savings (rev eligible) [] 0;
                 (chosen, accumulated, heap) = pop_until t target_savings heap [] 0
             in if chosen = [] then None
                else
                  let (chosen, accumulated) =
                        pop_for_digest lc t (floor_tokens p) heap (sort chosen) accumulated;
                      first_elided = (case chosen of [] \<Rightarrow> 0 | l # _ \<Rightarrow> l);
                      prefix_items = length (filter (\<lambda>i. line_index i < first_elided) (items t))
                  in Some
                    \<lparr>strategy = lit ''scored'',
                     rationale = rationale_head prior p @ lit ''; eliding '' @ dec (length chosen) @
                       lit '' scored stale outputs, '' @ dec prefix_items @
                       lit '' prefix records unchanged'' @ note,
                     edits = [Elide chosen DEFAULT_STUB [],
                       InjectDigest (state_card_digest lc t chosen)],
                     context_tokens_before = prior,
                     context_tokens_after = scored_after lc t chosen accumulated\<rparr>)"

section \<open>What is selected\<close>

lemma map_scored_candidates: "map ((!) (items t)) (scored_candidates t p) = stale_candidates t p"
proof -
  have "map ((!) (items t)) (filter (\<lambda>i. is_elidable (items t ! i)) [0..<length (items t)]) =
      elidable_items t"
    by (metis (no_types, lifting) elidable_items_def filter_cong filter_map comp_apply map_nth)
  then show ?thesis
    by (simp add: scored_candidates_def stale_candidates_def Let_def flip: take_map)
      (metis length_map)
qed

lemma scored_candidates_range: "i \<in> set (scored_candidates t p) \<Longrightarrow> i < length (items t)"
  by (auto simp: scored_candidates_def Let_def dest: in_set_takeD)

lemma distinct_scored_candidates: "distinct (scored_candidates t p)"
  by (simp add: scored_candidates_def Let_def)

lemma window_heap_spec:
  "sorted heap \<Longrightarrow>
     \<exists>w. w \<le> length is \<and> (is \<noteq> [] \<longrightarrow> 0 < w) \<and> sorted (window_heap t m win is heap gained) \<and>
       mset (window_heap t m win is heap gained) = mset heap + mset (map (heap_entry_of t m) (take w is))"
proof (induction t m win "is" heap gained rule: window_heap.induct)
  case (1 t m win heap gained)
  then show ?case by simp
next
  case (2 t m win i rest heap gained)
  let ?heap = "insort (heap_entry_of t m i) heap"
  let ?g = "sat_add gained (estimated_elision_savings (items t ! i))"
  have s: "sorted ?heap" using 2(2) by (simp add: sorted_insort)
  show ?case
  proof (cases "?g \<ge> win")
    case True
    then show ?thesis using s by (intro exI [of _ 1]) simp
  next
    case False
    then obtain w where "w \<le> length rest" "sorted (window_heap t m win rest ?heap ?g)"
      "mset (window_heap t m win rest ?heap ?g) = mset ?heap + mset (map (heap_entry_of t m) (take w rest))"
      using 2(1) [OF refl refl _ s] by auto
    then show ?thesis using False by (intro exI [of _ "Suc w"]) (simp add: Let_def)
  qed
qed

lemma pop_until_spec:
  "pop_until t target heap chosen acc = (chosen', acc', heap') \<Longrightarrow>
     \<exists>q \<le> length heap. heap' = drop q heap \<and>
       chosen' = chosen @ map (\<lambda>e. line_index (items t ! e_index e)) (take q heap) \<and>
       acc' = fold (\<lambda>e a. sat_add a (e_savings e)) (take q heap) acc \<and>
       (q = length heap \<or> target \<le> acc')"
proof (induction t target heap chosen acc rule: pop_until.induct)
  case (2 t target e heap chosen acc)
  show ?case
  proof (cases "acc < target")
    case True
    with 2 obtain q where "q \<le> length heap" "heap' = drop q heap"
      "chosen' = chosen @ line_index (items t ! e_index e) # map (\<lambda>e. line_index (items t ! e_index e)) (take q heap)"
      "acc' = fold (\<lambda>e a. sat_add a (e_savings e)) (take q heap) (sat_add acc (e_savings e))"
      "q = length heap \<or> target \<le> acc'" by auto
    then show ?thesis by (intro exI [of _ "Suc q"]) simp
  next
    case False
    then show ?thesis using 2(2) by (intro exI [of _ 0]) auto
  qed
qed simp

lemma pop_for_digest_spec:
  "pop_for_digest lc t flr heap chosen acc = (chosen', acc') \<Longrightarrow> sorted chosen \<Longrightarrow>
     \<exists>q \<le> length heap. sorted chosen' \<and>
       mset chosen' = mset chosen + mset (map (\<lambda>e. line_index (items t ! e_index e)) (take q heap)) \<and>
       acc' = fold (\<lambda>e a. sat_add a (e_savings e)) (take q heap) acc \<and>
       (q = length heap \<or> scored_after lc t chosen' acc' \<le> flr)"
proof (induction lc t flr heap chosen acc rule: pop_for_digest.induct)
  case (2 lc t flr e heap chosen acc)
  show ?case
  proof (cases "scored_after lc t chosen acc > flr")
    case True
    with 2 obtain q where "q \<le> length heap" "sorted chosen'"
      "mset chosen' = mset (sort (chosen @ [line_index (items t ! e_index e)])) +
         mset (map (\<lambda>e. line_index (items t ! e_index e)) (take q heap))"
      "acc' = fold (\<lambda>e a. sat_add a (e_savings e)) (take q heap) (sat_add acc (e_savings e))"
      "q = length heap \<or> scored_after lc t chosen' acc' \<le> flr" by auto
    then show ?thesis by (intro exI [of _ "Suc q"]) simp
  next
    case False
    then show ?thesis using 2(2,3) by (intro exI [of _ 0]) auto
  qed
qed simp

text \<open>The plan in terms of ranks: the entries of a window of the newest eligible candidates, in
  priority order, and a prefix of them elided.\<close>

definition scored_ranking :: "transcript \<Rightarrow> policy_config \<Rightarrow> scored_item list \<Rightarrow> nat \<Rightarrow> heap_entry list" where
  "scored_ranking t p scores w =
     (let m = score_map (keep_score_threshold p) scores in
      sort (map (heap_entry_of t m) (take w (rev (scored_eligible t p m)))))"

lemma scores_to_plan_Some:
  assumes "scores_to_plan lc show_f64 t p scores = Some plan"
  obtains w q chosen where
    "w \<le> length (scored_eligible t p (score_map (keep_score_threshold p) scores))"
    "0 < q" "q \<le> w"
    "chosen = sort (map (\<lambda>e. line_index (items t ! e_index e)) (take q (scored_ranking t p scores w)))"
    "edits plan = [Elide chosen DEFAULT_STUB [], InjectDigest (state_card_digest lc t chosen)]"
    "context_tokens_after plan = scored_after lc t chosen
       (fold (\<lambda>e a. sat_add a (e_savings e)) (take q (scored_ranking t p scores w)) 0)"
    "q = w \<or> context_tokens_after plan \<le> floor_tokens p"
    "effective_trigger p \<le> context_tokens t" "context_tokens_before plan = context_tokens t"
proof -
  let ?m = "score_map (keep_score_threshold p) scores"
  let ?el = "scored_eligible t p ?m" and ?target = "sat_sub (context_tokens t) (floor_tokens p)"
  let ?line = "\<lambda>e. line_index (items t ! e_index e)"
  define heap where "heap = window_heap t ?m (sat_add ?target STATE_CARD_RESERVE_TOKENS) (rev ?el) [] 0"
  obtain ch1 acc1 heap1 where pop: "pop_until t ?target heap [] 0 = (ch1, acc1, heap1)"
    by (metis prod_cases3)
  obtain ch2 acc2 where dig: "pop_for_digest lc t (floor_tokens p) heap1 (sort ch1) acc1 = (ch2, acc2)"
    by (metis surj_pair)
  have plan: "effective_trigger p \<le> context_tokens t" "?el \<noteq> []" "ch1 \<noteq> []"
    "edits plan = [Elide ch2 DEFAULT_STUB [], InjectDigest (state_card_digest lc t ch2)]"
    "context_tokens_before plan = context_tokens t" "context_tokens_after plan = scored_after lc t ch2 acc2"
    using assms pop dig
    by (auto simp: scores_to_plan_def Let_def not_less simp flip: heap_def split: if_splits)
  obtain w where w: "w \<le> length ?el" "0 < w" "sorted heap"
    "mset heap = mset (map (heap_entry_of t ?m) (take w (rev ?el)))"
    using window_heap_spec [of "[]" "rev ?el" t ?m "sat_add ?target STATE_CARD_RESERVE_TOKENS" 0] plan(2)
    unfolding heap_def by auto
  then have heap: "heap = scored_ranking t p scores w"
    unfolding scored_ranking_def Let_def by (metis properties_for_sort)
  have len: "length heap = w" using w(1,4) by (metis length_map length_rev length_take min_absorb2 size_mset)
  from pop_until_spec [OF pop] obtain q1 where q1: "q1 \<le> length heap" "heap1 = drop q1 heap"
    "ch1 = map ?line (take q1 heap)" "acc1 = fold (\<lambda>e a. sat_add a (e_savings e)) (take q1 heap) 0" by auto
  from pop_for_digest_spec [OF dig] obtain q2 where q2: "q2 \<le> length heap1" "sorted ch2"
    "mset ch2 = mset ch1 + mset (map ?line (take q2 heap1))"
    "acc2 = fold (\<lambda>e a. sat_add a (e_savings e)) (take q2 heap1) acc1"
    "q2 = length heap1 \<or> scored_after lc t ch2 acc2 \<le> floor_tokens p" by auto
  have "mset ch2 = mset (map ?line (take (q1 + q2) heap))"
    using q1(2,3) q2(3) by (simp add: take_add)
  then have "ch2 = sort (map ?line (take (q1 + q2) heap))" using q2(2) by (metis properties_for_sort)
  moreover have "acc2 = fold (\<lambda>e a. sat_add a (e_savings e)) (take (q1 + q2) heap) 0"
    using q1(2,4) q2(4) by (simp add: take_add)
  moreover have "0 < q1" using plan(3) q1(3) by auto
  moreover have "q1 + q2 \<le> w" "q1 + q2 = w \<or> scored_after lc t ch2 acc2 \<le> floor_tokens p"
    using q1(1,2) q2(1,5) len by auto
  ultimately show thesis using that [of w "q1 + q2" ch2] w(1) plan heap by simp
qed

lemma heap_entry_of_index [simp]: "e_index (heap_entry_of t m i) = i" "e_line (heap_entry_of t m i) = line_index (items t ! i)"
  by (simp_all add: heap_entry_of_def Let_def)

lemma set_scored_ranking:
  "w \<le> length (scored_eligible t p (score_map (keep_score_threshold p) scores)) \<Longrightarrow>
     e \<in> set (scored_ranking t p scores w) \<Longrightarrow>
     e_index e \<in> set (scored_eligible t p (score_map (keep_score_threshold p) scores))"
  by (auto simp: scored_ranking_def Let_def dest: in_set_takeD)

lemma scored_eligible_candidates: "set (scored_eligible t p m) \<subseteq> set (scored_candidates t p)"
  by (auto simp: scored_eligible_def split: option.splits)

lemma distinct_scored_eligible: "distinct (scored_eligible t p m)"
  using distinct_scored_candidates [of t p] by (simp add: scored_eligible_def split: option.split)

lemma distinct_ranking_index: "distinct (map e_index (scored_ranking t p scores w))"
proof -
  let ?m = "score_map (keep_score_threshold p) scores"
  have "mset (map e_index (scored_ranking t p scores w)) = mset (take w (rev (scored_eligible t p ?m)))"
    by (simp add: scored_ranking_def Let_def comp_def multiset.map_comp)
  moreover have "distinct (take w (rev (scored_eligible t p ?m)))"
    using distinct_scored_eligible by simp
  ultimately show ?thesis by (metis mset_eq_imp_distinct_iff)
qed

text \<open>Below, \<open>chosen_indexes\<close> are the item indexes a plan elides.\<close>

definition chosen_indexes :: "transcript \<Rightarrow> policy_config \<Rightarrow> scored_item list \<Rightarrow> nat \<Rightarrow> nat \<Rightarrow> nat list" where
  "chosen_indexes t p scores w q = map e_index (take q (scored_ranking t p scores w))"

lemma chosen_indexes_candidates:
  assumes "w \<le> length (scored_eligible t p (score_map (keep_score_threshold p) scores))"
  shows "set (chosen_indexes t p scores w q) \<subseteq>
    set (scored_eligible t p (score_map (keep_score_threshold p) scores))"
  using set_scored_ranking [OF assms] by (auto simp: chosen_indexes_def dest: in_set_takeD)

lemma scored_target:
  assumes "distinct_lines t" "i \<in> set (scored_candidates t p)"
  shows "elision_target t (keep_recent_tool_outputs p) (line_index (items t ! i))"
proof (rule stale_candidate_target [OF assms(1)])
  show "items t ! i \<in> set (stale_candidates t p)"
    using assms(2) by (metis image_eqI list.set_map map_scored_candidates)
qed

lemma scored_plan_admissible:
  assumes plan: "scores_to_plan lc show_f64 t p scores = Some plan" and r: "plan_ready t (edits plan)"
  shows "plan_admissible t (keep_recent_tool_outputs p) (edits plan)"
proof -
  let ?line = "\<lambda>i. line_index (items t ! i)"
  obtain w q chosen where s:
    "w \<le> length (scored_eligible t p (score_map (keep_score_threshold p) scores))" "0 < q" "q \<le> w"
    "chosen = sort (map (\<lambda>e. ?line (e_index e)) (take q (scored_ranking t p scores w)))"
    "edits plan = [Elide chosen DEFAULT_STUB [], InjectDigest (state_card_digest lc t chosen)]"
    using scores_to_plan_Some [OF plan] by metis
  have d: "distinct_lines t" "length (items t) \<le> MAX_ITEMS" "digest_fits (edits plan)"
    using r by (simp_all add: plan_ready_def)
  have chosen: "chosen = sort (map ?line (chosen_indexes t p scores w q))"
    by (simp add: s(4) chosen_indexes_def comp_def)
  have sub: "set (chosen_indexes t p scores w q) \<subseteq> set (scored_candidates t p)"
    using chosen_indexes_candidates [OF s(1)] scored_eligible_candidates by blast
  have "distinct (map ?line (scored_candidates t p))"
    using distinct_candidate_lines [OF d(1), of p] unfolding map_scored_candidates [symmetric]
    by (simp add: comp_def)
  then have "inj_on ?line (set (scored_candidates t p))" by (simp add: distinct_map)
  moreover have idx: "distinct (chosen_indexes t p scores w q)"
    using distinct_ranking_index [of t p scores w] by (simp add: chosen_indexes_def flip: take_map)
  ultimately have dist: "distinct chosen"
    unfolding chosen distinct_sort distinct_map using sub by (auto intro: inj_on_subset)
  have "length (scored_ranking t p scores w) = w" using s(1) by (simp add: scored_ranking_def Let_def)
  then have len: "length chosen = q" using s(3,4) by simp
  have "length (chosen_indexes t p scores w q) \<le> length (items t)"
    using idx sub scored_candidates_range [of _ t p]
    by (metis (no_types, lifting) card_lessThan card_mono distinct_card finite_lessThan lessThan_iff
        subset_iff)
  then have le: "length chosen \<le> length (items t)" unfolding chosen by simp
  show ?thesis unfolding s(5)
  proof (rule elide_digest_admissible(2) [OF d(2,1) _ dist])
    show "length chosen \<le> MAX_ITEMS" using le d(2) by linarith
    show "list_all (elision_target t (keep_recent_tool_outputs p)) chosen"
      using sub scored_target [OF d(1)] by (auto simp: chosen list_all_iff)
    show "edit_ok t (keep_recent_tool_outputs p) (InjectDigest (state_card_digest lc t chosen))"
      using le len s(2) d(3) by (simp add: s(5) digest_fits_def)
  qed (use default_stub_ok in auto)
qed

interpretation scored: admissible_strategy "\<lambda>t p. scores_to_plan lc show_f64 t p (scorer t p)"
  for lc show_f64 scorer
proof
  fix t p plan assume a: "scores_to_plan lc show_f64 t p (scorer t p) = Some plan"
  then show "effective_trigger p \<le> context_tokens t" "context_tokens_before plan = context_tokens t"
    by (auto elim: scores_to_plan_Some)
  show "plan_ready t (edits plan) \<Longrightarrow> plan_admissible t (keep_recent_tool_outputs p) (edits plan)"
    using a by (rule scored_plan_admissible)
qed

section \<open>Retention\<close>

lemma score_map_snoc:
  "score_map th (scores @ [s]) = add_score th s (score_map th scores)"
  by (simp add: score_map_def)

lemma score_map_unique:
  assumes "score_map (Some c) scores i = Some v" "v \<noteq> NaN"
  shows "\<exists>s. filter (\<lambda>s. item_index s = i) scores = [s] \<and> keep_probability s = v"
  using assms
proof (induction scores rule: rev_induct)
  case Nil
  then show ?case by (simp add: score_map_def)
next
  case (snoc x xs)
  show ?case
  proof (cases "item_index x = i")
    case True
    then have none: "score_map (Some c) xs i = None" and v: "keep_probability x = v"
      using snoc.prems by (auto simp: score_map_snoc add_score_def split: option.splits)
    have "score_map th ys j = None \<longleftrightarrow> filter (\<lambda>s. item_index s = j) ys = []" for th ys j
      by (induction ys rule: rev_induct) (auto simp: score_map_def add_score_def split: option.split)
    then show ?thesis using none True v by simp
  next
    case False
    then have "score_map (Some c) xs i = Some v"
      using snoc.prems by (auto simp: score_map_snoc add_score_def split: option.splits)
    then show ?thesis using snoc.IH snoc.prems(2) False by simp
  qed
qed

text \<open>C25: A keep-score cutoff protects: when the policy sets one, every line a \<open>scored\<close> plan elides
  belongs to an item that received exactly one score, that score is a number between 0 and 1, and
  it lies below the cutoff. Missing, repeated, invalid and high scores all keep the output.\<close>

theorem scored_respects_cutoff:
  assumes "scores_to_plan lc show_f64 t p scores = Some plan" "keep_score_threshold p = Some cutoff"
    and "l \<in> set (elided_lines (hd (edits plan)))"
  shows "\<exists>i s. i < length (items t) \<and> line_index (items t ! i) = l \<and>
    filter (\<lambda>s. item_index s = i) scores = [s] \<and> score_in_unit (keep_probability s) \<and>
    f64_less (keep_probability s) cutoff"
proof -
  let ?m = "score_map (keep_score_threshold p) scores"
  obtain w q chosen where s: "w \<le> length (scored_eligible t p ?m)"
    "chosen = sort (map (\<lambda>e. line_index (items t ! e_index e)) (take q (scored_ranking t p scores w)))"
    "edits plan = [Elide chosen DEFAULT_STUB [], InjectDigest (state_card_digest lc t chosen)]"
    using scores_to_plan_Some [OF assms(1)] by metis
  then obtain i where i: "i \<in> set (chosen_indexes t p scores w q)" "line_index (items t ! i) = l"
    using assms(3) by (auto simp: chosen_indexes_def)
  then have el: "i \<in> set (scored_eligible t p ?m)" using chosen_indexes_candidates [OF s(1)] by blast
  then have "i < length (items t)"
    using scored_eligible_candidates scored_candidates_range by blast
  moreover have "below_cutoff ?m cutoff i" using el assms(2) by (simp add: scored_eligible_def)
  then obtain v where v: "?m i = Some v" "score_in_unit v" "f64_less v cutoff"
    by (auto simp: below_cutoff_def split: option.splits)
  then have "v \<noteq> NaN" by (auto simp: score_in_unit_def f64_is_finite_def)
  from score_map_unique [OF v(1) [unfolded assms(2)] this] obtain s where
    "filter (\<lambda>s. item_index s = i) scores = [s]" "keep_probability s = v" by blast
  ultimately show ?thesis using i(2) v by blast
qed


definition cutoff_policy :: policy_config where
  "cutoff_policy = default_policy\<lparr>keep_score_threshold := Some (Fin (1 / 2))\<rparr>"

lemma cutoff_policy_simps [simp]:
  "effective_trigger cutoff_policy = 250000" "keep_recent_tool_outputs cutoff_policy = 8"
  "keep_score_threshold cutoff_policy = Some (Fin (1 / 2))" "floor_tokens cutoff_policy = 40000"
proof -
  have "score_in_unit (Fin (1 / 2))" by (simp add: score_in_unit_def f64_is_finite_def f64_le_def)
  then have "validate_policy cutoff_policy = Inr ()"
    by (simp add: validate_policy_def cutoff_policy_def default_policy_def MAX_POLICY_TOKENS_def
        MAX_ITEMS_def MAX_INTERVAL_SECS_def)
  from effective_trigger_facts(2) [OF this] show "effective_trigger cutoff_policy = 250000"
    by (simp add: cutoff_policy_def default_policy_def)
qed (simp_all add: cutoff_policy_def default_policy_def)

text \<open>Two stale outputs, one scored low and one not scored at all: only the first is elided.\<close>

theorem scored_respects_cutoff_witness:
  "\<exists>plan. scores_to_plan id (\<lambda>_. []) (sample_session Codex 10) cutoff_policy
       [\<lparr>item_index = 0, keep_probability = Fin 0\<rparr>] = Some plan \<and>
     elided_lines (hd (edits plan)) = [0] \<and>
     (\<exists>i s. line_index (items (sample_session Codex 10) ! i) = 0 \<and>
        filter (\<lambda>s. item_index s = i) [\<lparr>item_index = 0, keep_probability = Fin 0\<rparr>] = [s] \<and>
        f64_less (keep_probability s) (Fin (1 / 2)))"
proof -
  let ?t = "sample_session Codex 10" and ?scores = "[\<lparr>item_index = 0, keep_probability = Fin 0\<rparr>]"
  have cand: "scored_candidates ?t cutoff_policy = [0, 1]"
    by (simp add: scored_candidates_def unprotected_len_def upt_rec)
  have m: "score_map (Some (Fin (1 / 2))) ?scores = [0 \<mapsto> Fin 0]"
    by (simp add: score_map_def add_score_def)
  have "score_in_unit (Fin 0)" "score_in_unit (Fin (1 / 2))"
    by (simp_all add: score_in_unit_def f64_is_finite_def f64_le_def)
  then have el: "scored_eligible ?t cutoff_policy [0 \<mapsto> Fin 0] = [0]"
    by (simp add: scored_eligible_def cand below_cutoff_def)
  obtain plan where plan: "scores_to_plan id (\<lambda>_. []) ?t cutoff_policy ?scores = Some plan"
    "elided_lines (hd (edits plan)) = [0]"
    using \<open>score_in_unit (Fin (1 / 2))\<close>
    by (simp add: scores_to_plan_def m el cand sat_sub_def heap_entry_of_def Let_def)
  from scored_respects_cutoff [OF plan(1), of "Fin (1 / 2)" 0] plan(2) obtain i s where
    "i < length (items ?t)" "line_index (items ?t ! i) = 0"
    "filter (\<lambda>s. item_index s = i) ?scores = [s]" "f64_less (keep_probability s) (Fin (1 / 2))"
    by auto
  then show ?thesis using plan by blast
qed

end
