(* ===== verification/Heuristic.thy ===== *)
theory Heuristic
  imports Scored
begin

text \<open>
  The built-in scorer \<open>HeuristicScorer\<close> (\<open>strategy/scored.rs\<close>) and the strategy \<open>cache_edits\<close>
  (\<open>strategy/cache_edits.rs\<close>) that ranks with it. What the standard library computes from tables
  or leaves open is an argument, collected in \<open>std_env\<close>: Unicode lower casing and the
  alphanumeric class, \<open>f64::ln\<close>, \<open>f64::powi(3)\<close>, the order in which a hash set of tokens is
  iterated (the source sums floating-point terms in it), and the printing of \<open>f64\<close>.
\<close>

record std_env =
  lower :: "ustr \<Rightarrow> ustr"
  alphanumeric :: "nat \<Rightarrow> bool"
  ln_f64 :: "f64 \<Rightarrow> f64"
  cube_f64 :: "f64 \<Rightarrow> f64"
  set_order :: "ustr list \<Rightarrow> ustr list"
  show_f64 :: "f64 \<Rightarrow> ustr"
  show_f64_rounded :: "f64 \<Rightarrow> ustr"

section \<open>Tokens\<close>

text \<open>A set of tokens is a list without repetitions.\<close>

definition tokenize :: "std_env \<Rightarrow> ustr \<Rightarrow> ustr list" where
  "tokenize env text =
     remdups (map (lower env) (filter (\<lambda>s. s \<noteq> [] \<and> str_len s \<le> 128)
       (split_where (\<lambda>c. \<not> alphanumeric env c \<and> c \<noteq> 47 \<and> c \<noteq> 46 \<and> c \<noteq> 95) text)))"

definition score_text :: "transcript_item \<Rightarrow> ustr" where
  "score_text i = label i @ [32] @ (case summary i of Some s \<Rightarrow> s | None \<Rightarrow> [])"

definition item_tokens :: "std_env \<Rightarrow> transcript_item \<Rightarrow> ustr list" where
  "item_tokens env i = tokenize env (score_text i)"

definition score_error_markers :: "ustr list" where
  "score_error_markers = map lit [''error'', ''failed'', ''failure'', ''panic'', ''exception'',
     ''traceback'', ''enoent'', ''eacces'', ''non-zero'', ''nonzero'', ''exit code'', ''stderr:'']"

definition has_error_marker :: "std_env \<Rightarrow> ustr \<Rightarrow> bool" where
  "has_error_marker env text = list_ex (contains_str (lower env text)) score_error_markers"

definition tool_importance :: "std_env \<Rightarrow> ustr \<Rightarrow> f64" where
  "tool_importance env tool =
     (if lower env tool \<in> set (map lit [''read_file'', ''view'', ''view_range'', ''search_files'',
         ''glob'', ''grep'', ''apply'', ''replace'', ''edit'']) then Fin 1
      else if lower env tool \<in> set (map lit [''bash'', ''ls'', ''cat'', ''echo'', ''pwd'', ''which'',
         ''find'', ''wc'', ''head'', ''tail'', ''sort'', ''uniq'']) then Fin 0
      else f64_of_rat (1 / 2))"

definition jaccard_similarity :: "ustr list \<Rightarrow> ustr list \<Rightarrow> f64" where
  "jaccard_similarity a b =
     (if a = [] \<and> b = [] then Fin 1
      else f64_div (f64_of_nat (length (filter (\<lambda>x. x \<in> set b) a)))
        (f64_of_nat (length (remdups (a @ b)))))"

section \<open>What the scorer computes once\<close>

definition TAIL_LOOKBACK :: nat where "TAIL_LOOKBACK = 8"

definition goal_tokens :: "std_env \<Rightarrow> transcript \<Rightarrow> ustr list" where
  "goal_tokens env t =
     remdups (concat (map (item_tokens env) (take TAIL_LOOKBACK
       (filter (\<lambda>i. (kind i = User \<or> kind i = Assistant) \<and>
            (case summary i of
               Some s \<Rightarrow> \<not> starts_with s (lit ''[gobstopper state card]'') | None \<Rightarrow> False))
         (rev (items t))))))"

definition tail_parents :: "transcript \<Rightarrow> ustr list" where
  "tail_parents t =
     List.map_filter parent_uuid (drop (length (items t) - TAIL_LOOKBACK) (items t))"

definition label_occurrences :: "transcript \<Rightarrow> nat list \<Rightarrow> ustr \<Rightarrow> nat list" where
  "label_occurrences t candidates l =
     filter (\<lambda>i. i < length (items t) \<and> label (items t ! i) = l) candidates"

definition token_occurrences :: "std_env \<Rightarrow> transcript \<Rightarrow> ustr \<Rightarrow> nat list" where
  "token_occurrences env t tok =
     filter (\<lambda>i. tok \<in> set (item_tokens env (items t ! i))) [0..<length (items t)]"

definition token_df :: "std_env \<Rightarrow> transcript \<Rightarrow> ustr \<Rightarrow> nat" where
  "token_df env t tok = length (token_occurrences env t tok)"

definition label_latest_tokens :: "std_env \<Rightarrow> transcript \<Rightarrow> ustr \<Rightarrow> ustr list option" where
  "label_latest_tokens env t l =
     map_option (item_tokens env) (find (\<lambda>i. label i = l) (rev (items t)))"

definition f64_sum :: "f64 list \<Rightarrow> f64" where
  "f64_sum xs = fold (\<lambda>x acc. f64_add acc x) xs (Fin 0)"

section \<open>The score of one candidate\<close>

definition idf_score :: "std_env \<Rightarrow> transcript \<Rightarrow> ustr list \<Rightarrow> f64" where
  "idf_score env t toks =
     (if toks = [] then Fin 0
      else
        let n_docs = max (length (items t)) 1;
            max_idf = f64_max (ln_f64 env (f64_of_nat n_docs)) (Fin 1);
            idf = f64_sum (map (\<lambda>tok.
              let df = token_df env t tok in
              ln_f64 env (f64_div (f64_of_nat n_docs) (f64_of_nat (if df = 0 then 1 else df))))
              (set_order env toks))
        in f64_clamp (f64_div idf (f64_mul (f64_of_nat (length toks)) max_idf)) (Fin 0) (Fin 1))"

definition future_ref_score :: "std_env \<Rightarrow> transcript \<Rightarrow> nat \<Rightarrow> ustr list \<Rightarrow> f64" where
  "future_ref_score env t idx toks =
     (let future_ref = f64_div
            (f64_sum (map (\<lambda>tok.
               f64_of_nat (length (take 12 (filter (\<lambda>i. i > idx) (token_occurrences env t tok)))))
               (set_order env toks)))
            (f64_of_nat (max (length toks) 1))
      in f64_clamp (f64_div future_ref (Fin 12)) (Fin 0) (Fin 1))"

definition goal_overlap :: "std_env \<Rightarrow> transcript \<Rightarrow> ustr list \<Rightarrow> f64" where
  "goal_overlap env t toks =
     (if toks = [] then Fin 0
      else f64_div (f64_of_nat (length (filter (\<lambda>x. x \<in> set (goal_tokens env t)) toks)))
        (f64_of_nat (length toks)))"

definition weighted :: "rat \<Rightarrow> f64 \<Rightarrow> f64" where
  "weighted w x = f64_mul (f64_of_rat w) x"

definition flagged :: "bool \<Rightarrow> rat \<Rightarrow> f64" where
  "flagged b w = (if b then f64_of_rat w else Fin 0)"

definition score_candidate :: "std_env \<Rightarrow> transcript \<Rightarrow> nat list \<Rightarrow> nat \<Rightarrow> nat \<Rightarrow> scored_item" where
  "score_candidate env t candidates pos idx =
     (let item = items t ! idx;
          recency = f64_div (f64_of_nat pos) (f64_of_nat (max (length candidates) 1));
          importance = tool_importance env (tool_name (label item));
          error_marker = has_error_marker env (score_text item);
          toks = item_tokens env item;
          occurrences = label_occurrences t candidates (label item);
          newest = (if occurrences = [] then idx else last occurrences);
          superseded = (newest \<noteq> idx \<and> length occurrences > 1);
          near_duplicate = (toks \<noteq> [] \<and> newest \<noteq> idx \<and>
            (case label_latest_tokens env t (label item) of
               Some latest \<Rightarrow> f64_le (f64_of_rat (17 / 20)) (jaccard_similarity toks latest)
             | None \<Rightarrow> False));
          parent_of_tail = (case uuid item of Some u \<Rightarrow> u \<in> set (tail_parents t) | None \<Rightarrow> False);
          max_line = (if items t = [] then 0 else line_index (last (items t)));
          position_ratio = (if max_line = 0 then Fin 0
            else f64_div (f64_of_nat (line_index item)) (f64_of_nat max_line));
          s = weighted (9 / 50) recency;
          s = f64_add s (weighted (3 / 25) importance);
          s = f64_add s (flagged error_marker (1 / 4));
          s = f64_add s (weighted (3 / 25) (future_ref_score env t idx toks));
          s = f64_add s (weighted (3 / 25) (goal_overlap env t toks));
          s = f64_add s (weighted (1 / 10) position_ratio);
          s = f64_add s (weighted (3 / 25) (idf_score env t toks));
          s = f64_add s (flagged parent_of_tail (1 / 10));
          s = f64_sub s (flagged superseded (3 / 20));
          s = f64_sub s (flagged near_duplicate (3 / 25))
      in \<lparr>item_index = idx, keep_probability = f64_clamp s (Fin 0) (Fin 1)\<rparr>)"

text \<open>The source indexes the transcript with \<open>unwrap\<close>, which panics out of range; its callers pass
  \<open>scored_candidates\<close>, which lie in range (\<open>scored_candidates_range\<close>).\<close>

definition heuristic_score :: "std_env \<Rightarrow> transcript \<Rightarrow> nat list \<Rightarrow> scored_item list" where
  "heuristic_score env t candidates =
     map (\<lambda>(pos, idx). score_candidate env t candidates pos idx) (enumerate 0 candidates)"

definition scored_evaluate :: "std_env \<Rightarrow> transcript \<Rightarrow> policy_config \<Rightarrow> compaction_plan option" where
  "scored_evaluate env t p =
     scores_to_plan (lower env) (show_f64 env) t p (heuristic_score env t (scored_candidates t p))"

lemma heuristic_score_indexes: "map item_index (heuristic_score env t candidates) = candidates"
  by (simp add: heuristic_score_def score_candidate_def Let_def comp_def case_prod_beta)

lemma f64_clamp_unit: "f64_clamp x (Fin 0) (Fin 1) \<noteq> NaN \<Longrightarrow> score_in_unit (f64_clamp x (Fin 0) (Fin 1))"
  by (cases x) (auto simp: f64_clamp_def score_in_unit_def f64_is_finite_def f64_le_def)


section \<open>Cache edits\<close>

text \<open>\<open>partial_cmp\<close> with incomparable scores equal, then the larger saving first.\<close>

definition cache_edit_le :: "transcript \<Rightarrow> scored_item \<Rightarrow> scored_item \<Rightarrow> bool" where
  "cache_edit_le t a b \<longleftrightarrow>
     (if f64_less (keep_probability a) (keep_probability b) then True
      else if f64_less (keep_probability b) (keep_probability a) then False
      else estimated_elision_savings (items t ! item_index b) \<le>
        estimated_elision_savings (items t ! item_index a))"

text \<open>The loop over the ranked items: the ids collected so far double as the set of seen ids.\<close>

fun cache_edit_walk ::
  "transcript \<Rightarrow> u64 \<Rightarrow> scored_item list \<Rightarrow> u64 \<Rightarrow> nat \<Rightarrow> ustr list \<Rightarrow> u64 \<times> nat \<times> ustr list" where
  "cache_edit_walk t flr [] projected chosen ids = (projected, chosen, ids)"
| "cache_edit_walk t flr (s # ss) projected chosen ids =
     (if projected \<le> flr \<or> length ids \<ge> MAX_ITEMS then (projected, chosen, ids)
      else
        let item = items t ! item_index s;
            remaining = MAX_ITEMS - length ids;
            fresh = filter (\<lambda>i. i \<notin> set ids) (tool_use_ids item)
        in if fresh = [] then cache_edit_walk t flr ss projected chosen ids
           else if length fresh > remaining then (projected, chosen, ids)
           else cache_edit_walk t flr ss (sat_sub projected (estimated_elision_savings item))
             (Suc chosen) (ids @ fresh))"

definition cache_eligible :: "transcript \<Rightarrow> policy_config \<Rightarrow> nat list" where
  "cache_eligible t p = filter (\<lambda>i. tool_use_ids (items t ! i) \<noteq> []) (scored_candidates t p)"

definition cache_edits_evaluate :: "std_env \<Rightarrow> transcript \<Rightarrow> policy_config \<Rightarrow> compaction_plan option" where
  "cache_edits_evaluate env t p =
     (let prior = context_tokens t in
      if provider (session t) \<noteq> ClaudeCode \<or> prior < effective_trigger p then None
      else
        let eligible = cache_eligible t p in
        if eligible = [] then None
        else
          let ranked = sort_with (cache_edit_le t) (heuristic_score env t eligible);
              (projected, chosen, ids) = cache_edit_walk t (floor_tokens p) ranked prior 0 []
          in if chosen = 0 \<or> ids = [] then None
             else Some
               \<lparr>strategy = lit ''cache_edits'',
                rationale = rationale_head prior p @ lit ''; emitting '' @ dec (length ids) @
                  lit '' scored cache_edits to drop stale tool outputs'',
                edits = [CacheEdit ids], context_tokens_before = prior,
                context_tokens_after = projected\<rparr>)"

text \<open>What the walk collects: ids of the ranked items, none twice when no item repeats one.\<close>

lemma cache_edit_walk_ids:
  assumes "cache_edit_walk t flr ss projected chosen ids = (projected', chosen', ids')"
    and "list_all (\<lambda>s. distinct (tool_use_ids (items t ! item_index s))) ss"
    and "distinct ids" "length ids \<le> MAX_ITEMS"
  shows "distinct ids' \<and> length ids' \<le> MAX_ITEMS \<and>
    set ids' \<subseteq> set ids \<union> (\<Union>s \<in> set ss. set (tool_use_ids (items t ! item_index s)))"
  using assms
proof (induction t flr ss projected chosen ids rule: cache_edit_walk.induct)
  case (1 t flr projected chosen ids)
  then show ?case by simp
next
  case (2 t flr s ss projected chosen ids)
  let ?ids = "tool_use_ids (items t ! item_index s)"
  let ?fresh = "filter (\<lambda>i. i \<notin> set ids) ?ids"
  consider "projected \<le> flr \<or> length ids \<ge> MAX_ITEMS" | "\<not> (projected \<le> flr \<or> length ids \<ge> MAX_ITEMS)" "?fresh = []"
    | "\<not> (projected \<le> flr \<or> length ids \<ge> MAX_ITEMS)" "?fresh \<noteq> []" "length ?fresh > MAX_ITEMS - length ids"
    | "\<not> (projected \<le> flr \<or> length ids \<ge> MAX_ITEMS)" "?fresh \<noteq> []" "\<not> length ?fresh > MAX_ITEMS - length ids"
    by blast
  then show ?case
  proof cases
    case 1
    then show ?thesis using "2.prems" by auto
  next
    case 2
    then have "cache_edit_walk t flr (s # ss) projected chosen ids = cache_edit_walk t flr ss projected chosen ids"
      by (simp add: Let_def)
    then have "distinct ids' \<and> length ids' \<le> MAX_ITEMS \<and>
        set ids' \<subseteq> set ids \<union> (\<Union>s \<in> set ss. set (tool_use_ids (items t ! item_index s)))"
      using "2.IH"(1) [OF 2(1) refl refl refl 2(2)] "2.prems" by simp
    then show ?thesis by auto
  next
    case 3
    then show ?thesis using "2.prems" by (auto simp: Let_def)
  next
    case 4
    have "cache_edit_walk t flr (s # ss) projected chosen ids =
        cache_edit_walk t flr ss (sat_sub projected (estimated_elision_savings (items t ! item_index s)))
          (Suc chosen) (ids @ ?fresh)"
      using 4 by (simp add: Let_def)
    moreover have "distinct (ids @ ?fresh)" "length (ids @ ?fresh) \<le> MAX_ITEMS"
      using "2.prems"(2,3) 4 by auto
    ultimately have "distinct ids' \<and> length ids' \<le> MAX_ITEMS \<and>
        set ids' \<subseteq> set (ids @ ?fresh) \<union> (\<Union>s \<in> set ss. set (tool_use_ids (items t ! item_index s)))"
      using "2.IH"(2) [OF 4(1) refl refl refl 4(2,3)] "2.prems" by simp
    then show ?thesis by auto
  qed
qed

lemma cache_edits_evaluate_Some:
  assumes "cache_edits_evaluate env t p = Some plan"
  obtains ids projected chosen where
    "cache_edit_walk t (floor_tokens p)
       (sort_with (cache_edit_le t) (heuristic_score env t (cache_eligible t p))) (context_tokens t) 0 []
     = (projected, chosen, ids)" "ids \<noteq> []"
    "provider (session t) = ClaudeCode" "effective_trigger p \<le> context_tokens t"
    "edits plan = [CacheEdit ids]" "context_tokens_before plan = context_tokens t"
    "context_tokens_after plan = projected"
proof -
  obtain projected chosen ids where w: "cache_edit_walk t (floor_tokens p)
       (sort_with (cache_edit_le t) (heuristic_score env t (cache_eligible t p))) (context_tokens t) 0 []
     = (projected, chosen, ids)" by (metis prod_cases3)
  show thesis
    by (rule that [OF w]) (use assms w in \<open>auto simp: cache_edits_evaluate_def Let_def not_less
      split: if_splits\<close>)
qed

lemma cache_edits_admissible:
  assumes plan: "cache_edits_evaluate env t p = Some plan" and r: "plan_ready t (edits plan)"
  shows "plan_admissible t (keep_recent_tool_outputs p) (edits plan)"
proof -
  let ?ranked = "sort_with (cache_edit_le t) (heuristic_score env t (cache_eligible t p))"
  obtain ids projected chosen where w:
    "cache_edit_walk t (floor_tokens p) ?ranked (context_tokens t) 0 [] = (projected, chosen, ids)"
    "ids \<noteq> []" "provider (session t) = ClaudeCode" "edits plan = [CacheEdit ids]"
    using cache_edits_evaluate_Some [OF plan] by metis
  have idx: "item_index s < length (items t)" if "s \<in> set ?ranked" for s
  proof -
    have "item_index s \<in> set (map item_index (heuristic_score env t (cache_eligible t p)))"
      using that by simp
    then have "item_index s \<in> set (scored_candidates t p)"
      unfolding heuristic_score_indexes by (simp add: cache_eligible_def)
    then show ?thesis by (rule scored_candidates_range)
  qed
  then have item: "items t ! item_index s \<in> set (items t)" if "s \<in> set ?ranked" for s
    using that by simp
  have ok: "tool_ids_ok t" using r by (simp add: plan_ready_def)
  then have "list_all (\<lambda>s. distinct (tool_use_ids (items t ! item_index s))) ?ranked"
    using item unfolding tool_ids_ok_def list_all_iff by blast
  from cache_edit_walk_ids [OF w(1) this]
  have ids: "distinct ids" "length ids \<le> MAX_ITEMS"
    "set ids \<subseteq> (\<Union>s \<in> set ?ranked. set (tool_use_ids (items t ! item_index s)))" by simp_all
  have "list_all (\<lambda>i. i \<noteq> [] \<and> str_len i \<le> 256 \<and> list_all cache_id_char i \<and>
      i \<in> set (known_tool_use_ids t)) ids"
    unfolding list_all_iff
  proof
    fix i assume "i \<in> set ids"
    then obtain s where s: "s \<in> set ?ranked" "i \<in> set (tool_use_ids (items t ! item_index s))"
      using ids(3) by blast
    then show "i \<noteq> [] \<and> str_len i \<le> 256 \<and> (\<forall>x \<in> set i. cache_id_char x) \<and>
        i \<in> set (known_tool_use_ids t)"
      using item [OF s(1)] ok by (auto simp: tool_ids_ok_def list_all_iff known_tool_use_ids_def)
  qed
  then show ?thesis using r ids(1,2) w(2-4)
    by (simp add: plan_admissible_def plan_ready_def composition_ok_def is_control_class_def)
qed

interpretation cache_edits: admissible_strategy "cache_edits_evaluate env" for env
proof
  fix t p plan assume a: "cache_edits_evaluate env t p = Some plan"
  then show "effective_trigger p \<le> context_tokens t" "context_tokens_before plan = context_tokens t"
    by (auto elim: cache_edits_evaluate_Some)
  show "plan_ready t (edits plan) \<Longrightarrow> plan_admissible t (keep_recent_tool_outputs p) (edits plan)"
    using a by (rule cache_edits_admissible)
qed

end
