(* ===== verification/Auto.thy ===== *)
theory Auto
  imports Grouping Heuristic Cliff
begin

text \<open>
  Selection among strategies: \<open>auto\<close> (\<open>strategy/auto.rs\<close>), the agentic strategy's validation of
  model calls (\<open>strategy/agentic.rs\<close>), and the registry of built-in strategies
  (\<open>strategy/mod.rs\<close>).
\<close>

section \<open>Scoring plans\<close>

definition first_elided_line :: "compaction_plan \<Rightarrow> nat option" where
  "first_elided_line plan =
     (let firsts = List.map_filter (\<lambda>e. case e of
          Elide ls _ _ \<Rightarrow> if ls = [] then None else Some (Min (set ls)) | _ \<Rightarrow> None) (edits plan)
      in if firsts = [] then None else Some (Min (set firsts)))"

text \<open>Without an in-place edit every line counts: the source compares with \<open>usize::MAX\<close>.\<close>

definition USIZE_MAX :: nat where "USIZE_MAX = 2 ^ 64 - 1"

definition prefix_tokens :: "transcript \<Rightarrow> compaction_plan \<Rightarrow> u64" where
  "prefix_tokens t plan =
     (let first = (case first_elided_line plan of Some l \<Rightarrow> l | None \<Rightarrow> USIZE_MAX)
      in fold (\<lambda>i running. add_tokens running (est_tokens i))
           (filter (\<lambda>i. line_index i < first) (items t)) 0)"

definition cache_preservation_score :: "std_env \<Rightarrow> u64 \<Rightarrow> u64 \<Rightarrow> u64 \<Rightarrow> f64" where
  "cache_preservation_score env saved prefix prior =
     (let prefix_ratio = f64_div (f64_of_u64 prefix) (f64_of_u64 (max prior 1))
      in f64_mul (f64_of_u64 saved) (cube_f64 env prefix_ratio))"

definition plan_score :: "std_env \<Rightarrow> transcript \<Rightarrow> compaction_plan \<Rightarrow> f64" where
  "plan_score env t plan =
     cache_preservation_score env (est_savings plan) (prefix_tokens t plan) (context_tokens_before plan)"

section \<open>Auto\<close>

definition file_strategies ::
  "std_env \<Rightarrow> (transcript \<Rightarrow> policy_config \<Rightarrow> compaction_plan option) list" where
  "file_strategies env =
     [cache_aware_evaluate (lower env), scored_evaluate env, elide_evaluate,
      compacted_evaluate (lower env), dedupe_evaluate (lower env), micro_evaluate (lower env),
      middle_evaluate (lower env), structured_evaluate]"

fun pick_best ::
  "std_env \<Rightarrow> transcript \<Rightarrow> compaction_plan list \<Rightarrow> compaction_plan option \<Rightarrow> f64 \<Rightarrow>
     compaction_plan option \<times> f64" where
  "pick_best env t [] best best_score = (best, best_score)"
| "pick_best env t (plan # plans) best best_score =
     (let s = plan_score env t plan in
      if f64_less best_score s then pick_best env t plans (Some plan) s
      else pick_best env t plans best best_score)"

definition relabel :: "ustr \<Rightarrow> ustr \<Rightarrow> compaction_plan \<Rightarrow> compaction_plan" where
  "relabel sid note plan = plan\<lparr>rationale := note @ rationale plan, strategy := sid\<rparr>"

definition auto_live :: "std_env \<Rightarrow> transcript \<Rightarrow> policy_config \<Rightarrow> (ustr \<times> compaction_plan) option" where
  "auto_live env t p =
     (if provider (session t) = ClaudeCode
      then case cache_edits_evaluate env t p of
             Some plan \<Rightarrow> Some (lit ''cache_edits'', plan)
           | None \<Rightarrow> map_option (Pair (lit ''sawtooth'')) (sawtooth_evaluate t p)
      else map_option (Pair (lit ''sawtooth'')) (sawtooth_evaluate t p))"

definition auto_evaluate :: "std_env \<Rightarrow> transcript \<Rightarrow> policy_config \<Rightarrow> compaction_plan option" where
  "auto_evaluate env t p =
     (if items t = [] \<or> is_active (session t)
      then map_option (\<lambda>(selected, plan).
             relabel (lit ''auto'')
               (lit ''auto (live session): delegated to '' @ selected @ lit ''; '') plan)
             (auto_live env t p)
      else
        case pick_best env t (List.map_filter (\<lambda>s. s t p) (file_strategies env)) None (Fin (- 1)) of
          (None, _) \<Rightarrow> None
        | (Some plan, best_score) \<Rightarrow>
            Some (relabel (lit ''auto'')
              (lit ''auto: selected '' @ strategy plan @ lit '' (score '' @
                show_f64_rounded env best_score @ lit ''); '') plan))"

definition TOOL_DOMINANCE :: f64 where "TOOL_DOMINANCE = f64_of_rat (11 / 20)"

definition auto_select :: "transcript \<Rightarrow> ustr" where
  "auto_select t =
     (let whole = max (context_tokens t) 1; tool_tokens = elidable_tokens t in
      if items t = [] \<or> is_active (session t)
      then (if provider (session t) = ClaudeCode then lit ''cache_edits'' else lit ''sawtooth'')
      else if f64_le TOOL_DOMINANCE (f64_div (f64_of_u64 tool_tokens) (f64_of_u64 whole))
      then lit ''cache_aware'' else lit ''structured'')"

section \<open>Agentic\<close>

datatype editor_call =
    Keep nat nat
  | ElideCall "nat list"
  | Summarize nat nat ustr
  | Defer ustr

text \<open>The first pass: every kept range must lie in the transcript.\<close>

fun kept_items :: "nat \<Rightarrow> editor_call list \<Rightarrow> nat list \<Rightarrow> nat list option" where
  "kept_items n [] kept = Some kept"
| "kept_items n (Keep from_item to_item # calls) kept =
     (if from_item \<ge> to_item \<or> to_item > n then None
      else kept_items n calls (kept @ [from_item..<to_item]))"
| "kept_items n (_ # calls) kept = kept_items n calls kept"

definition call_digest :: "nat \<Rightarrow> nat \<Rightarrow> ustr \<Rightarrow> digest_block" where
  "call_digest from_item to_item text =
     empty_digest\<lparr>goal := Some text,
       d_summary := Some (lit ''agentic digest covering '' @ dec (to_item - from_item) @ lit '' items''),
       covers_items := to_item - from_item\<rparr>"

definition subtract_line :: "transcript \<Rightarrow> nat \<Rightarrow> u64 \<Rightarrow> u64" where
  "subtract_line t l projected =
     (case find (\<lambda>i. line_index i = l) (items t) of
        Some item \<Rightarrow> sat_sub projected (estimated_elision_savings item) | None \<Rightarrow> projected)"

fun calls_to_edits ::
  "transcript \<Rightarrow> nat list \<Rightarrow> editor_call list \<Rightarrow> edit list \<Rightarrow> u64 \<Rightarrow> (edit list \<times> u64) option" where
  "calls_to_edits t kept [] es projected = Some (es, projected)"
| "calls_to_edits t kept (Defer _ # calls) es projected = None"
| "calls_to_edits t kept (Keep _ _ # calls) es projected = calls_to_edits t kept calls es projected"
| "calls_to_edits t kept (ElideCall idxs # calls) es projected =
     (if list_ex (\<lambda>i. i \<in> set kept \<or> i \<ge> length (items t)) idxs then None
      else
        let valid = map line_index (filter is_elidable (map ((!) (items t)) idxs));
            projected = fold (subtract_line t) valid projected;
            es = (if valid \<noteq> [] then es @ [Elide valid DEFAULT_STUB []] else es)
        in calls_to_edits t kept calls es projected)"
| "calls_to_edits t kept (Summarize from_item to_item text # calls) es projected =
     (if to_item \<le> from_item \<or> to_item > length (items t) then None
      else calls_to_edits t kept calls (es @ [InjectDigest (call_digest from_item to_item text)])
        (sat_add projected (estimate_tokens (str_len text))))"

definition calls_to_plan ::
  "transcript \<Rightarrow> policy_config \<Rightarrow> editor_call list \<Rightarrow> compaction_plan option" where
  "calls_to_plan t p calls =
     (let prior = context_tokens t in
      if length calls > MAX_EDITS then None
      else
        case kept_items (length (items t)) calls [] of
          None \<Rightarrow> None
        | Some kept \<Rightarrow>
            (case calls_to_edits t kept calls [] prior of
               None \<Rightarrow> None
             | Some (es, projected) \<Rightarrow>
                 if es = [] \<or> isl (validate_edits t p es) then None
                 else Some
                   \<lparr>strategy = lit ''agentic'',
                    rationale = lit ''editor model emitted '' @ dec (length calls) @
                      lit '' calls; projected context '' @ dec (unat projected) @ lit '' (floor '' @
                      dec (unat (floor_tokens p)) @ lit '')'',
                    edits = es, context_tokens_before = prior, context_tokens_after = projected\<rparr>))"

definition agentic_evaluate :: "std_env \<Rightarrow> transcript \<Rightarrow> policy_config \<Rightarrow> compaction_plan option" where
  "agentic_evaluate env t p =
     map_option (\<lambda>plan.
       plan\<lparr>strategy := lit ''agentic'',
         rationale := lit ''agentic (no driver configured, rubric fallback): '' @ rationale plan\<rparr>)
       (auto_evaluate env t p)"

section \<open>Registry\<close>

definition builtin_strategies ::
  "std_env \<Rightarrow> (ustr \<times> (transcript \<Rightarrow> policy_config \<Rightarrow> compaction_plan option)) list" where
  "builtin_strategies env =
     [(lit ''auto'', auto_evaluate env), (lit ''scored'', scored_evaluate env),
      (lit ''cache_edits'', cache_edits_evaluate env),
      (lit ''cache_aware'', cache_aware_evaluate (lower env)), (lit ''sawtooth'', sawtooth_evaluate),
      (lit ''elide'', elide_evaluate), (lit ''cliff'', cliff_evaluate),
      (lit ''dedupe'', dedupe_evaluate (lower env)), (lit ''micro'', micro_evaluate (lower env)),
      (lit ''middle'', middle_evaluate (lower env)), (lit ''compacted'', compacted_evaluate (lower env)),
      (lit ''structured'', structured_evaluate), (lit ''agentic'', agentic_evaluate env)]"

definition strategy_by_id ::
  "std_env \<Rightarrow> ustr \<Rightarrow> (transcript \<Rightarrow> policy_config \<Rightarrow> compaction_plan option) option" where
  "strategy_by_id env sid = map_option snd (find (\<lambda>(i, _). i = sid) (builtin_strategies env))"

section \<open>Contracts\<close>

interpretation scored_default: admissible_strategy "scored_evaluate env" for env
proof -
  have "scored_evaluate env = (\<lambda>t p. scores_to_plan (lower env) (show_f64 env) t p
      ((\<lambda>t p. heuristic_score env t (scored_candidates t p)) t p))"
    by (intro ext) (simp add: scored_evaluate_def)
  then show "admissible_strategy (scored_evaluate env)"
    using scored.admissible_strategy_axioms by metis
qed

lemmas strategy_fires = cache_aware.fires scored_default.fires elide.fires compacted.fires dedupe.fires
  micro.fires middle.fires structured.fires sawtooth.fires cache_edits.fires cliff.fires

lemmas strategy_before = cache_aware.before scored_default.before elide.before compacted.before
  dedupe.before micro.before middle.before structured.before sawtooth.before cache_edits.before
  cliff.before

lemmas strategy_accepted = cache_aware.accepted scored_default.accepted elide.accepted
  compacted.accepted dedupe.accepted middle.accepted structured.accepted sawtooth.accepted
  cache_edits.accepted cliff.accepted

lemma file_strategy_contract:
  assumes "s \<in> set (file_strategies env)" "s t p = Some plan"
  shows "effective_trigger p \<le> context_tokens t" "context_tokens_before plan = context_tokens t"
  using assms by (auto simp: file_strategies_def dest: strategy_fires strategy_before)

lemma file_strategy_accepted:
  assumes "s \<in> set (file_strategies env)" "s \<noteq> micro_evaluate (lower env)" "s t p = Some plan"
    "plan_ready t (edits plan)"
  shows "validate_edits t p (edits plan) = Inr ()"
  using assms by (auto simp: file_strategies_def intro: strategy_accepted)

section \<open>The best plan\<close>

lemma f64_less_trans: "f64_less a b \<Longrightarrow> f64_less b c \<Longrightarrow> f64_less a c"
  by (cases a; cases b; cases c) auto

lemma pick_best_spec:
  assumes "pick_best env t plans best bs = (best', bs')"
  shows "(best' = best \<and> bs' = bs \<or>
      (\<exists>q \<in> set plans. best' = Some q \<and> bs' = plan_score env t q \<and> f64_less bs bs')) \<and>
    (\<forall>q \<in> set plans. \<not> f64_less bs' (plan_score env t q))"
  using assms
proof (induction env t plans best bs rule: pick_best.induct)
  case (1 env t best bs)
  then show ?case by simp
next
  case (2 env t plan plans best bs)
  let ?s = "plan_score env t plan"
  show ?case
  proof (cases "f64_less bs ?s")
    case True
    then have IH: "(best' = Some plan \<and> bs' = ?s \<or>
        (\<exists>q \<in> set plans. best' = Some q \<and> bs' = plan_score env t q \<and> f64_less ?s bs')) \<and>
      (\<forall>q \<in> set plans. \<not> f64_less bs' (plan_score env t q))"
      using 2 by (simp add: Let_def)
    have "\<not> f64_less ?s ?s" by (cases ?s) auto
    then have "\<not> f64_less bs' ?s" using IH f64_less_trans by blast
    then show ?thesis using IH True f64_less_trans by (metis list.set_intros set_ConsD)
  next
    case False
    then have IH: "(best' = best \<and> bs' = bs \<or>
        (\<exists>q \<in> set plans. best' = Some q \<and> bs' = plan_score env t q \<and> f64_less bs bs')) \<and>
      (\<forall>q \<in> set plans. \<not> f64_less bs' (plan_score env t q))"
      using 2 by (simp add: Let_def)
    then have "\<not> f64_less bs' ?s" using False f64_less_trans by blast
    then show ?thesis using IH by auto
  qed
qed

lemma relabel_simps [simp]:
  "edits (relabel sid note plan) = edits plan" "strategy (relabel sid note plan) = sid"
  "context_tokens_before (relabel sid note plan) = context_tokens_before plan"
  "context_tokens_after (relabel sid note plan) = context_tokens_after plan"
  by (simp_all add: relabel_def)

lemma auto_idle_Some:
  assumes "auto_evaluate env t p = Some plan" "\<not> is_active (session t)" "items t \<noteq> []"
  obtains s chosen where "s \<in> set (file_strategies env)" "s t p = Some chosen"
    "edits plan = edits chosen" "context_tokens_before plan = context_tokens_before chosen"
    "context_tokens_after plan = context_tokens_after chosen" "strategy plan = lit ''auto''"
    "\<forall>s' \<in> set (file_strategies env). \<forall>q. s' t p = Some q \<longrightarrow>
       \<not> f64_less (plan_score env t chosen) (plan_score env t q)"
proof -
  let ?plans = "List.map_filter (\<lambda>s. s t p) (file_strategies env)"
  obtain best bs where pick: "pick_best env t ?plans None (Fin (- 1)) = (best, bs)" by (metis surj_pair)
  from assms pick obtain chosen where chosen: "best = Some chosen" and plan: "plan = relabel (lit ''auto'')
      (lit ''auto: selected '' @ strategy chosen @ lit '' (score '' @ show_f64_rounded env bs @ lit ''); '')
      chosen"
    by (auto simp: auto_evaluate_def split: option.splits)
  from pick_best_spec [OF pick] chosen have c: "chosen \<in> set ?plans" "bs = plan_score env t chosen"
    "\<forall>q \<in> set ?plans. \<not> f64_less bs (plan_score env t q)" by auto
  have set: "set ?plans = {q. \<exists>s \<in> set (file_strategies env). s t p = Some q}"
    by (auto simp: List.map_filter_def image_iff) force
  then obtain s where "s \<in> set (file_strategies env)" "s t p = Some chosen" using c(1) by blast
  then show thesis using that [of s chosen] plan c(2,3) set by auto
qed

text \<open>On an idle session \<open>auto\<close> returns the plan of one of its file strategies, unchanged but for its
  label, and no file strategy proposes a plan with a higher cache-preservation score.\<close>

theorem auto_picks_best:
  assumes "auto_evaluate env t p = Some plan" "\<not> is_active (session t)" "items t \<noteq> []"
  shows "\<exists>s chosen. s \<in> set (file_strategies env) \<and> s t p = Some chosen \<and>
    edits plan = edits chosen \<and> context_tokens_before plan = context_tokens_before chosen \<and>
    context_tokens_after plan = context_tokens_after chosen \<and>
    list_all (\<lambda>s'. case s' t p of None \<Rightarrow> True
      | Some q \<Rightarrow> \<not> f64_less (plan_score env t chosen) (plan_score env t q)) (file_strategies env)"
proof -
  obtain s chosen where "s \<in> set (file_strategies env)" "s t p = Some chosen"
    "edits plan = edits chosen" "context_tokens_before plan = context_tokens_before chosen"
    "context_tokens_after plan = context_tokens_after chosen"
    "\<forall>s' \<in> set (file_strategies env). \<forall>q. s' t p = Some q \<longrightarrow>
       \<not> f64_less (plan_score env t chosen) (plan_score env t q)"
    using auto_idle_Some [OF assms] by metis
  then show ?thesis by (intro exI [of _ s] exI [of _ chosen]) (auto simp: list_all_iff split: option.split)
qed

lemma auto_live_Some:
  "auto_live env t p = Some (sel, plan) \<Longrightarrow>
     cache_edits_evaluate env t p = Some plan \<or> sawtooth_evaluate t p = Some plan"
  by (auto simp: auto_live_def split: if_splits option.splits)

lemma auto_evaluate_source:
  assumes "auto_evaluate env t p = Some plan"
  obtains ev chosen where "ev t p = Some chosen" "edits plan = edits chosen"
    "context_tokens_before plan = context_tokens_before chosen" "strategy plan = lit ''auto''"
    "ev \<in> set (file_strategies env) \<union> {cache_edits_evaluate env, sawtooth_evaluate}"
proof (cases "items t = [] \<or> is_active (session t)")
  case True
  then obtain sel chosen where "auto_live env t p = Some (sel, chosen)"
    "plan = relabel (lit ''auto'') (lit ''auto (live session): delegated to '' @ sel @ lit ''; '') chosen"
    using assms by (auto simp: auto_evaluate_def)
  then show thesis using auto_live_Some [of env t p sel chosen] that by auto
next
  case False
  from auto_idle_Some [OF assms] False that show thesis by (metis UnI1)
qed

interpretation auto: strategy_contract "auto_evaluate env" for env
proof
  fix t p plan assume "auto_evaluate env t p = Some plan"
  from auto_evaluate_source [OF this] obtain ev chosen where "ev t p = Some chosen"
    "context_tokens_before plan = context_tokens_before chosen"
    "ev \<in> set (file_strategies env) \<union> {cache_edits_evaluate env, sawtooth_evaluate}" by metis
  then show "effective_trigger p \<le> context_tokens t" "context_tokens_before plan = context_tokens t"
    using file_strategy_contract [of ev env t p chosen]
    by (auto dest: strategy_fires strategy_before)
qed

interpretation agentic: strategy_contract "agentic_evaluate env" for env
  by unfold_locales (auto simp: agentic_evaluate_def dest: auto.fires auto.before)

section \<open>The registry\<close>

lemma strategy_labels:
  "cache_aware_evaluate lc t p = Some plan \<Longrightarrow> strategy plan = lit ''cache_aware''"
  "compacted_evaluate lc t p = Some plan \<Longrightarrow> strategy plan = lit ''compacted''"
  "dedupe_evaluate lc t p = Some plan \<Longrightarrow> strategy plan = lit ''dedupe''"
  "micro_evaluate lc t p = Some plan \<Longrightarrow> strategy plan = lit ''micro''"
  "middle_evaluate lc t p = Some plan \<Longrightarrow> strategy plan = lit ''middle''"
  "elide_evaluate t p = Some plan \<Longrightarrow> strategy plan = lit ''elide''"
  "structured_evaluate t p = Some plan \<Longrightarrow> strategy plan = lit ''structured''"
  "sawtooth_evaluate t p = Some plan \<Longrightarrow> strategy plan = lit ''sawtooth''"
  "cliff_evaluate t p = Some plan \<Longrightarrow> strategy plan = lit ''cliff''"
  "scored_evaluate env t p = Some plan \<Longrightarrow> strategy plan = lit ''scored''"
  "cache_edits_evaluate env t p = Some plan \<Longrightarrow> strategy plan = lit ''cache_edits''"
  "auto_evaluate env t p = Some plan \<Longrightarrow> strategy plan = lit ''auto''"
  "agentic_evaluate env t p = Some plan \<Longrightarrow> strategy plan = lit ''agentic''"
proof -
  show "cache_aware_evaluate lc t p = Some plan \<Longrightarrow> strategy plan = lit ''cache_aware''"
    by (auto simp: cache_aware_evaluate_def Let_def simp del: lit_Cons split: if_splits option.splits)
  show "compacted_evaluate lc t p = Some plan \<Longrightarrow> strategy plan = lit ''compacted''"
    by (auto simp: compacted_evaluate_def Let_def simp del: lit_Cons split: if_splits option.splits)
  show "dedupe_evaluate lc t p = Some plan \<Longrightarrow> strategy plan = lit ''dedupe''"
    by (auto simp: dedupe_evaluate_def Let_def simp del: lit_Cons split: if_splits option.splits)
  show "micro_evaluate lc t p = Some plan \<Longrightarrow> strategy plan = lit ''micro''"
    by (auto simp: micro_evaluate_def Let_def simp del: lit_Cons split: if_splits option.splits)
  show "middle_evaluate lc t p = Some plan \<Longrightarrow> strategy plan = lit ''middle''"
    by (auto simp: middle_evaluate_def Let_def simp del: lit_Cons split: if_splits option.splits)
  show "elide_evaluate t p = Some plan \<Longrightarrow> strategy plan = lit ''elide''"
    by (auto simp: elide_evaluate_def Let_def simp del: lit_Cons split: if_splits prod.splits)
  show "structured_evaluate t p = Some plan \<Longrightarrow> strategy plan = lit ''structured''"
    by (auto simp: structured_evaluate_def Let_def simp del: lit_Cons split: if_splits)
  show "sawtooth_evaluate t p = Some plan \<Longrightarrow> strategy plan = lit ''sawtooth''"
    by (auto simp: sawtooth_evaluate_def Let_def simp del: lit_Cons split: if_splits)
  show "cliff_evaluate t p = Some plan \<Longrightarrow> strategy plan = lit ''cliff''"
    by (auto simp: cliff_evaluate_def Let_def simp del: lit_Cons split: if_splits option.splits prod.splits)
  show "scored_evaluate env t p = Some plan \<Longrightarrow> strategy plan = lit ''scored''"
    by (auto simp: scored_evaluate_def scores_to_plan_def Let_def simp del: lit_Cons split: if_splits option.splits prod.splits)
  show "cache_edits_evaluate env t p = Some plan \<Longrightarrow> strategy plan = lit ''cache_edits''"
    by (auto simp: cache_edits_evaluate_def Let_def simp del: lit_Cons split: if_splits prod.splits)
  show a: "auto_evaluate env t p = Some plan \<Longrightarrow> strategy plan = lit ''auto''"
    by (erule auto_evaluate_source)
  show "agentic_evaluate env t p = Some plan \<Longrightarrow> strategy plan = lit ''agentic''"
    by (auto simp: agentic_evaluate_def simp del: lit_Cons)
qed


text \<open>The registry is consistent: its ids are distinct, looking one up finds its strategy, and
  every plan a built-in strategy returns carries the id it was looked up by, starts from the
  session's context, and was proposed at or over the effective trigger.\<close>

theorem registry_consistent:
  "distinct (map fst (builtin_strategies env)) \<and>
   list_all (\<lambda>(sid, ev). strategy_by_id env sid = Some ev) (builtin_strategies env) \<and>
   (case strategy_by_id env sid of
      None \<Rightarrow> sid \<notin> fst ` set (builtin_strategies env)
    | Some ev \<Rightarrow>
        (case ev t p of
           None \<Rightarrow> True
         | Some plan \<Rightarrow> strategy plan = sid \<and> effective_trigger p \<le> context_tokens t \<and>
             context_tokens_before plan = context_tokens t))"
proof (intro conjI)
  show d: "distinct (map fst (builtin_strategies env))" by (simp add: builtin_strategies_def)
  show "list_all (\<lambda>(sid, ev). strategy_by_id env sid = Some ev) (builtin_strategies env)"
    by (simp add: strategy_by_id_def builtin_strategies_def)
  show "case strategy_by_id env sid of
      None \<Rightarrow> sid \<notin> fst ` set (builtin_strategies env)
    | Some ev \<Rightarrow>
        (case ev t p of
           None \<Rightarrow> True
         | Some plan \<Rightarrow> strategy plan = sid \<and> effective_trigger p \<le> context_tokens t \<and>
             context_tokens_before plan = context_tokens t)"
  proof (cases "find (\<lambda>(i, _). i = sid) (builtin_strategies env)")
    case None
    then have "sid \<notin> fst ` set (builtin_strategies env)" by (auto simp: find_None_iff)
    then show ?thesis using None by (simp add: strategy_by_id_def)
  next
    case (Some e)
    then obtain ev where e: "e = (sid, ev)" "(sid, ev) \<in> set (builtin_strategies env)"
      using find_SomeD [OF Some] by (cases e) auto
    have "strategy plan = sid \<and> effective_trigger p \<le> context_tokens t \<and>
        context_tokens_before plan = context_tokens t" if "ev t p = Some plan" for plan
      using e(2) that unfolding builtin_strategies_def
      by (auto simp del: lit_Cons dest: strategy_labels strategy_fires strategy_before
          auto.fires auto.before agentic.fires agentic.before)
    then show ?thesis using Some e by (auto simp: strategy_by_id_def split: option.split)
  qed
qed

text \<open>C33: Every built-in strategy but \<open>micro\<close>, and \<open>auto\<close> and \<open>agentic\<close> that can select it, proposes
  only plans the validator accepts: whenever the transcript is well formed and the digest fits its
  byte limit, no plan of any of them targets protected, dead or missing content, overlaps, or
  breaks a composition rule.\<close>

theorem builtin_plans_accepted:
  assumes "strategy_by_id env sid = Some ev" "ev t p = Some plan" "plan_ready t (edits plan)"
    and "sid \<notin> {lit ''micro'', lit ''auto'', lit ''agentic''}"
  shows "validate_edits t p (edits plan) = Inr ()"
proof -
  obtain e where "find (\<lambda>(i, _). i = sid) (builtin_strategies env) = Some e" "snd e = ev"
    using assms(1) by (auto simp: strategy_by_id_def)
  then have "(sid, ev) \<in> set (builtin_strategies env)"
    using find_SomeD by fastforce
  then show ?thesis using assms(2-4) unfolding builtin_strategies_def
    by (auto simp del: lit_Cons intro: strategy_accepted)
qed

definition sample_env :: std_env where
  "sample_env = \<lparr>lower = id, alphanumeric = is_ascii_alphanumeric, ln_f64 = (\<lambda>_. Fin 1),
     cube_f64 = (\<lambda>x. f64_mul x (f64_mul x x)), set_order = id, show_f64 = (\<lambda>_. []),
     show_f64_rounded = (\<lambda>_. [])\<rparr>"

theorem builtin_plans_accepted_witness:
  "\<exists>plan. elide_evaluate (sample_session Codex 10) default_policy = Some plan \<and>
    validate_edits (sample_session Codex 10) default_policy (edits plan) = Inr ()"
proof -
  let ?t = "sample_session Codex 10"
  have stale: "stale_candidates ?t default_policy = map sample_output [0, 1]"
    by (simp add: stale_candidates_eq default_keep upt_rec)
  have "elide_evaluate ?t default_policy \<noteq> None"
    unfolding elide_evaluate_None by (simp add: stale default_trigger default_keep)
  then obtain plan where plan: "elide_evaluate ?t default_policy = Some plan" by blast
  then obtain ls where "edits plan = [Elide ls DEFAULT_STUB []]" by (auto elim: elide_evaluate_Some)
  then have "digest_fits (edits plan)" by (simp add: digest_fits_def)
  then have "plan_ready ?t (edits plan)"
    using sample_session_ready [of 10 Codex]
    by (simp add: plan_ready_def tool_ids_ok_def list_all_iff sample_output_def)
  then have "validate_edits ?t default_policy (edits plan) = Inr ()"
    by (intro builtin_plans_accepted [of sample_env "lit ''elide''" elide_evaluate])
      (simp_all add: strategy_by_id_def builtin_strategies_def plan)
  then show ?thesis using plan by blast
qed

section \<open>Auto and protected outputs\<close>

text \<open>What \<open>auto\<close> proposes passes the validator whenever \<open>micro\<close> has no plan of its own, so \<open>micro\<close>
  is the only way a refused plan reaches the user through the default strategy.\<close>

theorem auto_accepted_without_micro:
  assumes "auto_evaluate env t p = Some plan" "micro_evaluate (lower env) t p = None"
    and "plan_ready t (edits plan)"
  shows "validate_edits t p (edits plan) = Inr ()"
proof -
  obtain ev chosen where ev: "ev t p = Some chosen" "edits plan = edits chosen"
    "ev \<in> set (file_strategies env) \<union> {cache_edits_evaluate env, sawtooth_evaluate}"
    using auto_evaluate_source [OF assms(1)] by metis
  then have "ev \<noteq> micro_evaluate (lower env)" using assms(2) by auto
  then show ?thesis using ev assms(3) file_strategy_accepted [of ev env t p chosen]
    by (auto intro: strategy_accepted)
qed

lemma small_session_plans:
  fixes n :: nat
  defines "t \<equiv> sample_session Codex n"
  assumes "n \<le> 8"
  shows "cache_aware_evaluate (lower env) t default_policy = None"
    "scored_evaluate env t default_policy = None" "elide_evaluate t default_policy = None"
    "compacted_evaluate (lower env) t default_policy = None"
    "dedupe_evaluate (lower env) t default_policy = None"
    "middle_evaluate (lower env) t default_policy = None" "structured_evaluate t default_policy = None"
proof -
  have stale: "stale_candidates t default_policy = []"
    using assms(2) by (simp add: t_def stale_candidates_eq default_keep)
  show "cache_aware_evaluate (lower env) t default_policy = None"
    using cache_aware_Some_iff [of "lower env" t default_policy] stale by blast
  have "map ((!) (items t)) (scored_candidates t default_policy) = []"
    unfolding map_scored_candidates by (rule stale)
  then have "scored_candidates t default_policy = []" by simp
  then have "scored_eligible t default_policy m = []" for m
    using scored_eligible_candidates [of t default_policy m] by auto
  then show "scored_evaluate env t default_policy = None"
    by (simp add: scored_evaluate_def scores_to_plan_def Let_def)
  show "elide_evaluate t default_policy = None" by (simp add: elide_evaluate_None stale)
  show "compacted_evaluate (lower env) t default_policy = None"
    by (simp add: compacted_evaluate_def Let_def stale choose_with_digest_def)
  show "dedupe_evaluate (lower env) t default_policy = None" by (simp add: dedupe_evaluate_def Let_def stale)
  have "set (middle_candidates t default_policy) = {}"
    using set_middle_candidates [of t default_policy] stale by simp
  then show "middle_evaluate (lower env) t default_policy = None"
    by (simp add: middle_evaluate_def Let_def choose_with_digest_def)
  show "structured_evaluate t default_policy = None"
    using assms(2) by (simp add: t_def structured_evaluate_def Let_def KEEP_TAIL_ITEMS_def)
qed

lemma micro_sample_plan:
  obtains plan digest where
    "micro_evaluate (lower sample_env) (sample_session Codex 3) default_policy = Some plan"
    "edits plan = [Elide [0] DEFAULT_STUB [], InjectDigest digest]"
    "context_tokens_before plan = 300000"
proof -
  let ?t = "sample_session Codex 3"
  have el: "elidable_items ?t = map sample_output [0, 1, 2]" by (simp add: upt_rec numeral_2_eq_2)
  have cs: "micro_candidates id ?t = [sample_output 0]"
    unfolding micro_candidates_def el
    by (simp add: unkept_def micro_keep_def group_positions_def micro_tool_def MICRO_KEEP_PER_LABEL_def)
  obtain chosen digest after where c:
    "choose_with_digest id ?t 40000 [sample_output 0] = Some (chosen, digest, after)"
    using choose_with_digest_Some_iff [of id ?t 40000 "[sample_output 0]"] by auto
  from choose_with_digest_SomeE [OF c] obtain k where "0 < k" "k \<le> 1"
    "chosen = sort (map line_index (take k [sample_output 0]))" by auto
  then have "chosen = [0]" by (cases k) auto
  then show thesis using that c el
    by (simp add: micro_evaluate_def Let_def default_trigger cs default_keep sample_env_def)
qed

lemma auto_sample_plan:
  obtains plan digest where "auto_evaluate sample_env (sample_session Codex 3) default_policy = Some plan"
    "strategy plan = lit ''auto''" "edits plan = [Elide [0] DEFAULT_STUB [], InjectDigest digest]"
proof -
  let ?t = "sample_session Codex 3"
  obtain m digest where m: "micro_evaluate (lower sample_env) ?t default_policy = Some m"
    "edits m = [Elide [0] DEFAULT_STUB [], InjectDigest digest]" "context_tokens_before m = 300000"
    by (rule micro_sample_plan)
  have plans: "List.map_filter (\<lambda>s. s ?t default_policy) (file_strategies sample_env) = [m]"
    using small_session_plans [where n = 3] m(1) by (simp add: file_strategies_def List.map_filter_def)
  have "f64_of_u64 0 = Fin 0" "f64_div (Fin 0) (f64_of_u64 300000) = Fin 0"
    by (simp_all add: f64_of_u64_Fin rne_of_nat [of 300000, simplified] rne_of_nat [of 0, simplified]
        f64_of_rat_Fin)
  then have "plan_score sample_env ?t m = f64_mul (f64_of_u64 (est_savings m)) (Fin 0)"
    using m(2,3)
    by (simp add: plan_score_def cache_preservation_score_def prefix_tokens_def first_elided_line_def
        List.map_filter_def sample_env_def f64_of_rat_Fin rne_of_nat [of 0, simplified])
  also have "\<dots> = Fin 0"
    by (simp add: f64_of_u64_Fin f64_of_rat_Fin rne_of_nat [of 0, simplified])
  finally have "f64_less (Fin (- 1)) (plan_score sample_env ?t m)" by simp
  then have auto: "auto_evaluate sample_env ?t default_policy =
      Some (relabel (lit ''auto'') (lit ''auto: selected '' @ strategy m @ lit '' (score '' @
        show_f64_rounded sample_env (plan_score sample_env ?t m) @ lit ''); '') m)"
    using plans by (simp add: auto_evaluate_def Let_def upt_rec del: lit_Cons)
  then show thesis using that m(2) by simp
qed

text \<open>The default strategy can propose what the validator refuses: on an idle session of three
  large outputs of one tool under the default policy every other file strategy declines, \<open>auto\<close>
  selects the plan of \<open>micro\<close>, and validation of the selected plan fails.\<close>

theorem auto_selects_refused_plan:
  "case auto_evaluate sample_env (sample_session Codex 3) default_policy of
     None \<Rightarrow> False
   | Some plan \<Rightarrow>
       strategy plan = lit ''auto'' \<and> elided_lines (hd (edits plan)) = [0] \<and>
       isl (validate_edits (sample_session Codex 3) default_policy (edits plan))"
proof -
  let ?t = "sample_session Codex 3"
  obtain plan digest where auto: "auto_evaluate sample_env ?t default_policy = Some plan"
    "strategy plan = lit ''auto''" "edits plan = [Elide [0] DEFAULT_STUB [], InjectDigest digest]"
    by (rule auto_sample_plan)
  have "0 \<in> set (protected_lines ?t 8)"
    unfolding protected_lines_eq by (simp add: image_comp comp_def)
  then have "\<not> elision_target ?t (keep_recent_tool_outputs default_policy) 0"
    by (simp add: elision_target_def default_keep)
  then have "validate_edits ?t default_policy (edits plan) \<noteq> Inr ()"
    unfolding validate_edits_iff auto plan_admissible_def by simp
  then have "isl (validate_edits ?t default_policy (edits plan))"
    by (cases "validate_edits ?t default_policy (edits plan)") auto
  then show ?thesis using auto by simp
qed

theorem auto_picks_best_witness:
  "\<exists>plan s. auto_evaluate sample_env (sample_session Codex 3) default_policy = Some plan \<and>
     s \<in> set (file_strategies sample_env) \<and> s (sample_session Codex 3) default_policy \<noteq> None"
proof -
  obtain plan where "auto_evaluate sample_env (sample_session Codex 3) default_policy = Some plan"
    using auto_sample_plan by blast
  with auto_picks_best [OF this] show ?thesis by auto
qed

theorem auto_accepted_without_micro_witness:
  "\<exists>plan. auto_evaluate sample_env (sample_session Codex 0) default_policy = Some plan \<and>
     validate_edits (sample_session Codex 0) default_policy (edits plan) = Inr ()"
proof -
  let ?t = "sample_session Codex 0"
  obtain plan where plan: "auto_evaluate sample_env ?t default_policy = Some plan"
    "edits plan = [ProviderCompact (sawtooth_control Codex)]"
    by (simp add: auto_evaluate_def auto_live_def sawtooth_evaluate_def Let_def default_trigger
        del: lit_Cons)
  have "micro_evaluate (lower sample_env) ?t default_policy = None"
    by (simp add: micro_evaluate_def Let_def)
  moreover have "plan_ready ?t (edits plan)"
    using sample_session_ready [of 0 Codex] plan
    by (simp add: plan_ready_def tool_ids_ok_def digest_fits_def)
  ultimately show ?thesis using auto_accepted_without_micro plan(1) by blast
qed

section \<open>Model calls\<close>

lemma kept_items_mem:
  "kept_items n calls kept = Some ks \<Longrightarrow>
     set kept \<subseteq> set ks \<and> (\<forall>a b. Keep a b \<in> set calls \<longrightarrow> set [a..<b] \<subseteq> set ks)"
  by (induction n calls kept rule: kept_items.induct) (fastforce split: if_splits)+

lemma calls_to_edits_elides:
  assumes "calls_to_edits t kept calls es projected = Some (es', projected')"
    and "\<forall>e \<in> set es. \<forall>l \<in> set (elided_lines e).
      \<exists>i < length (items t). i \<notin> set kept \<and> line_index (items t ! i) = l"
  shows "\<forall>e \<in> set es'. \<forall>l \<in> set (elided_lines e).
      \<exists>i < length (items t). i \<notin> set kept \<and> line_index (items t ! i) = l"
  using assms
proof (induction t kept calls es projected rule: calls_to_edits.induct)
  case (4 t kept idxs calls es projected)
  then have ok: "\<not> list_ex (\<lambda>i. i \<in> set kept \<or> i \<ge> length (items t)) idxs"
    by (auto split: if_splits)
  let ?valid = "map line_index (filter is_elidable (map ((!) (items t)) idxs))"
  let ?es = "if ?valid \<noteq> [] then es @ [Elide ?valid DEFAULT_STUB []] else es"
  have "\<forall>l \<in> set ?valid. \<exists>i < length (items t). i \<notin> set kept \<and> line_index (items t ! i) = l"
    using ok by (auto simp: list_ex_iff not_le)
  then have inv: "\<forall>e \<in> set ?es. \<forall>l \<in> set (elided_lines e).
      \<exists>i < length (items t). i \<notin> set kept \<and> line_index (items t ! i) = l"
    using "4.prems"(2) by (auto split: if_splits)
  have "calls_to_edits t kept calls ?es (fold (subtract_line t) ?valid projected) = Some (es', projected')"
    using "4.prems"(1) ok by (simp add: Let_def)
  from "4.IH" [OF ok refl refl refl this inv] show ?case .
next
  case (5 t kept a b s calls es projected)
  then show ?case by (auto split: if_splits)
qed auto



end
