(* ===== verification/Json.thy ===== *)
theory Json
  imports Strings "HOL-Library.List_Lexorder"
begin

text \<open>
  JSON values as \<open>serde_json\<close> represents them with its \<open>preserve_order\<close> feature, which the
  workspace enables: an object is the list of its fields in insertion order, keys distinct.
  The texts are the ones the request engine measures and hashes (\<open>request/mod.rs\<close>): the compact
  serialization, the canonical one with sorted keys, and the length of a spaced dump. A floating
  point number is kept as the text it is printed as, because nothing computes with it.
\<close>

section \<open>Values\<close>

datatype json_number = PosInt u64 | NegInt nat | Float ustr

datatype json =
    JNull
  | JBool bool
  | JNum json_number
  | JStr ustr
  | JArr "json list"
  | JObj "(ustr \<times> json) list"

type_synonym json_map = "(ustr \<times> json) list"

definition json_get :: "json \<Rightarrow> ustr \<Rightarrow> json option" where
  "json_get v k = (case v of JObj kvs \<Rightarrow> map_of kvs k | _ \<Rightarrow> None)"

definition as_str :: "json \<Rightarrow> ustr option" where
  "as_str v = (case v of JStr s \<Rightarrow> Some s | _ \<Rightarrow> None)"

definition as_array :: "json \<Rightarrow> json list option" where
  "as_array v = (case v of JArr vs \<Rightarrow> Some vs | _ \<Rightarrow> None)"

definition as_bool :: "json \<Rightarrow> bool option" where
  "as_bool v = (case v of JBool b \<Rightarrow> Some b | _ \<Rightarrow> None)"

definition as_u64 :: "json \<Rightarrow> u64 option" where
  "as_u64 v = (case v of JNum (PosInt n) \<Rightarrow> Some n | _ \<Rightarrow> None)"

definition is_object :: "json \<Rightarrow> bool" where
  "is_object v \<longleftrightarrow> (case v of JObj _ \<Rightarrow> True | _ \<Rightarrow> False)"

definition is_string :: "json \<Rightarrow> bool" where
  "is_string v \<longleftrightarrow> (case v of JStr _ \<Rightarrow> True | _ \<Rightarrow> False)"

text \<open>\<open>value.get(key).and_then(Value::as_str).unwrap_or("")\<close>\<close>

definition get_str :: "json \<Rightarrow> ustr \<Rightarrow> ustr option" where
  "get_str v k = Option.bind (json_get v k) as_str"

definition str_field :: "json \<Rightarrow> ustr \<Rightarrow> ustr" where
  "str_field v k = (case get_str v k of Some s \<Rightarrow> s | None \<Rightarrow> [])"

text \<open>An insertion replaces the value in place or appends the field; a removal moves the last
  field into the gap (\<open>swap_remove\<close>).\<close>

fun obj_insert :: "ustr \<Rightarrow> json \<Rightarrow> json_map \<Rightarrow> json_map" where
  "obj_insert k v [] = [(k, v)]"
| "obj_insert k v ((k', v') # kvs) =
     (if k' = k then (k, v) # kvs else (k', v') # obj_insert k v kvs)"

fun swap_remove :: "ustr \<Rightarrow> json_map \<Rightarrow> json_map" where
  "swap_remove k [] = []"
| "swap_remove k ((k', v') # kvs) =
     (if k' = k then (if kvs = [] then [] else last kvs # butlast kvs)
      else (k', v') # swap_remove k kvs)"

definition remove_field :: "ustr \<Rightarrow> json \<Rightarrow> json" where
  "remove_field k v = (case v of JObj kvs \<Rightarrow> JObj (swap_remove k kvs) | _ \<Rightarrow> v)"

text \<open>\<open>other_fields\<close>: an object with the fields that are not known; nothing of a value that is not
  an object.\<close>

definition other_fields :: "json \<Rightarrow> ustr list \<Rightarrow> json" where
  "other_fields v known =
     JObj (case v of JObj kvs \<Rightarrow> filter (\<lambda>(k, _). k \<notin> set known) kvs | _ \<Rightarrow> [])"

section \<open>Texts\<close>

definition hex_digit :: "nat \<Rightarrow> nat" where
  "hex_digit n = (if n < 10 then 48 + n else 87 + n)"

definition escape_char :: "nat \<Rightarrow> ustr" where
  "escape_char c =
     (if c = 34 then [92, 34] else if c = 92 then [92, 92] else if c = 8 then [92, 98]
      else if c = 9 then [92, 116] else if c = 10 then [92, 110] else if c = 12 then [92, 102]
      else if c = 13 then [92, 114]
      else if c < 32 then [92, 117, 48, 48, hex_digit (c div 16), hex_digit (c mod 16)]
      else [c])"

definition json_string :: "ustr \<Rightarrow> ustr" where
  "json_string s = [34] @ concat (map escape_char s) @ [34]"

definition number_text :: "json_number \<Rightarrow> ustr" where
  "number_text n = (case n of PosInt w \<Rightarrow> dec (unat w) | NegInt m \<Rightarrow> 45 # dec m | Float s \<Rightarrow> s)"

fun json_text :: "json \<Rightarrow> ustr" where
  "json_text JNull = lit ''null''"
| "json_text (JBool b) = (if b then lit ''true'' else lit ''false'')"
| "json_text (JNum n) = number_text n"
| "json_text (JStr s) = json_string s"
| "json_text (JArr vs) = [91] @ join [44] (map json_text vs) @ [93]"
| "json_text (JObj kvs) =
     [123] @ join [44] (map (\<lambda>(k, v). json_string k @ [58] @ json_text v) kvs) @ [125]"

fun canonical_json :: "json \<Rightarrow> ustr" where
  "canonical_json (JObj kvs) =
     [123] @ join [44] (map (\<lambda>(k, s). json_string k @ [58] @ s)
       (sort_key fst (map (\<lambda>(k, v). (k, canonical_json v)) kvs))) @ [125]"
| "canonical_json (JArr vs) = [91] @ join [44] (map canonical_json vs) @ [93]"
| "canonical_json v = json_text v"

fun string_chars :: "ustr \<Rightarrow> nat" where
  "string_chars s = 2 + sum_list (map (\<lambda>c.
     if c \<in> set [34, 92, 10, 13, 9, 8, 12] then 2 else if c < 32 then 6 else 1) s)"

definition escaped_chars :: "ustr \<Rightarrow> nat" where
  "escaped_chars s = string_chars s - 2"

fun json_chars :: "json \<Rightarrow> nat" where
  "json_chars JNull = 4"
| "json_chars (JBool b) = (if b then 4 else 5)"
| "json_chars (JNum n) = str_len (number_text n)"
| "json_chars (JStr s) = string_chars s"
| "json_chars (JArr vs) = 2 + sum_list (map json_chars vs) + 2 * (length vs - 1)"
| "json_chars (JObj kvs) =
     2 + sum_list (map (\<lambda>(k, v). string_chars k + 2 + json_chars v) kvs) + 2 * (length kvs - 1)"

text \<open>\<open>digest_value\<close>; \<open>sha\<close> stands for \<open>sha256_hex\<close> of the UTF-8 bytes of a text, which the crate
  \<open>sha2\<close> provides.\<close>

definition digest_value :: "(ustr \<Rightarrow> ustr) \<Rightarrow> json \<Rightarrow> ustr" where
  "digest_value sha v = sha (canonical_json v)"

text \<open>\<open>chain[i]\<close> hashes the previous hash followed by the digest of message \<open>i\<close>.\<close>

fun chain_from :: "(ustr \<Rightarrow> ustr) \<Rightarrow> ustr \<Rightarrow> ustr list \<Rightarrow> ustr list" where
  "chain_from sha previous [] = []"
| "chain_from sha previous (d # ds) =
     (let h = sha (previous @ d) in h # chain_from sha h ds)"

definition chain_hashes :: "(ustr \<Rightarrow> ustr) \<Rightarrow> ustr list \<Rightarrow> ustr list" where
  "chain_hashes sha digests = chain_from sha [] digests"

section \<open>Serialization is unambiguous\<close>

text \<open>What \<open>serde_json\<close> guarantees of its values: distinct keys, negative numbers below zero, and
  floating point texts that read as no integer.\<close>

definition num_char :: "nat \<Rightarrow> bool" where
  "num_char c \<longleftrightarrow> is_ascii_digit c \<or> c \<in> {43, 45, 46, 101}"

definition float_text :: "ustr \<Rightarrow> bool" where
  "float_text s \<longleftrightarrow> list_all num_char s \<and> list_ex (\<lambda>c. c = 46 \<or> c = 101) s \<and>
     (is_ascii_digit (hd s) \<or> hd s = 45)"

definition number_ok :: "json_number \<Rightarrow> bool" where
  "number_ok n = (case n of PosInt _ \<Rightarrow> True | NegInt m \<Rightarrow> 0 < m | Float s \<Rightarrow> float_text s)"

fun json_ok :: "json \<Rightarrow> bool" where
  "json_ok (JNum n) = number_ok n"
| "json_ok (JArr vs) = list_all json_ok vs"
| "json_ok (JObj kvs) = (distinct (map fst kvs) \<and> list_all (\<lambda>(k, v). json_ok v) kvs)"
| "json_ok _ = True"

text \<open>The value with the fields of every object sorted by key.\<close>

fun normal :: "json \<Rightarrow> json" where
  "normal (JObj kvs) = JObj (sort_key fst (map (\<lambda>(k, v). (k, normal v)) kvs))"
| "normal (JArr vs) = JArr (map normal vs)"
| "normal v = v"

lemma map_sort_key_snd:
  "map (\<lambda>(k, v). (k, f v)) (sort_key fst xs) = sort_key fst (map (\<lambda>(k, v). (k, f v)) xs)"
proof -
  have ins: "map (\<lambda>(k, v). (k, f v)) (insort_key fst x ys) =
      insort_key fst (case x of (k, v) \<Rightarrow> (k, f v)) (map (\<lambda>(k, v). (k, f v)) ys)" for x ys
    by (induction ys) (auto split: prod.splits)
  show ?thesis by (induction xs) (simp_all add: ins)
qed

lemma distinct_keys_sort_key: "distinct (map fst (sort_key fst xs)) \<longleftrightarrow> distinct (map fst xs)"
proof -
  have ins: "distinct (map fst (insort_key fst x ys)) \<longleftrightarrow> distinct (map fst (x # ys))"
    for x :: "'a::linorder \<times> 'b" and ys
    by (induction ys) (auto simp: set_insort_key)
  show ?thesis by (induction xs) (auto simp: ins)
qed

lemma canonical_json_normal: "canonical_json v = json_text (normal v)"
proof (induction v rule: canonical_json.induct)
  case (1 kvs)
  have "map (\<lambda>(k, v). (k, canonical_json v)) kvs = map (\<lambda>(k, v). (k, json_text (normal v))) kvs"
    using 1 by auto
  also have "\<dots> = map (\<lambda>(k, v). (k, json_text v)) (map (\<lambda>(k, v). (k, normal v)) kvs)"
    by auto
  finally have s: "sort_key fst (map (\<lambda>(k, v). (k, canonical_json v)) kvs) =
      map (\<lambda>(k, v). (k, json_text v)) (sort_key fst (map (\<lambda>(k, v). (k, normal v)) kvs))"
    by (simp only: map_sort_key_snd)
  show ?case unfolding canonical_json.simps normal.simps json_text.simps s
    by (simp add: comp_def case_prod_unfold)
qed (simp_all cong: map_cong)

lemma normal_ok: "json_ok v \<Longrightarrow> json_ok (normal v)"
proof (induction v rule: normal.induct)
  case (1 kvs)
  have eq: "fst \<circ> (\<lambda>(k, v). (k, normal v)) = fst" by auto
  show ?case using 1 by (auto simp: list_all_iff distinct_keys_sort_key eq)
qed (auto simp: list_all_iff)

definition delim :: "ustr \<Rightarrow> bool" where
  "delim x \<longleftrightarrow> (case x of [] \<Rightarrow> True | c # _ \<Rightarrow> c = 44 \<or> c = 93 \<or> c = 125)"

lemma delim_simps [simp]:
  "delim []" "delim (44 # x)" "delim (93 # x)" "delim (125 # x)"
  by (simp_all add: delim_def)

lemma delim_not_num: "delim (c # x) \<Longrightarrow> \<not> num_char c"
  by (auto simp: delim_def num_char_def is_ascii_digit_def)

definition unhex :: "nat \<Rightarrow> nat" where
  "unhex d = (if d < 58 then d - 48 else d - 87)"

text \<open>Reads one escaped character back.\<close>

definition unescape :: "ustr \<Rightarrow> nat \<times> ustr" where
  "unescape x =
     (if hd x \<noteq> 92 then (hd x, tl x)
      else if x ! 1 = 98 then (8, drop 2 x) else if x ! 1 = 116 then (9, drop 2 x)
      else if x ! 1 = 110 then (10, drop 2 x) else if x ! 1 = 102 then (12, drop 2 x)
      else if x ! 1 = 114 then (13, drop 2 x)
      else if x ! 1 = 117 then (16 * unhex (x ! 4) + unhex (x ! 5), drop 6 x)
      else (x ! 1, drop 2 x))"

lemma unhex_digit: "n < 16 \<Longrightarrow> unhex (hex_digit n) = n"
  by (auto simp: unhex_def hex_digit_def)

lemma unescape_escape: "unescape (escape_char c @ r) = (c, r)"
proof -
  let ?short = "[34, 92, 8, 9, 10, 12, 13]"
  have hexed: "escape_char c = [92, 117, 48, 48, hex_digit (c div 16), hex_digit (c mod 16)]"
    if "c \<notin> set ?short" "c < 32" using that by (simp add: escape_char_def)
  have "list_all (\<lambda>c. unescape (escape_char c @ r) = (c, r)) ?short"
    by (simp add: unescape_def escape_char_def)
  then have "unescape (escape_char c @ r) = (c, r)" if "c \<in> set ?short"
    using that unfolding list_all_iff by blast
  moreover have "unescape (escape_char c @ r) = (c, r)" if "c \<notin> set ?short" "c < 32"
  proof -
    have "c div 16 < 16" "c mod 16 < 16" using that(2) by auto
    then show ?thesis
      unfolding hexed [OF that] by (simp add: unescape_def unhex_digit)
  qed
  moreover have "unescape (escape_char c @ r) = (c, r)" if "c \<notin> set ?short" "\<not> c < 32"
    using that by (simp add: unescape_def escape_char_def)
  ultimately show ?thesis by blast
qed

lemma escape_char_inject: "escape_char c @ r = escape_char d @ r' \<Longrightarrow> c = d \<and> r = r'"
  using unescape_escape by (metis prod.inject)

lemma escape_char_head: "escape_char c \<noteq> []" "hd (escape_char c) \<noteq> 34"
  by (simp_all add: escape_char_def)

lemma escaped_inject:
  "concat (map escape_char s) @ 34 # x = concat (map escape_char t) @ 34 # y \<Longrightarrow> s = t \<and> x = y"
proof (induction s arbitrary: t)
  case Nil
  show ?case
  proof (cases t)
    case Nil
    then show ?thesis using Nil.prems by simp
  next
    case (Cons d t')
    then show ?thesis using Nil.prems escape_char_head [of d] by (cases "escape_char d") auto
  qed
next
  case (Cons c s)
  show ?case
  proof (cases t)
    case Nil
    then show ?thesis using Cons.prems escape_char_head [of c] by (cases "escape_char c") auto
  next
    case (Cons d t')
    then show ?thesis using Cons.prems Cons.IH [of t'] escape_char_inject [of c _ d] by auto
  qed
qed

lemma json_string_inject: "json_string s @ x = json_string t @ y \<Longrightarrow> s = t \<and> x = y"
  by (auto simp: json_string_def dest: escaped_inject)


lemma number_text_chars: "number_ok n \<Longrightarrow> list_all num_char (number_text n)"
  using dec_digits by (auto simp: number_ok_def number_text_def float_text_def num_char_def list_all_iff
    split: json_number.splits)

lemma dec_inject: "dec n = dec m \<Longrightarrow> n = m"
  by (metis dec_value_dec)

lemma dec_no: "\<not> is_ascii_digit c \<Longrightarrow> c \<notin> set (dec n)"
  using dec_digits by (auto simp: list_all_iff)

lemma number_text_eq:
  assumes "number_ok n" "number_ok m" "number_text n = number_text m"
  shows "n = m"
proof -
  have no: "46 \<notin> set (dec k)" "101 \<notin> set (dec k)" "45 \<notin> set (dec k)" for k
    using dec_no by (auto simp: is_ascii_digit_def)
  have flt: "float_text s \<Longrightarrow> s \<noteq> dec k \<and> s \<noteq> 45 # dec k" for s k
    using no by (auto simp: float_text_def list_ex_iff)
  have neg: "dec k \<noteq> 45 # dec l" for k l using no by (metis list.set_intros(1))
  have "dec (unat a) = dec (unat b) \<Longrightarrow> a = b" for a b :: u64
    using dec_inject word_unat_eq_iff by blast
  then show ?thesis using assms flt neg neg [symmetric] dec_inject
    by (cases n; cases m) (auto simp: number_ok_def number_text_def)
qed

lemma number_text_inject:
  assumes "number_ok n" "number_ok m" "delim x" "delim y" "number_text n @ x = number_text m @ y"
  shows "n = m \<and> x = y"
proof -
  have tw: "takeWhile num_char (number_text k @ z) = number_text k" if "number_ok k" "delim z" for k z
    using number_text_chars [OF that(1)] delim_not_num that(2)
    by (cases z) (auto simp: takeWhile_append2 list_all_iff takeWhile_append)
  have "number_text n = number_text m" using tw assms by metis
  then show ?thesis using assms number_text_eq by auto
qed

lemma number_text_head:
  assumes "number_ok n"
  shows "number_text n \<noteq> [] \<and> (is_ascii_digit (hd (number_text n)) \<or> hd (number_text n) = 45)"
proof -
  have "dec k \<noteq> [] \<and> is_ascii_digit (hd (dec k))" for k
    using dec_digits [of k] by (cases "dec k") auto
  then show ?thesis using assms
    by (auto simp: number_ok_def number_text_def float_text_def split: json_number.splits)
qed

lemma join_Cons: "join sep (x # ys) = x @ (if ys = [] then [] else sep @ join sep ys)"
  by (cases ys) auto

lemma join_inject:
  assumes f: "\<And>v w x y. v \<in> set vs \<Longrightarrow> w \<in> set ws \<Longrightarrow> delim x \<Longrightarrow> delim y \<Longrightarrow>
      f v @ x = f w @ y \<Longrightarrow> v = w \<and> x = y"
    and h: "\<And>v. v \<in> set vs \<union> set ws \<Longrightarrow> f v \<noteq> [] \<and> hd (f v) \<noteq> c"
    and c: "c = 93 \<or> c = 125"
    and eq: "join [44] (map f vs) @ c # x = join [44] (map f ws) @ c # y"
  shows "vs = ws \<and> x = y"
  using f h eq
proof (induction vs arbitrary: ws)
  case Nil
  show ?case
  proof (cases ws)
    case Nil
    then show ?thesis using Nil.prems by simp
  next
    case (Cons w ws')
    then show ?thesis using Nil.prems(2) [of w] Nil.prems(3) by (cases "f w") (auto simp: join_Cons)
  qed
next
  case (Cons v vs)
  show ?case
  proof (cases ws)
    case Nil
    then show ?thesis using Cons.prems(2) [of v] Cons.prems(3) by (cases "f v") (auto simp: join_Cons)
  next
    case ws: (Cons w ws')
    define rest where "rest us z = (if us = [] then c # z else 44 # join [44] (map f us) @ c # z)" for us z
    have d: "delim (rest us z)" for us z using c by (auto simp: rest_def)
    have "f v @ rest vs x = f w @ rest ws' y"
      using Cons.prems(3) ws by (auto simp: rest_def join_Cons)
    then have vw: "v = w" "rest vs x = rest ws' y"
      using Cons.prems(1) [of v w "rest vs x" "rest ws' y"] ws d by auto
    then have e: "vs = [] \<longleftrightarrow> ws' = []" "join [44] (map f vs) @ c # x = join [44] (map f ws') @ c # y"
      using c by (auto simp: rest_def split: if_splits)
    have "vs = ws' \<and> x = y"
      by (rule Cons.IH) (use Cons.prems(1,2) ws e in auto)
    then show ?thesis using ws vw(1) by simp
  qed
qed


lemma json_string_head: "json_string s \<noteq> []" "hd (json_string s) = 34"
  by (simp_all add: json_string_def)

lemma json_text_head:
  assumes "json_ok v"
  shows "json_text v \<noteq> [] \<and> hd (json_text v) \<noteq> 93 \<and> hd (json_text v) \<noteq> 125"
proof (cases v)
  case (JNum n)
  then show ?thesis using assms number_text_head [of n] by (auto simp: is_ascii_digit_def)
qed (auto simp: json_string_def)

lemma field_inject:
  assumes "\<And>x y. delim x \<Longrightarrow> delim y \<Longrightarrow> json_text v @ x = json_text w @ y \<Longrightarrow> v = w \<and> x = y"
    and "delim x" "delim y"
    and "(json_string k @ [58] @ json_text v) @ x = (json_string l @ [58] @ json_text w) @ y"
  shows "(k, v) = (l, w) \<and> x = y"
  using assms json_string_inject [of k "58 # json_text v @ x" l "58 # json_text w @ y"] by auto

lemma number_head:
  assumes "number_ok n"
  shows "(hd (number_text n) = 110) = False" "(hd (number_text n) = 116) = False"
    "(hd (number_text n) = 102) = False" "(hd (number_text n) = 34) = False"
    "(hd (number_text n) = 91) = False" "(hd (number_text n) = 123) = False"
  using number_text_head [OF assms] by (auto simp: is_ascii_digit_def)

lemma json_text_same_kind:
  assumes "json_ok a" "json_ok b" "json_text a @ x = json_text b @ y"
  shows "case a of JNull \<Rightarrow> b = JNull | JBool c \<Rightarrow> b = JBool c | JNum _ \<Rightarrow> (\<exists>m. b = JNum m)
    | JStr _ \<Rightarrow> (\<exists>t. b = JStr t) | JArr _ \<Rightarrow> (\<exists>ws. b = JArr ws) | JObj _ \<Rightarrow> (\<exists>ms. b = JObj ms)"
proof -
  have "hd (json_text a) = hd (json_text b)"
    using assms json_text_head by (metis hd_append2)
  then show ?thesis using assms(1,2)
    by (cases a; cases b) (auto simp: number_head json_string_head split: if_splits)
qed

lemma json_text_inject:
  "json_ok a \<Longrightarrow> json_ok b \<Longrightarrow> delim x \<Longrightarrow> delim y \<Longrightarrow> json_text a @ x = json_text b @ y \<Longrightarrow>
     a = b \<and> x = y"
proof (induction a arbitrary: b x y rule: json_text.induct)
  case 1
  from json_text_same_kind [OF 1(1,2,5)] have "b = JNull" by simp
  then show ?case using 1(5) by simp
next
  case (2 c)
  from json_text_same_kind [OF 2(1,2,5)] have "b = JBool c" by simp
  then show ?case using 2(5) by simp
next
  case (3 n)
  from json_text_same_kind [OF 3(1,2,5)] obtain m where "b = JNum m" by auto
  then show ?case using 3 number_text_inject [of n m x y] by simp
next
  case (4 s)
  from json_text_same_kind [OF 4(1,2,5)] obtain t where "b = JStr t" by auto
  then show ?case using 4(5) json_string_inject [of s x t y] by simp
next
  case (5 vs)
  from json_text_same_kind [OF 5(2,3,6)] obtain ws where b: "b = JArr ws" by auto
  have "vs = ws \<and> x = y"
  proof (rule join_inject [where f = json_text and c = 93])
    show "v = w \<and> x = y" if "v \<in> set vs" "w \<in> set ws" "delim x" "delim y"
      "json_text v @ x = json_text w @ y" for v w x y
    proof (rule 5(1) [OF that(1) _ _ that(3-5)])
      show "json_ok v" "json_ok w" using 5(2,3) that(1,2) b by (simp_all add: list_all_iff)
    qed
    show "json_text v \<noteq> [] \<and> hd (json_text v) \<noteq> 93" if "v \<in> set vs \<union> set ws" for v
      using that 5(2,3) b json_text_head [of v] by (auto simp: list_all_iff)
  qed (use 5(6) b in simp_all)
  then show ?case using b by simp
next
  case (6 kvs)
  from json_text_same_kind [OF 6(2,3,6)] obtain ms where b: "b = JObj ms" by auto
  let ?f = "\<lambda>(k, v). json_string k @ [58] @ json_text v"
  have "kvs = ms \<and> x = y"
  proof (rule join_inject [where f = ?f and c = 125])
    show "v = w \<and> x = y" if in_sets: "v \<in> set kvs" "w \<in> set ms" and ds: "delim x" "delim y"
      and eq: "?f v @ x = ?f w @ y" for v w x y
    proof -
      obtain k u l z where vw: "v = (k, u)" "w = (l, z)" by (metis surj_pair)
      have "json_ok u" "json_ok z" using in_sets vw 6(2,3) b by (auto simp: list_all_iff)
      then have "\<And>x y. delim x \<Longrightarrow> delim y \<Longrightarrow> json_text u @ x = json_text z @ y \<Longrightarrow> u = z \<and> x = y"
        using 6(1) [OF in_sets(1) [unfolded vw(1)] refl] by blast
      then show ?thesis using field_inject [of u z x y k l] ds eq vw by simp
    qed
    show "?f v \<noteq> [] \<and> hd (?f v) \<noteq> 125" if "v \<in> set kvs \<union> set ms" for v
      using json_string_head [of "fst v"] by (simp add: case_prod_beta)
  qed (use 6(6) b in simp_all)
  then show ?case using b by simp
qed


lemma distinct_keys_map_snd:
  "distinct (map fst (map (\<lambda>(k, v). (k, f v)) kvs)) \<longleftrightarrow> distinct (map fst kvs)"
proof -
  have "map fst (map (\<lambda>(k, v). (k, f v)) kvs) = map fst kvs" by auto
  then show ?thesis by (simp only:)
qed

lemma normal_reorder:
  assumes "set kvs = set ms" "distinct (map fst kvs)" "distinct (map fst ms)"
  shows "normal (JObj kvs) = normal (JObj ms)"
proof -
  let ?n = "map (\<lambda>(k, v). (k, normal v))"
  have d: "distinct (map fst (?n kvs))" "distinct (map fst (?n ms))"
    using assms(2,3) by (simp_all add: distinct_keys_map_snd del: map_map)
  have "inj_on fst (set (?n kvs))" using d(1) unfolding distinct_map by blast
  moreover have sets: "set (?n kvs) = set (?n ms)" using assms(1) by simp
  ultimately have "sort_key fst (?n kvs) = sort_key fst (?n ms)"
    using d by (intro map_sorted_distinct_set_unique [where f = fst])
      (simp_all add: distinct_keys_sort_key del: set_map map_map)
  then show ?thesis by simp
qed

section \<open>Sizes\<close>

text \<open>The spaced dump, with a blank after every comma and colon.\<close>

fun spaced_text :: "json \<Rightarrow> ustr" where
  "spaced_text (JArr vs) = [91] @ join [44, 32] (map spaced_text vs) @ [93]"
| "spaced_text (JObj kvs) =
     [123] @ join [44, 32] (map (\<lambda>(k, v). json_string k @ [58, 32] @ spaced_text v) kvs) @ [125]"
| "spaced_text v = json_text v"

lemma length_json_string: "length (json_string s) = string_chars s"
proof -
  have "length (escape_char c) = (if c \<in> set [34, 92, 10, 13, 9, 8, 12] then 2 else if c < 32 then 6 else 1)"
    for c by (simp add: escape_char_def)
  then show ?thesis by (simp add: json_string_def length_concat comp_def)
qed

lemma string_chars_append: "string_chars (s @ t) = string_chars s + escaped_chars t"
  by (simp add: escaped_chars_def)

lemma escaped_chars_append [simp]: "escaped_chars (s @ t) = escaped_chars s + escaped_chars t"
  by (simp add: escaped_chars_def)

lemma length_join: "length (join sep xs) = sum_list (map length xs) + length sep * (length xs - 1)"
  by (induction sep xs rule: join.induct) auto

lemma str_len_ascii: "list_all (\<lambda>c. c < 128) s \<Longrightarrow> str_len s = length s"
  by (induction s) (auto simp: utf8_len_def)

lemma json_chars_spaced: "json_ok v \<Longrightarrow> json_chars v = length (spaced_text v)"
proof (induction v rule: json_chars.induct)
  case (3 n)
  then have "list_all (\<lambda>c. c < 128) (number_text n)"
    using number_text_chars [of n] by (auto simp: list_all_iff num_char_def is_ascii_digit_def)
  then show ?case by (simp add: str_len_ascii)
next
  case (4 s)
  then show ?case by (simp add: length_json_string del: string_chars.simps)
next
  case (5 vs)
  then have e: "map json_chars vs = map (length \<circ> spaced_text) vs" by (auto simp: list_all_iff)
  show ?case unfolding json_chars.simps spaced_text.simps e by (simp add: length_join comp_def)
next
  case (6 kvs)
  have e: "map (\<lambda>(k, v). string_chars k + 2 + json_chars v) kvs =
      map (length \<circ> (\<lambda>(k, v). json_string k @ [58, 32] @ spaced_text v)) kvs"
    using 6 by (auto simp: list_all_iff length_json_string simp del: string_chars.simps)
  show ?case unfolding json_chars.simps spaced_text.simps e by (simp add: length_join comp_def)
qed simp_all

section \<open>Identity\<close>

text \<open>C15: Canonical JSON identifies a value up to the order of its fields: reordering the fields of
  an object does not change the text, and two values with the same text are the same value with the
  fields of every object sorted.\<close>

theorem canonical_json_identifies:
  assumes "json_ok a" "json_ok b"
  shows "(canonical_json a = canonical_json b) = (normal a = normal b) \<and>
    (case (a, b) of
       (JObj kvs, JObj ms) \<Rightarrow> set kvs \<noteq> set ms \<or> canonical_json a = canonical_json b | _ \<Rightarrow> True)"
proof
  show "(canonical_json a = canonical_json b) = (normal a = normal b)"
    using json_text_inject [of "normal a" "normal b" "[]" "[]"] normal_ok assms
    by (auto simp: canonical_json_normal)
  show "case (a, b) of (JObj kvs, JObj ms) \<Rightarrow> set kvs \<noteq> set ms \<or> canonical_json a = canonical_json b
      | _ \<Rightarrow> True"
  proof -
    have "canonical_json (JObj kvs) = canonical_json (JObj ms)"
      if "a = JObj kvs" "b = JObj ms" "set kvs = set ms" for kvs ms
      using normal_reorder [OF that(3)] assms that(1,2) by (simp add: canonical_json_normal)
    then show ?thesis by (auto split: json.split simp del: canonical_json.simps)
  qed
qed

theorem canonical_json_identifies_witness:
  "canonical_json (JObj [(lit ''b'', JNull), (lit ''a'', JArr [JBool True, JStr (lit ''x'')])]) =
   canonical_json (JObj [(lit ''a'', JArr [JBool True, JStr (lit ''x'')]), (lit ''b'', JNull)])"
  using canonical_json_identifies
      [of "JObj [(lit ''b'', JNull), (lit ''a'', JArr [JBool True, JStr (lit ''x'')])]"
        "JObj [(lit ''a'', JArr [JBool True, JStr (lit ''x'')]), (lit ''b'', JNull)]"]
  by (simp add: insert_commute del: canonical_json.simps)


section \<open>Chains\<close>

lemma length_chain_from [simp]: "length (chain_from sha p ds) = length ds"
  by (induction ds arbitrary: p) (simp_all add: Let_def)

lemma length_chain_hashes [simp, shape_simps]: "length (chain_hashes sha ds) = length ds"
  by (simp add: chain_hashes_def)

lemma chain_from_append: "\<exists>q. chain_from sha p (ds @ es) = chain_from sha p ds @ chain_from sha q es"
proof (induction ds arbitrary: p)
  case Nil
  then show ?case by auto
next
  case (Cons d ds)
  then obtain q where "chain_from sha (sha (p @ d)) (ds @ es) =
      chain_from sha (sha (p @ d)) ds @ chain_from sha q es" by blast
  then show ?case by (auto simp: Let_def)
qed

lemma chain_hashes_prefix: "take n (chain_hashes sha ds) = chain_hashes sha (take n ds)"
proof -
  obtain q where "chain_hashes sha (take n ds @ drop n ds) =
      chain_hashes sha (take n ds) @ chain_from sha q (drop n ds)"
    unfolding chain_hashes_def using chain_from_append by blast
  then show ?thesis by (metis append_eq_conv_conj append_take_drop_id length_chain_hashes length_take
      min.commute take_take min_def nat_le_linear take_all)
qed

text \<open>The last hash of a chain, its digests newest first, and the texts hashed on the way.\<close>

fun chain_end :: "(ustr \<Rightarrow> ustr) \<Rightarrow> ustr list \<Rightarrow> ustr" where
  "chain_end sha [] = []"
| "chain_end sha (d # ds) = sha (chain_end sha ds @ d)"

lemma chain_from_snoc:
  "chain_from sha (chain_end sha (rev pre)) ds = map (\<lambda>i. chain_end sha (rev (pre @ take (Suc i) ds))) [0..<length ds]"
proof (induction ds arbitrary: pre)
  case Nil
  then show ?case by simp
next
  case (Cons d ds)
  have "chain_from sha (chain_end sha (rev pre)) (d # ds) =
      chain_end sha (rev (pre @ [d])) # chain_from sha (chain_end sha (rev (pre @ [d]))) ds"
    by (simp add: Let_def)
  also have "\<dots> = chain_end sha (rev (pre @ [d])) #
      map (\<lambda>i. chain_end sha (rev ((pre @ [d]) @ take (Suc i) ds))) [0..<length ds]"
    by (simp only: Cons.IH)
  also have "\<dots> = map (\<lambda>i. chain_end sha (rev (pre @ take (Suc i) (d # ds)))) [0..<length (d # ds)]"
    unfolding length_Cons upt_conv_Cons [OF zero_less_Suc] by (simp add: map_Suc_upt [symmetric] del: upt_Suc)
  finally show ?case .
qed

lemma chain_hashes_nth: "i < length ds \<Longrightarrow> chain_hashes sha ds ! i = chain_end sha (rev (take (Suc i) ds))"
  using chain_from_snoc [of sha "[]" ds] by (simp add: chain_hashes_def)


fun chain_texts :: "(ustr \<Rightarrow> ustr) \<Rightarrow> ustr list \<Rightarrow> ustr list" where
  "chain_texts sha [] = []"
| "chain_texts sha (d # ds) = (chain_end sha ds @ d) # chain_texts sha ds"

lemma chain_end_inject:
  assumes "\<And>s. length (sha s) = n" "0 < n"
    and "list_all (\<lambda>d. length d = n) ds" "list_all (\<lambda>d. length d = n) es"
    and "inj_on sha (set (chain_texts sha ds) \<union> set (chain_texts sha es))"
    and "chain_end sha ds = chain_end sha es"
  shows "ds = es"
proof -
  have ne: "sha s \<noteq> []" for s using assms(1) [of s] assms(2) by force
  show ?thesis using assms(3-)
proof (induction ds arbitrary: es)
  case Nil
  then show ?case using ne by (cases es) (simp_all, metis)
next
  case (Cons d ds)
  obtain e es' where es: "es = e # es'"
    using Cons.prems(4) ne by (cases es) simp_all
  have "chain_end sha ds @ d = chain_end sha es' @ e"
    by (rule inj_onD [OF Cons.prems(3)]) (use Cons.prems(4) es in simp_all)
  moreover have "length d = length e" using Cons.prems(1,2) es by simp
  ultimately have "chain_end sha ds = chain_end sha es'" "d = e" by simp_all
  moreover have "inj_on sha (set (chain_texts sha ds) \<union> set (chain_texts sha es'))"
    using Cons.prems(3) es by (auto elim: inj_on_subset)
  ultimately show ?case using Cons.IH Cons.prems(1,2) es by simp
qed
qed

text \<open>C24: A chain hash identifies a whole prefix: as long as SHA-256 does not collide on the texts
  hashed for two histories, the hash at one position of the first equals the hash at a position of
  the second exactly when the two prefixes have the same message digests in the same order.\<close>

theorem chain_hash_identifies_prefix:
  assumes "\<And>s. length (sha s) = 64"
    and "list_all (\<lambda>d. length d = 64) ds" "list_all (\<lambda>d. length d = 64) es"
    and "inj_on sha (set (chain_texts sha (rev ds)) \<union> set (chain_texts sha (rev es)))"
    and "i < length ds" "j < length es"
  shows "(chain_hashes sha ds ! i = chain_hashes sha es ! j) = (take (Suc i) ds = take (Suc j) es)"
proof
  assume eq: "chain_hashes sha ds ! i = chain_hashes sha es ! j"
  have sub: "set (chain_texts sha (rev (take k xs))) \<subseteq> set (chain_texts sha (rev xs))" for k xs
  proof -
    have "set (chain_texts sha b) \<subseteq> set (chain_texts sha (a @ b))" for a b by (induction a) auto
    from this [of "rev (take k xs)" "rev (drop k xs)"] show ?thesis by (simp flip: rev_append)
  qed
  have "rev (take (Suc i) ds) = rev (take (Suc j) es)"
  proof (rule chain_end_inject [where n = 64])
    show "inj_on sha (set (chain_texts sha (rev (take (Suc i) ds))) \<union>
        set (chain_texts sha (rev (take (Suc j) es))))"
      by (rule inj_on_subset [OF assms(4)]) (use sub in blast)
    show "chain_end sha (rev (take (Suc i) ds)) = chain_end sha (rev (take (Suc j) es))"
      using eq assms(5,6) by (simp add: chain_hashes_nth)
    show "list_all (\<lambda>d. length d = 64) (rev (take (Suc i) ds))"
      "list_all (\<lambda>d. length d = 64) (rev (take (Suc j) es))"
      using assms(2,3) by (auto simp: list_all_iff dest: in_set_takeD)
  qed (use assms(1) in simp_all)
  then show "take (Suc i) ds = take (Suc j) es" by simp
next
  assume "take (Suc i) ds = take (Suc j) es"
  then show "chain_hashes sha ds ! i = chain_hashes sha es ! j"
    using assms(5,6) by (simp add: chain_hashes_nth)
qed

definition toy_sha :: "ustr \<Rightarrow> ustr" where
  "toy_sha s = replicate 64 (sum_list s)"

theorem chain_hash_identifies_prefix_witness:
  "chain_hashes toy_sha [replicate 64 1, replicate 64 2] ! 1 \<noteq>
     chain_hashes toy_sha [replicate 64 1, replicate 64 3] ! 1"
proof -
  let ?ds = "[replicate 64 1, replicate 64 2]" and ?es = "[replicate 64 1, replicate 64 3]"
  have len: "length (toy_sha s) = 64" for s by (simp add: toy_sha_def)
  have "inj_on toy_sha (set (chain_texts toy_sha (rev ?ds)) \<union> set (chain_texts toy_sha (rev ?es)))"
    by (auto simp: inj_on_def toy_sha_def sum_list_replicate)
  from chain_hash_identifies_prefix [OF len _ _ this, of 1 1] show ?thesis by simp
qed

end
