(* ===== verification/Billing.thy ===== *)
theory Billing
  imports Json
begin

text \<open>
  What a request costs (\<open>request/images.rs\<close> and the sizes of \<open>request/mod.rs\<close>): an image
  payload is priced from the pixel dimensions in its header, everything else at the characters of its
  spaced JSON dump. A byte is a natural number below 256; the readers index it as the source does,
  out of range giving \<open>None\<close> where the source uses \<open>get\<close>.
\<close>

section \<open>Bytes\<close>

definition utf8_encode :: "nat \<Rightarrow> nat list" where
  "utf8_encode c =
     (if c < 128 then [c]
      else if c < 2048 then [192 + c div 64, 128 + c mod 64]
      else if c < 65536 then [224 + c div 4096, 128 + c div 64 mod 64, 128 + c mod 64]
      else [240 + c div 262144, 128 + c div 4096 mod 64, 128 + c div 64 mod 64, 128 + c mod 64])"

definition utf8_bytes :: "ustr \<Rightarrow> nat list" where
  "utf8_bytes s = concat (map utf8_encode s)"

definition byte_at :: "nat list \<Rightarrow> nat \<Rightarrow> nat option" where
  "byte_at raw pos = (if pos < length raw then Some (raw ! pos) else None)"

definition be16 :: "nat list \<Rightarrow> nat \<Rightarrow> nat option" where
  "be16 raw pos = Option.bind (byte_at raw pos) (\<lambda>a.
     map_option (\<lambda>b. a * 256 + b) (byte_at raw (pos + 1)))"

definition le16 :: "nat list \<Rightarrow> nat \<Rightarrow> nat option" where
  "le16 raw pos = Option.bind (byte_at raw pos) (\<lambda>a.
     map_option (\<lambda>b. a + b * 256) (byte_at raw (pos + 1)))"

definition le24 :: "nat list \<Rightarrow> nat \<Rightarrow> nat option" where
  "le24 raw pos = Option.bind (byte_at raw pos) (\<lambda>a. Option.bind (byte_at raw (pos + 1)) (\<lambda>b.
     map_option (\<lambda>c. a + b * 256 + c * 65536) (byte_at raw (pos + 2))))"

definition be32 :: "nat list \<Rightarrow> nat \<Rightarrow> nat" where
  "be32 raw pos = foldl (\<lambda>acc b. acc * 256 + b) 0 (take 4 (drop pos raw))"

definition le32 :: "nat list \<Rightarrow> nat \<Rightarrow> nat" where
  "le32 raw pos = foldr (\<lambda>b acc. acc * 256 + b) (take 4 (drop pos raw)) 0"

section \<open>Image headers\<close>

definition png :: "nat list \<Rightarrow> (nat \<times> nat) option" where
  "png raw =
     (if \<not> starts_with raw [137, 80, 78, 71, 13, 10, 26, 10] \<or> length raw < 24 then None
      else Some (be32 raw 16, be32 raw 20))"

definition gif :: "nat list \<Rightarrow> (nat \<times> nat) option" where
  "gif raw =
     (if \<not> (starts_with raw (lit ''GIF87a'') \<or> starts_with raw (lit ''GIF89a'')) then None
      else Option.bind (le16 raw 6) (\<lambda>w. map_option (Pair w) (le16 raw 8)))"

text \<open>The scan over JPEG segments; it ends because every step moves the index forward.\<close>

function jpeg_scan :: "nat list \<Rightarrow> nat \<Rightarrow> (nat \<times> nat) option" where
  "jpeg_scan raw i =
     (if i + 9 < length raw then
        if raw ! i \<noteq> 255 then jpeg_scan raw (i + 1)
        else
          let marker = raw ! (i + 1) in
          if marker = 1 \<or> (208 \<le> marker \<and> marker \<le> 217) then jpeg_scan raw (i + 2)
          else
            case be16 raw (i + 2) of
              None \<Rightarrow> None
            | Some segment \<Rightarrow>
                if 192 \<le> marker \<and> marker \<le> 207 \<and> marker \<notin> set [196, 200, 204]
                then Option.bind (be16 raw (i + 7)) (\<lambda>w. map_option (Pair w) (be16 raw (i + 5)))
                else if segment < 2 then None
                else jpeg_scan raw (i + 2 + segment)
      else None)"
  by pat_completeness auto
termination
  by (relation "measure (\<lambda>(raw, i). length raw - i)") auto

declare jpeg_scan.simps [simp del]

definition jpeg :: "nat list \<Rightarrow> (nat \<times> nat) option" where
  "jpeg raw = (if \<not> starts_with raw [255, 216] then None else jpeg_scan raw 2)"

definition webp :: "nat list \<Rightarrow> (nat \<times> nat) option" where
  "webp raw =
     (if length raw < 30 \<or> \<not> starts_with raw (lit ''RIFF'') \<or>
         take 4 (drop 8 raw) \<noteq> lit ''WEBP'' then None
      else
        let tag = take 4 (drop 12 raw) in
        if tag = lit ''VP8X'' then
          Option.bind (le24 raw 24) (\<lambda>w. map_option (\<lambda>h. (w + 1, h + 1)) (le24 raw 27))
        else if tag = lit ''VP8 '' then
          Option.bind (le16 raw 26) (\<lambda>w. map_option (\<lambda>h. (w mod 16384, h mod 16384)) (le16 raw 28))
        else if tag = lit ''VP8L'' then
          let bits = le32 raw 21 in Some (bits mod 16384 + 1, bits div 16384 mod 16384 + 1)
        else None)"

definition dimensions :: "nat list \<Rightarrow> (nat \<times> nat) option" where
  "dimensions raw =
     (case List.map_filter (\<lambda>reader. case reader raw of
          Some (w, h) \<Rightarrow> if 0 < w \<and> 0 < h then Some (w, h) else None | None \<Rightarrow> None)
        [png, jpeg, gif, webp] of [] \<Rightarrow> None | d # _ \<Rightarrow> Some d)"

section \<open>Payloads\<close>

definition base64_value :: "nat \<Rightarrow> nat option" where
  "base64_value b =
     (if 65 \<le> b \<and> b \<le> 90 then Some (b - 65)
      else if 97 \<le> b \<and> b \<le> 122 then Some (b - 97 + 26)
      else if 48 \<le> b \<and> b \<le> 57 then Some (b - 48 + 52)
      else if b = 43 \<or> b = 45 then Some 62
      else if b = 47 \<or> b = 95 then Some 63
      else None)"

definition HEADER_B64_CHARS :: nat where "HEADER_B64_CHARS = 8192"

text \<open>The loop of \<open>header_bytes\<close>; the 32-bit buffer drops its high bits when it is shifted.\<close>

fun decode_b64 :: "nat list \<Rightarrow> nat \<Rightarrow> nat \<Rightarrow> nat list \<Rightarrow> nat list" where
  "decode_b64 [] buffer bits out = out"
| "decode_b64 (b # bs) buffer bits out =
     (case base64_value b of
        None \<Rightarrow> if b = 61 then out else decode_b64 bs buffer bits out
      | Some v \<Rightarrow>
          let buffer = (buffer * 64 + v) mod 2 ^ 32; bits = bits + 6 in
          if 8 \<le> bits
          then decode_b64 bs buffer (bits - 8) (out @ [buffer div 2 ^ (bits - 8) mod 256])
          else decode_b64 bs buffer bits out)"

definition header_bytes :: "ustr \<Rightarrow> nat list" where
  "header_bytes payload = decode_b64 (take HEADER_B64_CHARS (utf8_bytes payload)) 0 0 []"

definition PATCH_PX :: nat where "PATCH_PX = 28"
definition MAX_IMAGE_TOKENS :: nat where "MAX_IMAGE_TOKENS = 4784"
definition DEFAULT_IMAGE_TOKENS :: nat where "DEFAULT_IMAGE_TOKENS = 1568"

definition ceil_div :: "nat \<Rightarrow> nat \<Rightarrow> nat" where
  "ceil_div a b = (if a mod b = 0 then a div b else a div b + 1)"

text \<open>What is decoded of a payload: the data of a \<open>data:\<close> URL or raw base64; nothing of a hosted
  URL or of a \<open>data:\<close> URL without a comma.\<close>

definition encoded_part :: "ustr \<Rightarrow> ustr option" where
  "encoded_part payload =
     (case strip_prefix payload (lit ''data:'') of
        Some rest \<Rightarrow> (case find_str [44] rest of Some i \<Rightarrow> Some (drop (i + 1) rest) | None \<Rightarrow> None)
      | None \<Rightarrow> if contains_str payload (lit ''://'') then None else Some payload)"

definition tokens_for_payload :: "ustr \<Rightarrow> nat" where
  "tokens_for_payload payload =
     (case encoded_part payload of
        None \<Rightarrow> DEFAULT_IMAGE_TOKENS
      | Some encoded \<Rightarrow>
          (case dimensions (header_bytes encoded) of
             Some (width, height) \<Rightarrow>
               min (max (ceil_div width PATCH_PX * ceil_div height PATCH_PX) 1) MAX_IMAGE_TOKENS
           | None \<Rightarrow> DEFAULT_IMAGE_TOKENS))"

definition image_payload :: "json \<Rightarrow> ustr option" where
  "image_payload v =
     (case get_str v (lit ''type'') of
        None \<Rightarrow> None
      | Some kind \<Rightarrow>
          if kind = lit ''image'' then
            Option.bind (json_get v (lit ''source'')) (\<lambda>source. get_str source (lit ''data''))
          else if kind = lit ''input_image'' \<or> kind = lit ''image_url'' then
            (case json_get v (lit ''image_url'') of
               Some (JStr url) \<Rightarrow> Some url
             | Some (JObj inner) \<Rightarrow> get_str (JObj inner) (lit ''url'')
             | _ \<Rightarrow> None)
          else None)"

fun payloads :: "json \<Rightarrow> ustr list" where
  "payloads (JObj kvs) =
     (case image_payload (JObj kvs) of
        Some payload \<Rightarrow> [payload] | None \<Rightarrow> concat (map (\<lambda>(k, v). payloads v) kvs))"
| "payloads (JArr vs) = concat (map payloads vs)"
| "payloads _ = []"

definition bill_payload :: "ustr \<Rightarrow> nat \<Rightarrow> nat" where
  "bill_payload payload chars = (chars - str_len payload) + tokens_for_payload payload * 4"

definition billable_chars :: "json \<Rightarrow> nat" where
  "billable_chars v = fold bill_payload (payloads v) (json_chars v)"

definition estimate_tokens_of :: "json \<Rightarrow> nat" where
  "estimate_tokens_of v = billable_chars v div 4"

section \<open>Base64\<close>

text \<open>The encoding the header decoder inverts.\<close>

definition b64_char :: "nat \<Rightarrow> nat" where
  "b64_char v = (if v < 26 then 65 + v else if v < 52 then 97 + (v - 26) else if v < 62 then 48 + (v - 52)
     else if v = 62 then 43 else 47)"

fun b64_encode :: "nat list \<Rightarrow> ustr" where
  "b64_encode [] = []"
| "b64_encode [a] = [b64_char (a div 4), b64_char (a mod 4 * 16), 61, 61]"
| "b64_encode [a, b] =
     [b64_char (a div 4), b64_char (a mod 4 * 16 + b div 16), b64_char (b mod 16 * 4), 61]"
| "b64_encode (a # b # c # rest) =
     [b64_char (a div 4), b64_char (a mod 4 * 16 + b div 16), b64_char (b mod 16 * 4 + c div 64),
      b64_char (c mod 64)] @ b64_encode rest"

lemma base64_value_char: "v < 64 \<Longrightarrow> base64_value (b64_char v) = Some v"
  by (auto simp: base64_value_def b64_char_def)

lemma base64_value_pad: "base64_value 61 = None"
  by (simp add: base64_value_def)

lemma low_bits: "((x * 2 ^ k + y) mod 2 ^ 32) div 2 ^ j mod 256 = y div 2 ^ j mod (256::nat)"
  if "j + 8 \<le> k" "k \<le> 32"
proof -
  have "((x * 2 ^ k + y) mod 2 ^ 32) div 2 ^ j mod 256 = (x * 2 ^ k + y) div 2 ^ j mod 256"
  proof -
    have "take_bit 8 (drop_bit j (take_bit 32 (x * 2 ^ k + y))) = take_bit 8 (drop_bit j (x * 2 ^ k + y))"
      using that by (simp add: take_bit_drop_bit min_def)
    then show ?thesis by (simp add: take_bit_eq_mod drop_bit_eq_div)
  qed
  also have "(x * 2 ^ k + y) div 2 ^ j = x * 2 ^ (k - j) + y div 2 ^ j"
  proof -
    have "x * 2 ^ k = (x * 2 ^ (k - j)) * 2 ^ j"
      using that by (simp add: mult.assoc flip: power_add)
    then have "(x * 2 ^ k + y) div 2 ^ j = ((x * 2 ^ (k - j)) * 2 ^ j + y) div 2 ^ j" by (simp only:)
    also have "\<dots> = x * 2 ^ (k - j) + y div 2 ^ j" by (rule div_mult_self3) simp
    finally show ?thesis .
  qed
  also have "(x * 2 ^ (k - j) + y div 2 ^ j) mod 256 = y div 2 ^ j mod 256"
  proof -
    define n where "n = k - j - 8"
    have "k - j = n + 8" using that by (simp add: n_def)
    then have "x * 2 ^ (k - j) = (x * 2 ^ n) * 256" by (simp add: power_add)
    then show ?thesis by (simp only: mod_mult_self3)
  qed
  finally show ?thesis .
qed


lemma shifted_low:
  assumes "B mod 64 = v" "j \<le> 4"
  shows "((B * 64 + v') mod 2 ^ 32) div 2 ^ j mod 256 = (v * 64 + v') div 2 ^ j mod (256::nat)"
proof -
  have "B = B div 64 * 64 + v" using assms(1) by (metis div_mod_decomp)
  then have "B * 64 + v' = B div 64 * 2 ^ 12 + (v * 64 + v')" by simp
  then show ?thesis using low_bits [of j 12 "B div 64" "v * 64 + v'"] assms(2) by (simp only:)
qed

lemma shifted_last: "v' < 64 \<Longrightarrow> ((B * 64 + v') mod 2 ^ 32) mod 64 = (v' :: nat)"
  by (simp add: mod_mod_cancel)

lemma decode_b64_char:
  "v < 64 \<Longrightarrow> decode_b64 (b64_char v # bs) buffer bits out =
     (if 2 \<le> bits
      then decode_b64 bs ((buffer * 64 + v) mod 2 ^ 32) (bits - 2)
        (out @ [(buffer * 64 + v) mod 2 ^ 32 div 2 ^ (bits - 2) mod 256])
      else decode_b64 bs ((buffer * 64 + v) mod 2 ^ 32) (bits + 6) out)"
  by (simp add: base64_value_char Let_def)

lemma b64_pieces:
  fixes a b c :: nat
  assumes "a < 256" "b < 256" "c < 256"
  shows "(a div 4 * 64 + (a mod 4 * 16 + b div 16)) div 16 mod 256 = a"
    "((a mod 4 * 16 + b div 16) * 64 + (b mod 16 * 4 + c div 64)) div 4 mod 256 = b"
    "((b mod 16 * 4 + c div 64) * 64 + c mod 64) mod 256 = c"
    "a div 4 < 64" "a mod 4 * 16 + b div 16 < 64" "b mod 16 * 4 + c div 64 < 64" "c mod 64 < 64"
proof -
  have ab: "a div 4 * 64 + (a mod 4 * 16 + b div 16) = a * 16 + b div 16"
    using div_mult_mod_eq [of a 4] by linarith
  have "(a * 16 + b div 16) div 16 = a" using assms(2) by simp
  then show "(a div 4 * 64 + (a mod 4 * 16 + b div 16)) div 16 mod 256 = a"
    unfolding ab using assms(1) by simp
  have bc: "(a mod 4 * 16 + b div 16) * 64 + (b mod 16 * 4 + c div 64) =
      (a mod 4 * 256 + b) * 4 + c div 64"
  proof -
    have "(x * 16 + b div 16) * 64 + (b mod 16 * 4 + y) = (x * 256 + b) * 4 + y" for x y :: nat
      by presburger
    then show ?thesis .
  qed
  have "((a mod 4 * 256 + b) * 4 + c div 64) div 4 = a mod 4 * 256 + b" using assms(3) by simp
  then show "((a mod 4 * 16 + b div 16) * 64 + (b mod 16 * 4 + c div 64)) div 4 mod 256 = b"
    unfolding bc using assms(2) by simp
  have "(b mod 16 * 4 + c div 64) * 64 + c mod 64 = b mod 16 * 256 + c"
  proof -
    have "(x + c div 64) * 64 + c mod 64 = x * 64 + c" for x :: nat by presburger
    then show ?thesis by simp
  qed
  then show "((b mod 16 * 4 + c div 64) * 64 + c mod 64) mod 256 = c" using assms(3) by simp
  have "b div 16 < 16" "c div 64 < 4" "a mod 4 < 4" "b mod 16 < 16" using assms by simp_all
  then show "a mod 4 * 16 + b div 16 < 64" "b mod 16 * 4 + c div 64 < 64" by linarith+
qed (use assms in simp_all)

declare decode_b64.simps(2) [simp del]

lemma decode_pad [simp]: "decode_b64 (61 # bs) buffer bits out = out"
  by (simp add: decode_b64.simps base64_value_pad)

lemma decode_first:
  assumes "v < 64"
  shows "\<exists>buf. buf mod 64 = v \<and>
    (\<forall>bs out. decode_b64 (b64_char v # bs) buffer 0 out = decode_b64 bs buf 6 out)"
  by (rule exI [of _ "(buffer * 64 + v) mod 2 ^ 32"])
    (use shifted_last [OF assms] decode_b64_char [OF assms] in auto)

lemma decode_step:
  assumes "v < 64" "buffer mod 64 = u" "bits = k + 2" "k \<le> 4" "(u * 64 + v) div 2 ^ k mod 256 = w"
  shows "\<exists>buf. buf mod 64 = v \<and>
    (\<forall>bs out. decode_b64 (b64_char v # bs) buffer bits out = decode_b64 bs buf k (out @ [w]))"
proof (intro exI [of _ "(buffer * 64 + v) mod 2 ^ 32"] conjI allI)
  show "(buffer * 64 + v) mod 2 ^ 32 mod 64 = v" by (rule shifted_last [OF assms(1)])
  have "((buffer * 64 + v) mod 2 ^ 32) div 2 ^ k mod 256 = w"
    using shifted_low [OF assms(2,4)] assms(5) by (simp only:)
  then show "decode_b64 (b64_char v # bs) buffer bits out =
      decode_b64 bs ((buffer * 64 + v) mod 2 ^ 32) k (out @ [w])" for bs out
    using assms(3) by (simp only: decode_b64_char [OF assms(1)]) simp
qed

lemma decode_three:
  assumes "a < 256" "b < 256" "c < 256"
  shows "\<exists>buf. buf mod 64 = b mod 16 * 4 + c div 64 \<and> (\<forall>bs out.
    decode_b64 (b64_char (a div 4) # b64_char (a mod 4 * 16 + b div 16) #
      b64_char (b mod 16 * 4 + c div 64) # bs) buffer 0 out = decode_b64 bs buf 2 (out @ [a, b]))"
proof -
  note p = b64_pieces [OF assms]
  obtain b1 where b1: "b1 mod 64 = a div 4" "\<forall>bs out.
      decode_b64 (b64_char (a div 4) # bs) buffer 0 out = decode_b64 bs b1 6 out"
    using decode_first [OF p(4)] by blast
  obtain b2 where b2: "b2 mod 64 = a mod 4 * 16 + b div 16" "\<forall>bs out.
      decode_b64 (b64_char (a mod 4 * 16 + b div 16) # bs) b1 6 out = decode_b64 bs b2 4 (out @ [a])"
    using decode_step [OF p(5) b1(1), of 6 4 a] p(1) by auto
  obtain b3 where "b3 mod 64 = b mod 16 * 4 + c div 64" "\<forall>bs out.
      decode_b64 (b64_char (b mod 16 * 4 + c div 64) # bs) b2 4 out = decode_b64 bs b3 2 (out @ [b])"
    using decode_step [OF p(6) b2(1), of 4 2 b] p(2) by auto
  then show ?thesis using b1(2) b2(2) by (intro exI [of _ b3]) simp
qed

lemma decode_b64_encode:
  "list_all (\<lambda>b. b < 256) bs \<Longrightarrow> decode_b64 (b64_encode bs) buffer 0 out = out @ bs"
proof (induction bs arbitrary: buffer out rule: b64_encode.induct)
  case 1
  then show ?case by simp
next
  case (2 a)
  note p = b64_pieces [of a 0 0]
  obtain b1 where b1: "b1 mod 64 = a div 4" "\<forall>bs out.
      decode_b64 (b64_char (a div 4) # bs) buffer 0 out = decode_b64 bs b1 6 out"
    using decode_first [of "a div 4" buffer] p(4) 2 by auto
  obtain b2 where "\<forall>bs out.
      decode_b64 (b64_char (a mod 4 * 16) # bs) b1 6 out = decode_b64 bs b2 4 (out @ [a])"
    using decode_step [OF _ b1(1), of "a mod 4 * 16" 6 4 a] p(1,5) 2 by auto
  then show ?case using b1(2) by simp
next
  case (3 a b)
  then show ?case using decode_three [of a b 0 buffer] by auto
next
  case (4 a b c rest)
  then have lt: "a < 256" "b < 256" "c < 256" and rest: "list_all (\<lambda>b. b < 256) rest" by simp_all
  obtain b3 where b3: "b3 mod 64 = b mod 16 * 4 + c div 64" "\<forall>bs out.
    decode_b64 (b64_char (a div 4) # b64_char (a mod 4 * 16 + b div 16) #
      b64_char (b mod 16 * 4 + c div 64) # bs) buffer 0 out = decode_b64 bs b3 2 (out @ [a, b])"
    using decode_three [OF lt] by blast
  obtain b4 where "\<forall>bs out. decode_b64 (b64_char (c mod 64) # bs) b3 2 out =
      decode_b64 bs b4 0 (out @ [c])"
    using decode_step [OF b64_pieces(7) [OF lt] b3(1), of 2 0 c] b64_pieces(3) [OF lt] by auto
  then show ?case using "4.IH" [OF rest] b3(2) by simp
qed


lemma b64_char_ascii: "b64_char v < 128" "b64_char v \<noteq> 58"
  by (auto simp: b64_char_def)

lemma b64_encode_chars: "x \<in> set (b64_encode bs) \<Longrightarrow> x < 128 \<and> x \<noteq> 58"
  by (induction bs rule: b64_encode.induct) (auto simp: b64_char_ascii)

lemma utf8_bytes_ascii: "list_all (\<lambda>c. c < 128) s \<Longrightarrow> utf8_bytes s = s"
  by (induction s) (auto simp: utf8_bytes_def utf8_encode_def)

lemma take_b64_encode: "take (4 * k) (b64_encode bs) = b64_encode (take (3 * k) bs)"
proof (induction k arbitrary: bs)
  case 0
  then show ?case by simp
next
  case (Suc k)
  have four: "4 * Suc k = Suc (Suc (Suc (Suc (4 * k))))" "3 * Suc k = Suc (Suc (Suc (3 * k)))" by simp_all
  show ?case using Suc.IH unfolding four
    by (cases bs rule: b64_encode.cases) (simp_all del: mult_Suc_right)
qed

lemma header_bytes_b64:
  "list_all (\<lambda>b. b < 256) bs \<Longrightarrow> header_bytes (b64_encode bs) = take 6144 bs"
proof -
  assume bytes: "list_all (\<lambda>b. b < 256) bs"
  have "utf8_bytes (b64_encode bs) = b64_encode bs"
    using b64_encode_chars by (intro utf8_bytes_ascii) (auto simp: list_all_iff)
  then have "header_bytes (b64_encode bs) = decode_b64 (b64_encode (take 6144 bs)) 0 0 []"
    using take_b64_encode [of 2048 bs] by (simp add: header_bytes_def HEADER_B64_CHARS_def)
  also have "\<dots> = take 6144 bs"
    using bytes by (subst decode_b64_encode) (auto simp: list_all_iff dest: in_set_takeD)
  finally show ?thesis .
qed

section \<open>Prices\<close>

definition be_bytes :: "nat \<Rightarrow> nat list" where
  "be_bytes w = [w div 16777216, w div 65536 mod 256, w div 256 mod 256, w mod 256]"

definition png_file :: "nat \<Rightarrow> nat \<Rightarrow> nat list \<Rightarrow> nat list \<Rightarrow> nat list" where
  "png_file w h chunk rest =
     [137, 80, 78, 71, 13, 10, 26, 10] @ chunk @ be_bytes w @ be_bytes h @ rest"

lemma be32_be_bytes: "w < 2 ^ 32 \<Longrightarrow> be32 (pre @ be_bytes w @ post) (length pre) = w"
proof -
  assume "w < 2 ^ 32"
  have "((w div 16777216 * 256 + w div 65536 mod 256) * 256 + w div 256 mod 256) * 256 + w mod 256 = w"
  proof -
    have "w div 65536 div 256 * 256 + w div 65536 mod 256 = w div 65536"
      "w div 256 div 256 * 256 + w div 256 mod 256 = w div 256" "w div 256 * 256 + w mod 256 = w"
      by (rule div_mult_mod_eq)+
    then show ?thesis by (simp flip: div_mult2_eq)
  qed
  then show ?thesis by (simp add: be32_def be_bytes_def)
qed

lemma dimensions_png:
  assumes "length chunk = 8" "0 < w" "w < 2 ^ 32" "0 < h" "h < 2 ^ 32"
  shows "dimensions (png_file w h chunk rest) = Some (w, h)"
proof -
  let ?sig = "[137, 80, 78, 71, 13, 10, 26, 10]"
  have "be32 ((?sig @ chunk) @ be_bytes w @ (be_bytes h @ rest)) (length (?sig @ chunk)) = w"
    using assms(3) by (rule be32_be_bytes)
  moreover have "be32 ((?sig @ chunk @ be_bytes w) @ be_bytes h @ rest) (length (?sig @ chunk @ be_bytes w)) = h"
    using assms(5) by (rule be32_be_bytes)
  moreover have "length (be_bytes w) = 4" "length (be_bytes h) = 4" by (simp_all add: be_bytes_def)
  moreover have "starts_with (png_file w h chunk rest) ?sig"
    by (simp only: png_file_def starts_with_append)
  ultimately have "png (png_file w h chunk rest) = Some (w, h)"
    using assms(1) unfolding png_def by (simp add: png_file_def del: starts_with_Cons)
  then show ?thesis using assms(2,4) by (simp add: dimensions_def List.map_filter_def)
qed

lemma encoded_part_raw: "58 \<notin> set s \<Longrightarrow> encoded_part s = Some s"
proof -
  assume no: "58 \<notin> set s"
  have "strip_prefix s (lit ''data:'') = None"
    using no by (auto simp: strip_prefix_def starts_with_iff)
  moreover have "\<not> contains_str s (lit ''://'')"
    using no by (auto simp: contains_str_def find_str_None)
  ultimately show ?thesis by (simp add: encoded_part_def)
qed

lemma encoded_part_data:
  assumes "44 \<notin> set mime"
  shows "encoded_part (lit ''data:'' @ mime @ 44 # s) = Some s"
proof -
  have "find_str [44] (mime @ 44 # s) = Some (length mime)"
    using assms by (induction mime) auto
  moreover have "strip_prefix (lit ''data:'' @ mime @ 44 # s) (lit ''data:'') = Some (mime @ 44 # s)"
    by (rule strip_prefix_append)
  ultimately show ?thesis by (simp add: encoded_part_def del: lit_Cons)
qed

text \<open>An image never costs less than one token or more than 4,784, and a PNG of any size is
  priced from the width and height in its header with the 28-pixel patch formula, whether it is sent
  as raw base64 or as a \<open>data:\<close> URL.\<close>

theorem png_payload_priced:
  assumes "length chunk = 8" "list_all (\<lambda>b. b < 256) (chunk @ rest)"
    and "0 < w" "w < 2 ^ 32" "0 < h" "h < 2 ^ 32" "44 \<notin> set mime"
  shows "tokens_for_payload (b64_encode (png_file w h chunk rest)) =
      min (max (ceil_div w 28 * ceil_div h 28) 1) 4784 \<and>
    tokens_for_payload (lit ''data:'' @ mime @ 44 # b64_encode (png_file w h chunk rest)) =
      tokens_for_payload (b64_encode (png_file w h chunk rest)) \<and>
    1 \<le> tokens_for_payload payload \<and> tokens_for_payload payload \<le> 4784"
proof -
  let ?file = "png_file w h chunk rest"
  have bytes: "list_all (\<lambda>b. b < 256) ?file"
    using assms by (auto simp: png_file_def be_bytes_def list_all_iff less_mult_imp_div_less)
  have "take 6144 ?file = png_file w h chunk (take 6120 rest)"
    using assms(1) by (simp add: png_file_def be_bytes_def)
  then have dims: "dimensions (header_bytes (b64_encode ?file)) = Some (w, h)"
    using header_bytes_b64 [OF bytes] dimensions_png [OF assms(1,3-6)] by simp
  have "58 \<notin> set (b64_encode ?file)" using b64_encode_chars by blast
  then have raw: "encoded_part (b64_encode ?file) = Some (b64_encode ?file)" by (rule encoded_part_raw)
  have "1 \<le> tokens_for_payload payload" "tokens_for_payload payload \<le> 4784"
    by (auto simp: tokens_for_payload_def MAX_IMAGE_TOKENS_def DEFAULT_IMAGE_TOKENS_def
        split: option.split)
  then show ?thesis using dims raw encoded_part_data [OF assms(7)]
    by (simp add: tokens_for_payload_def PATCH_PX_def MAX_IMAGE_TOKENS_def del: lit_Cons)
qed

theorem png_payload_priced_witness:
  "tokens_for_payload (b64_encode (png_file 1536 1024 (replicate 8 0) [])) = 2035"
  using png_payload_priced [of "replicate 8 0" "[]" 1536 1024 "[]" "[]"]
  by (simp add: ceil_div_def list_all_iff)

end
