(* ===== verification/RequestText.thy ===== *)
theory RequestText
  imports Json
begin

text \<open>
  The text helpers of the request engine (\<open>request/mod.rs\<close>): the configuration, truncation, the
  removal of harness spans, and the words of a conversation that are carried across compactions.
\<close>

section \<open>Configuration\<close>

record cliff_config =
  threshold_tokens :: u64
  keep_recent :: nat
  keep_tail_percent :: nat
  thought_max_chars :: nat
  cmd_max_chars :: nat
  result_max_chars :: nat
  human_max_chars :: nat
  keep_thinking :: bool
  thinking_max_chars :: nat
  carry_max_chars :: nat
  evidence_max_bytes :: nat
  evidence_max_chars :: nat
  evidence_item_max_chars :: nat
  strict :: bool

definition DEFAULT_THRESHOLD_TOKENS :: u64 where "DEFAULT_THRESHOLD_TOKENS = 128000"
definition MAX_KEEP_TAIL_PERCENT :: nat where "MAX_KEEP_TAIL_PERCENT = 60"

definition default_config :: cliff_config where
  "default_config =
     \<lparr>threshold_tokens = DEFAULT_THRESHOLD_TOKENS, keep_recent = 3, keep_tail_percent = 0,
      thought_max_chars = 0, cmd_max_chars = 150, result_max_chars = 500, human_max_chars = 20000,
      keep_thinking = True, thinking_max_chars = 0, carry_max_chars = 24000,
      evidence_max_bytes = 262144, evidence_max_chars = 32000, evidence_item_max_chars = 2000,
      strict = False\<rparr>"

definition SUMMARY_HEADER :: ustr where
  "SUMMARY_HEADER =
     lit ''The following is a summary of your previous actions (long observations omitted):''"

definition PART_SEPARATOR :: ustr where
  "PART_SEPARATOR = [10, 10, 45, 45, 45, 10, 10]"

section \<open>Truncation and spans\<close>

definition truncate_text :: "ustr \<Rightarrow> nat \<Rightarrow> ustr" where
  "truncate_text s max_chars =
     (if 0 < max_chars \<and> max_chars < length s then take max_chars s @ [46, 46, 46] else s)"

definition TASK_OPEN :: ustr where "TASK_OPEN = lit ''<task-notification>''"
definition TASK_CLOSE :: ustr where "TASK_CLOSE = lit ''</task-notification>''"

text \<open>The loops over the closed spans of a text: \<open>rest[open..].find(close)\<close> looks for the closing
  tag from the opening one on. \<open>strip_closed\<close> is only called with non-empty tags; the branch for an
  empty one, on which the source would not stop, keeps the definition total.\<close>

function strip_task_from :: "ustr \<Rightarrow> ustr \<Rightarrow> ustr" where
  "strip_task_from out rest =
     (case find_str TASK_OPEN rest of
        None \<Rightarrow> out @ rest
      | Some i \<Rightarrow>
          (case find_str TASK_CLOSE (drop i rest) of
             None \<Rightarrow> out @ rest
           | Some close \<Rightarrow>
               strip_task_from (out @ take i rest)
                 (trim_start (drop (i + close + length TASK_CLOSE) rest))))"
  by pat_completeness auto

lemma length_trim_start_le: "length (trim_start s) \<le> length s"
  by (simp add: trim_start_def length_dropWhile_le)

termination strip_task_from
proof (relation "measure (\<lambda>(out, rest). length rest)", goal_cases)
  case (2 out rest i close)
  have "i + length TASK_OPEN \<le> length rest" by (rule find_str_bound [OF 2(1)])
  moreover have "0 < length TASK_OPEN" "0 < length TASK_CLOSE" by (simp_all add: TASK_OPEN_def TASK_CLOSE_def)
  ultimately have "length rest - (i + close + length TASK_CLOSE) < length rest" by linarith
  then have "length (trim_start (drop (i + close + length TASK_CLOSE) rest)) < length rest"
    by (intro le_less_trans [OF length_trim_start_le]) (simp only: length_drop)
  then show ?case by simp
qed simp

definition strip_task_notifications :: "ustr \<Rightarrow> ustr" where
  "strip_task_notifications s = strip_task_from [] s"

function strip_closed_from :: "ustr \<Rightarrow> ustr \<Rightarrow> ustr \<Rightarrow> ustr \<Rightarrow> ustr" where
  "strip_closed_from otag ctag kept rest =
     (case find_str otag rest of
        None \<Rightarrow> kept @ rest
      | Some start \<Rightarrow>
          let inner = start + length otag in
          (case find_str ctag (drop inner rest) of
             None \<Rightarrow>
               if trim kept = [] \<and> trim (take start rest) = [] then [] else kept @ rest
           | Some e \<Rightarrow>
               if otag = [] then kept @ rest
               else strip_closed_from otag ctag (kept @ take start rest)
                 (trim_start (drop (inner + e + length ctag) rest))))"
  by pat_completeness auto

termination
proof (relation "measure (\<lambda>(otag, ctag, kept, rest). length rest)", goal_cases)
  case (2 otag ctag kept rest start inner e)
  have "start + length otag \<le> length rest" by (rule find_str_bound [OF 2(1)])
  moreover have "0 < length otag" using 2(4) by simp
  ultimately have "length rest - (inner + e + length ctag) < length rest" using 2(2) by linarith
  then have "length (trim_start (drop (inner + e + length ctag) rest)) < length rest"
    by (intro le_less_trans [OF length_trim_start_le]) (simp only: length_drop)
  then show ?case by simp
qed simp

definition strip_closed :: "ustr \<Rightarrow> ustr \<Rightarrow> ustr \<Rightarrow> ustr" where
  "strip_closed s otag ctag = strip_closed_from otag ctag [] s"

declare strip_task_from.simps [simp del] strip_closed_from.simps [simp del]

definition REMINDER_OPEN :: ustr where "REMINDER_OPEN = lit ''<system-reminder>''"
definition REMINDER_CLOSE :: ustr where "REMINDER_CLOSE = lit ''</system-reminder>''"

definition strip_spans :: "ustr \<Rightarrow> ustr" where
  "strip_spans s =
     strip_closed (strip_closed s REMINDER_OPEN REMINDER_CLOSE) TASK_OPEN TASK_CLOSE"

section \<open>Queued messages\<close>

definition QUEUED_MARKERS :: "ustr list" where
  "QUEUED_MARKERS = map lit
     [''The user sent a new message while you were working:'',
      ''The coordinator sent a message'',
      ''A message arrived in the bound thread while you were working:'',
      ''Messages arrived in the bound thread while you were working:'']"

definition em_dash :: ustr where "em_dash = [8212]"

definition QUEUED_TRAILERS :: "ustr list" where
  "QUEUED_TRAILERS =
     [[10, 10] @ lit ''This is how Claude Code surfaces messages the user sends mid-turn '' @ em_dash @
        lit '' within the running turn, often alongside the next tool result, rather than as a separate '' @
        lit ''conversation turn. Address the message above as you continue this turn.'',
      [10, 10] @ lit ''Address this before completing your current task.'']"

definition TOKENS_OPEN :: ustr where "TOKENS_OPEN = lit ''<total_tokens>''"
definition TOKENS_CLOSE :: ustr where "TOKENS_CLOSE = lit '' tokens left</total_tokens>''"

definition HARNESS_BLOCKS :: "ustr list" where
  "HARNESS_BLOCKS = map lit
     [''<bash-stdout>'', ''<bash-stderr>'', ''<local-command-stdout>'', ''<local-command-stderr>'',
      ''<local-command-caveat>'', ''Base directory for this skill:'', ''<environment_context>'',
      ''<user_instructions>'', ''# AGENTS.md instructions'']"

definition INTERRUPT_MARKER :: ustr where "INTERRUPT_MARKER = lit ''[Request interrupted by user''"

definition strip_queued_marker :: "ustr \<Rightarrow> ustr option" where
  "strip_queued_marker s =
     (let s = trim s in
      if \<not> list_ex (starts_with s) QUEUED_MARKERS then None
      else
        let line_end = (case find_str [10] s of Some i \<Rightarrow> i | None \<Rightarrow> length s)
        in Some (trim (case find_str [58] (take line_end s) of
             Some colon \<Rightarrow> drop (colon + 1) s | None \<Rightarrow> drop line_end s)))"

text \<open>\<open>rfind\<close>: the last occurrence of a pattern.\<close>

fun rfind_str :: "ustr \<Rightarrow> ustr \<Rightarrow> nat option" where
  "rfind_str p [] = (if p = [] then Some 0 else None)"
| "rfind_str p (c # s) =
     (case rfind_str p s of
        Some i \<Rightarrow> Some (Suc i) | None \<Rightarrow> if starts_with (c # s) p then Some 0 else None)"

text \<open>\<open>head.get(n..)\<close> is \<open>None\<close> past the end.\<close>

definition strip_tokens_note :: "ustr \<Rightarrow> ustr" where
  "strip_tokens_note s =
     (let s = trim_end s in
      case rfind_str TOKENS_OPEN s of
        None \<Rightarrow> s
      | Some i \<Rightarrow>
          (case strip_suffix s TOKENS_CLOSE of
             None \<Rightarrow> s
           | Some count \<Rightarrow>
               if i + length TOKENS_OPEN \<le> length count \<and> drop (i + length TOKENS_OPEN) count \<noteq> [] \<and>
                 list_all is_ascii_alphanumeric (drop (i + length TOKENS_OPEN) count)
               then trim_end (take i s) else s))"

fun strip_trailer :: "ustr \<Rightarrow> ustr list \<Rightarrow> ustr" where
  "strip_trailer rest [] = rest"
| "strip_trailer rest (trailer # trailers) =
     (case strip_suffix rest trailer of
        Some s \<Rightarrow> s
      | None \<Rightarrow> if rest = trim_start trailer then [] else strip_trailer rest trailers)"

definition queued_message :: "ustr \<Rightarrow> ustr option" where
  "queued_message s =
     map_option (\<lambda>rest. trim (strip_spans (strip_trailer (strip_tokens_note rest) QUEUED_TRAILERS)))
       (strip_queued_marker s)"

definition queued_block :: "ustr \<Rightarrow> ustr option" where
  "queued_block s =
     (let s = trim s;
          inner = (case Option.bind (strip_prefix s REMINDER_OPEN) (\<lambda>i. strip_suffix i REMINDER_CLOSE) of
            Some i \<Rightarrow> if \<not> contains_str i REMINDER_OPEN \<and> \<not> contains_str i REMINDER_CLOSE then i else s
          | None \<Rightarrow> s)
      in queued_message inner)"

section \<open>Carried parts\<close>

definition CARRY_PART_MAX_CHARS :: nat where "CARRY_PART_MAX_CHARS = 4000"

definition CARRY_LABEL :: ustr where
  "CARRY_LABEL = lit ''Earlier in this session (oldest first; older text omitted):''"

definition human_block :: "ustr \<Rightarrow> ustr \<times> ustr option" where
  "human_block s =
     (case queued_block s of
        Some queued \<Rightarrow> ([], Some queued)
      | None \<Rightarrow>
          let opening = trim_start s in
          if starts_with opening SUMMARY_HEADER \<or> list_ex (starts_with opening) HARNESS_BLOCKS
          then ([], None) else (trim (strip_spans s), None))"

definition is_interrupt_marker :: "ustr \<Rightarrow> bool" where
  "is_interrupt_marker s \<longleftrightarrow> starts_with (trim_start s) INTERRUPT_MARKER"

definition rule_line :: ustr where "rule_line = [45, 45, 45]"
definition spaced_rule :: ustr where "spaced_rule = [45, 32, 45, 32, 45]"

definition soften_rules :: "ustr \<Rightarrow> ustr" where
  "soften_rules s =
     join [10] (map (\<lambda>l. if trim l = rule_line then spaced_rule else l) (split_where ((=) 10) s))"

definition carry_part :: "ustr \<Rightarrow> ustr \<Rightarrow> ustr option" where
  "carry_part prefix s =
     (let s = trim s in
      if s = [] \<or> starts_with s SUMMARY_HEADER then None
      else
        let part = prefix @ soften_rules s
        in Some (if CARRY_PART_MAX_CHARS < length part
                 then truncate_text part (CARRY_PART_MAX_CHARS - 3) else part))"

definition carry_assistant :: "ustr list \<Rightarrow> ustr option" where
  "carry_assistant texts =
     carry_part (lit ''assistant: '') (join [10]
       (filter (\<lambda>s. s \<noteq> []) (map (trim \<circ> strip_spans)
         (filter (\<lambda>s. \<not> starts_with (trim_start s) SUMMARY_HEADER) texts))))"

definition carry_human :: "ustr list \<Rightarrow> ustr list" where
  "carry_human texts =
     (let blocks = map human_block texts;
          typed = filter (\<lambda>s. s \<noteq> []) (map fst blocks);
          queued = List.map_filter snd blocks
      in opt_list (carry_part (lit ''user: '') (join [10] typed)) @
         List.map_filter (carry_part (lit ''user: '')) queued)"

text \<open>The longest suffix of whole parts that fits the budget: the walk goes backwards and stops at
  the first part that does not fit.\<close>

fun bound_rev :: "ustr list \<Rightarrow> nat \<Rightarrow> ustr list" where
  "bound_rev [] room = []"
| "bound_rev (p # ps) room =
     (let cost = length p + 2 in if room < cost then [] else p # bound_rev ps (room - cost))"

definition bound_carry :: "ustr list \<Rightarrow> nat \<Rightarrow> ustr list" where
  "bound_carry parts budget = rev (bound_rev (rev parts) budget)"

definition carry_section :: "ustr list \<Rightarrow> ustr option" where
  "carry_section parts =
     (if parts = [] then None else Some (CARRY_LABEL @ [10] @ join [10, 10] parts))"

section \<open>Bounded carry\<close>

definition carry_cost :: "ustr list \<Rightarrow> nat" where
  "carry_cost parts = sum_list (map (\<lambda>p. length p + 2) parts)"

lemma bound_rev_prefix:
  "\<exists>k. bound_rev ps room = take k ps \<and> k \<le> length ps \<and> carry_cost (take k ps) \<le> room \<and>
     (k < length ps \<longrightarrow> room < carry_cost (take (Suc k) ps))"
proof (induction ps room rule: bound_rev.induct)
  case (1 room)
  then show ?case by (simp add: carry_cost_def)
next
  case (2 p ps room)
  show ?case
  proof (cases "room < length p + 2")
    case True
    then show ?thesis by (intro exI [of _ 0]) (simp add: carry_cost_def)
  next
    case False
    then obtain k where "bound_rev ps (room - (length p + 2)) = take k ps" "k \<le> length ps"
      "carry_cost (take k ps) \<le> room - (length p + 2)"
      "k < length ps \<longrightarrow> room - (length p + 2) < carry_cost (take (Suc k) ps)" using 2 by auto
    then show ?thesis using False by (intro exI [of _ "Suc k"]) (auto simp: carry_cost_def)
  qed
qed

lemma bound_rev_bound_rev: "r \<le> room \<Longrightarrow> bound_rev (bound_rev ps room) r = bound_rev ps r"
  by (induction ps room arbitrary: r rule: bound_rev.induct) (auto simp: Let_def)

lemma bound_rev_append: "r \<le> room \<Longrightarrow> bound_rev (b @ bound_rev a room) r = bound_rev (b @ a) r"
  by (induction b arbitrary: r) (auto simp: bound_rev_bound_rev Let_def)

lemma carry_cost_rev: "carry_cost (rev parts) = carry_cost parts"
  by (simp add: carry_cost_def sum_list_rev flip: rev_map)

lemma bound_carry_suffix:
  "\<exists>k \<le> length parts. bound_carry parts budget = drop k parts \<and> carry_cost (drop k parts) \<le> budget \<and>
     (0 < k \<longrightarrow> budget < carry_cost (drop (k - 1) parts))"
proof -
  obtain k where k: "bound_rev (rev parts) budget = take k (rev parts)" "k \<le> length parts"
    "carry_cost (take k (rev parts)) \<le> budget"
    "k < length parts \<longrightarrow> budget < carry_cost (take (Suc k) (rev parts))"
    using bound_rev_prefix [of "rev parts" budget] by auto
  show ?thesis
    by (rule exI [of _ "length parts - k"])
      (use k in \<open>auto simp: bound_carry_def take_rev carry_cost_rev Suc_diff_Suc\<close>)
qed

text \<open>Bounding the carried words keeps the longest suffix of whole parts whose cost fits the
  budget, and carrying them forward step by step keeps the same parts as one step over all of them.\<close>

theorem bound_carry_law:
  "bound_carry (bound_carry a budget @ b) budget = bound_carry (a @ b) budget \<and>
   (\<exists>k \<le> length a. bound_carry a budget = drop k a \<and> carry_cost (drop k a) \<le> budget \<and>
     (k = 0 \<or> budget < carry_cost (drop (k - 1) a)))"
  using bound_carry_suffix [of a budget] bound_rev_append [of budget budget "rev b" "rev a"]
  by (auto simp: bound_carry_def)

section \<open>The carried section is one part\<close>

definition rule_free :: "ustr \<Rightarrow> bool" where
  "rule_free s \<longleftrightarrow> rule_line \<notin> set (split_where ((=) 10) s)"

lemma split_where_append':
  "split_where P (a @ b) =
     butlast (split_where P a) @ [last (split_where P a) @ hd (split_where P b)] @ tl (split_where P b)"
  by (induction a) (auto split: list.splits)

lemma split_where_no: "list_all (\<lambda>c. \<not> P c) s \<Longrightarrow> split_where P s = [s]"
  by (induction s) auto

lemma split_where_join:
  assumes "ls \<noteq> []" "list_all (list_all (\<lambda>c. d \<noteq> c)) ls"
  shows "split_where ((=) d) (join [d] ls) = ls"
  using assms
proof (induction "[d]" ls rule: join.induct)
  case (2 x)
  then show ?case by (simp add: split_where_no list_all_iff)
next
  case (3 x y ys)
  then show ?case using split_where_append [of "(=) d" x d "join [d] (y # ys)"]
    by (auto simp: list_all_iff)
qed simp

lemma rule_free_no_separator: "rule_free s \<Longrightarrow> \<not> contains_str s PART_SEPARATOR"
proof
  assume free: "rule_free s" and "contains_str s PART_SEPARATOR"
  then obtain a b where s: "s = a @ [10, 10] @ rule_line @ 10 # (10 # b)"
    by (auto simp: contains_str_def find_str_None PART_SEPARATOR_def rule_line_def)
  have ne: "rule_line \<noteq> []" by (simp add: rule_line_def)
  have "split_where ((=) 10) (rule_line @ 10 # (10 # b)) = rule_line # split_where ((=) 10) (10 # b)"
    by (rule split_where_append) (simp_all add: rule_line_def)
  then have "rule_line \<in> set (split_where ((=) 10) ((10 # 10 # rule_line) @ 10 # (10 # b)))" by simp
  moreover have "split_where ((=) 10) ((10 # 10 # rule_line) @ 10 # (10 # b)) =
      [] # [] # split_where ((=) 10) (rule_line @ 10 # (10 # b))" by simp
  ultimately have "rule_line \<in> set (split_where ((=) 10) s)"
    using ne unfolding s split_where_append' [of _ a] by simp
  then show False using free by (simp add: rule_free_def)
qed

lemma rule_free_join:
  "list_all rule_free parts \<Longrightarrow> rule_free (join [10, 10] parts)"
proof (induction "[10 :: nat, 10]" parts rule: join.induct)
  case (3 x y ys)
  have "split_where ((=) 10) (x @ 10 # 10 # z) =
      split_where ((=) 10) x @ [] # split_where ((=) 10) z" for z
  proof -
    have "split_where ((=) 10) (x @ 10 # 10 # z) =
        butlast (split_where ((=) 10) x) @ [last (split_where ((=) 10) x)] @ [] # split_where ((=) 10) z"
      unfolding split_where_append' [of _ x] by simp
    then show ?thesis by (metis append.assoc append_butlast_last_id split_where_nonempty)
  qed
  then show ?case using 3 by (simp add: rule_free_def rule_line_def)
qed (simp_all add: rule_free_def rule_line_def)


lemma rule_free_soften: "rule_free (soften_rules s)"
proof -
  let ?f = "\<lambda>l. if trim l = rule_line then spaced_rule else l"
  have "list_all (list_all (\<lambda>c. 10 \<noteq> c)) (map ?f (split_where ((=) 10) s))"
    using split_where_hits [of _ "(=) 10" s] by (auto simp: list_all_iff spaced_rule_def)
  then have sw: "split_where ((=) 10) (soften_rules s) = map ?f (split_where ((=) 10) s)"
    unfolding soften_rules_def by (intro split_where_join) simp_all
  have nf: "?f l \<noteq> rule_line" for l
  proof -
    have "trim rule_line = rule_line"
      by (simp add: trim_def trim_start_def trim_end_def is_ws_def rule_line_def)
    then show ?thesis by (auto simp: spaced_rule_def rule_line_def)
  qed
  show ?thesis unfolding rule_free_def sw
  proof
    assume "rule_line \<in> set (map ?f (split_where ((=) 10) s))"
    then obtain l where "rule_line = ?f l" unfolding set_map by blast
    then show False using nf by metis
  qed
qed

lemma rule_free_prefix:
  assumes "prefix \<noteq> []" "hd prefix \<noteq> 45" "10 \<notin> set prefix" "rule_free s"
  shows "rule_free (prefix @ s)"
proof -
  have "split_where ((=) 10) prefix = [prefix]"
    using assms(3) by (intro split_where_no) (auto simp: list_all_iff)
  then have "split_where ((=) 10) (prefix @ s) =
      (prefix @ hd (split_where ((=) 10) s)) # tl (split_where ((=) 10) s)"
    by (simp add: split_where_append')
  moreover have "rule_line \<noteq> prefix @ z" for z using assms(1,2) by (cases prefix) (auto simp: rule_line_def)
  ultimately show ?thesis using assms(4) by (auto simp: rule_free_def dest: list.set_sel(2) [rotated])
qed

lemma rule_free_truncate_text: "rule_free s \<Longrightarrow> rule_free (truncate_text s n)"
proof -
  assume free: "rule_free s"
  have sub: "set (butlast (split_where ((=) 10) (take n s))) \<subseteq> set (split_where ((=) 10) s)"
    using split_where_append' [of "(=) 10" "take n s" "drop n s"] by auto
  have "split_where ((=) 10) (take n s @ [46, 46, 46]) =
      butlast (split_where ((=) 10) (take n s)) @ [last (split_where ((=) 10) (take n s)) @ [46, 46, 46]]"
    by (simp add: split_where_append')
  moreover have "rule_line \<noteq> z @ [46, 46, 46]" for z
  proof
    assume eq: "rule_line = z @ [46, 46, 46]"
    have "46 \<in> set rule_line" unfolding eq by simp
    then show False by (simp add: rule_line_def)
  qed
  ultimately show ?thesis using free sub by (auto simp: truncate_text_def rule_free_def)
qed

lemma length_truncate_text: "length (truncate_text s n) \<le> max (length s) (n + 3) \<and> (0 < n \<longrightarrow> length (truncate_text s n) \<le> n + 3)"
  by (auto simp: truncate_text_def)

definition carry_prefixes :: "ustr list" where
  "carry_prefixes = [lit ''user: '', lit ''assistant: '']"

lemma carry_part_Some:
  assumes "carry_part prefix s = Some part" "prefix \<in> set carry_prefixes"
  shows "rule_free part" "length part \<le> CARRY_PART_MAX_CHARS"
proof -
  have "rule_free (prefix @ soften_rules (trim s))"
    using assms(2) rule_free_soften by (intro rule_free_prefix) (auto simp: carry_prefixes_def)
  then show "rule_free part" "length part \<le> CARRY_PART_MAX_CHARS"
    using assms(1) rule_free_truncate_text
      length_truncate_text [of "prefix @ soften_rules (trim s)" 3997]
    by (auto simp: carry_part_def Let_def CARRY_PART_MAX_CHARS_def split: if_splits)
qed

lemma split_str_no: "\<not> contains_str s p \<Longrightarrow> split_str p s = [s]"
  by (subst split_str.simps) (auto simp: contains_str_def)

text \<open>The carried section of a summary is exactly one summary part: whatever the conversation
  said, no carried part is longer than 4,000 characters or holds a separator line, so splitting the
  section at the part separator gives the section back.\<close>

theorem carry_section_one_part:
  assumes "list_all (\<lambda>part. \<exists>prefix \<in> set carry_prefixes. \<exists>s. carry_part prefix s = Some part) parts"
    and "carry_section parts = Some section_text"
  shows "split_str PART_SEPARATOR section_text = [section_text] \<and>
    list_all (\<lambda>part. length part \<le> 4000) parts"
proof
  have free: "list_all rule_free parts"
    using assms(1) carry_part_Some(1) unfolding list_all_iff by blast
  have "rule_free ((CARRY_LABEL @ [10]) @ join [10, 10] parts)"
  proof -
    let ?p = "split_where ((=) 10)"
    have "?p (CARRY_LABEL @ [10]) = [CARRY_LABEL, []]" by (simp add: CARRY_LABEL_def)
    then have "?p ((CARRY_LABEL @ [10]) @ join [10, 10] parts) = CARRY_LABEL # ?p (join [10, 10] parts)"
      unfolding split_where_append' [of _ "CARRY_LABEL @ [10]"] by simp
    moreover have "rule_line \<noteq> CARRY_LABEL" by (simp add: rule_line_def CARRY_LABEL_def)
    ultimately show ?thesis using rule_free_join [OF free] by (auto simp: rule_free_def)
  qed
  then have "\<not> contains_str section_text PART_SEPARATOR"
    using assms(2) rule_free_no_separator by (auto simp: carry_section_def split: if_splits)
  then show "split_str PART_SEPARATOR section_text = [section_text]" by (rule split_str_no)
  show "list_all (\<lambda>part. length part \<le> 4000) parts"
    using assms(1) carry_part_Some(2) unfolding list_all_iff CARRY_PART_MAX_CHARS_def by blast
qed

theorem carry_section_one_part_witness:
  "carry_part (lit ''user: '') [97, 10, 10, 45, 45, 45, 10, 10, 98] =
     Some (lit ''user: '' @ [97, 10, 10, 45, 32, 45, 32, 45, 10, 10, 98]) \<and>
   split_str PART_SEPARATOR
     (CARRY_LABEL @ [10] @ lit ''user: '' @ [97, 10, 10, 45, 32, 45, 32, 45, 10, 10, 98]) =
     [CARRY_LABEL @ [10] @ lit ''user: '' @ [97, 10, 10, 45, 32, 45, 32, 45, 10, 10, 98]]"
proof -
  let ?part = "lit ''user: '' @ [97, 10, 10, 45, 32, 45, 32, 45, 10, 10, 98]"
  have part: "carry_part (lit ''user: '') [97, 10, 10, 45, 45, 45, 10, 10, 98] = Some ?part"
    by (simp add: carry_part_def soften_rules_def trim_def trim_start_def trim_end_def is_ws_def
      rule_line_def spaced_rule_def CARRY_PART_MAX_CHARS_def SUMMARY_HEADER_def)
  have "list_all (\<lambda>part. \<exists>prefix \<in> set carry_prefixes. \<exists>s. carry_part prefix s = Some part) [?part]"
    using part unfolding carry_prefixes_def by (simp only: list.pred_inject list.set) blast
  from carry_section_one_part [OF this, of "CARRY_LABEL @ [10] @ ?part"] part show ?thesis
    by (simp add: carry_section_def)
qed

end
