(* ===== verification/Anthropic.thy ===== *)
theory Anthropic
  imports RequestText
begin

text \<open>
  The Anthropic Messages dialect (\<open>request/anthropic.rs\<close>): the canonical form of a message that its
  digest covers, what a summary says of a message, and the words of a conversation that are carried.
  \<open>sha\<close> stands for \<open>sha256_hex\<close>.
\<close>

definition update_field :: "ustr \<Rightarrow> (json \<Rightarrow> json) \<Rightarrow> json_map \<Rightarrow> json_map" where
  "update_field k f kvs = map (\<lambda>(k', v). (k', if k' = k then f v else v)) kvs"

definition text_json :: "ustr \<Rightarrow> json" where
  "text_json s = JArr [JStr (lit ''text''), JStr s, JObj []]"

definition or_default :: "json \<Rightarrow> json option \<Rightarrow> json" where
  "or_default d v = (case v of Some x \<Rightarrow> x | None \<Rightarrow> d)"

definition result_text :: "json option \<Rightarrow> ustr" where
  "result_text content =
     (case content of
        Some (JStr s) \<Rightarrow> s
      | Some (JArr parts) \<Rightarrow> join [10] (List.map_filter (\<lambda>part. case part of
            JStr s \<Rightarrow> Some s
          | JObj _ \<Rightarrow> if get_str part (lit ''type'') = Some (lit ''text'')
                     then Some (str_field part (lit ''text'')) else None
          | _ \<Rightarrow> None) parts)
      | None \<Rightarrow> []
      | Some JNull \<Rightarrow> []
      | Some other \<Rightarrow> json_text other)"

section \<open>Identity\<close>

definition hash_source :: "(ustr \<Rightarrow> ustr) \<Rightarrow> json \<Rightarrow> json" where
  "hash_source sha source =
     (case source of
        JObj kvs \<Rightarrow> JObj (update_field (lit ''data'')
          (\<lambda>d. JObj [(lit ''sha256'', JStr (sha (canonical_json d)))]) kvs)
      | _ \<Rightarrow> source)"

definition reduce_media :: "(ustr \<Rightarrow> ustr) \<Rightarrow> json \<Rightarrow> json" where
  "reduce_media sha block =
     (case block of
        JObj kvs \<Rightarrow> JObj (update_field (lit ''source'') (hash_source sha)
          (swap_remove (lit ''cache_control'') kvs))
      | _ \<Rightarrow> block)"

text \<open>Tool results nest blocks, so the canonical form of a block and that of a result's content are
  one recursion.\<close>

lemma map_of_size: "map_of kvs k = Some v \<Longrightarrow> size v < size (JObj kvs)"
proof (induction kvs)
  case (Cons kv kvs)
  then show ?case by (cases kv) (auto split: if_splits)
qed simp

lemma json_get_array_size: "json_get block k = Some (JArr vs) \<Longrightarrow> v \<in> set vs \<Longrightarrow> size v < size block"
proof -
  assume get: "json_get block k = Some (JArr vs)" and v: "v \<in> set vs"
  have "size v < size (JArr vs)" using v by (induction vs) auto
  also have "\<dots> < size block"
  proof (cases block)
    case (JObj kvs)
    then show ?thesis using get map_of_size [of kvs k "JArr vs"] by (simp add: json_get_def)
  qed (use get in \<open>simp_all add: json_get_def\<close>)
  finally show ?thesis .
qed

function canonical_block :: "(ustr \<Rightarrow> ustr) \<Rightarrow> json \<Rightarrow> json" where
  "canonical_block sha block =
     (let kind = str_field block (lit ''type'') in
      if kind = lit ''text'' then
        JArr [JStr kind, JStr (str_field block (lit ''text'')),
          other_fields block (map lit [''type'', ''text'', ''cache_control''])]
      else if kind = lit ''tool_use'' then
        JArr [JStr kind, JStr (str_field block (lit ''id'')), JStr (str_field block (lit ''name'')),
          JStr (canonical_json (or_default (JObj []) (json_get block (lit ''input'')))),
          other_fields block (map lit [''type'', ''id'', ''name'', ''input'', ''cache_control''])]
      else if kind = lit ''tool_result'' then
        JArr [JStr kind, JStr (str_field block (lit ''tool_use_id'')),
          (case json_get block (lit ''content'') of
             None \<Rightarrow> JNull
           | Some content \<Rightarrow>
               (case content of
                  JStr s \<Rightarrow> JArr [text_json s]
                | JArr blocks \<Rightarrow> JArr (map (\<lambda>b. case b of
                      JStr s \<Rightarrow> text_json s | _ \<Rightarrow> canonical_block sha b) blocks)
                | _ \<Rightarrow> content)),
          JBool (Option.bind (json_get block (lit ''is_error'')) as_bool = Some True),
          other_fields block (map lit [''type'', ''tool_use_id'', ''content'', ''is_error'', ''cache_control''])]
      else if kind = lit ''thinking'' then
        JArr [JStr kind, JStr (str_field block (lit ''thinking'')),
          other_fields block (map lit [''type'', ''thinking'', ''signature'', ''cache_control''])]
      else if kind = lit ''redacted_thinking'' then
        JArr [JStr kind, JStr (str_field block (lit ''data'')),
          other_fields block (map lit [''type'', ''data'', ''cache_control''])]
      else if kind = lit ''image'' \<or> kind = lit ''document'' then
        JArr [JStr kind, reduce_media sha block]
      else JArr [JStr (lit ''other''), JStr (canonical_json (remove_field (lit ''cache_control'') block))])"
  by pat_completeness auto
termination
  by (relation "measure (\<lambda>(sha, block). size block)") (auto dest: json_get_array_size)

declare canonical_block.simps [simp del]

definition ant_digest_message :: "(ustr \<Rightarrow> ustr) \<Rightarrow> json \<Rightarrow> ustr" where
  "ant_digest_message sha message =
     (let blocks = (case json_get message (lit ''content'') of
            Some (JStr s) \<Rightarrow> [text_json s]
          | Some (JArr blocks) \<Rightarrow> map (canonical_block sha) (filter is_object blocks)
          | _ \<Rightarrow> [])
      in digest_value sha (JArr [JStr (str_field message (lit ''role'')), JArr blocks,
           other_fields message (map lit [''role'', ''content'', ''cache_control''])]))"

definition ant_is_assistant :: "json \<Rightarrow> bool" where
  "ant_is_assistant message \<longleftrightarrow> str_field message (lit ''role'') = lit ''assistant''"

definition is_type :: "string \<Rightarrow> json \<Rightarrow> bool" where
  "is_type kind v \<longleftrightarrow> str_field v (lit ''type'') = lit kind"

definition ant_is_summary :: "json \<Rightarrow> bool" where
  "ant_is_summary message \<longleftrightarrow>
     str_field message (lit ''role'') = lit ''user'' \<and>
     (case json_get message (lit ''content'') of
        Some (JStr s) \<Rightarrow> starts_with s SUMMARY_HEADER
      | Some (JArr blocks) \<Rightarrow>
          (case find (is_type ''text'') blocks of
             Some block \<Rightarrow> starts_with (str_field block (lit ''text'')) SUMMARY_HEADER
           | None \<Rightarrow> False)
      | _ \<Rightarrow> False)"

section \<open>Summaries\<close>

definition join_nonblank :: "ustr list \<Rightarrow> ustr" where
  "join_nonblank parts = trim (join [10] (filter (\<lambda>s. trim s \<noteq> []) parts))"

definition signature_line :: "cliff_config \<Rightarrow> ustr \<Rightarrow> ustr \<Rightarrow> ustr" where
  "signature_line cfg name args = [91] @ name @ [93, 32] @ truncate_text args (cmd_max_chars cfg)"

definition ant_signature :: "cliff_config \<Rightarrow> json \<Rightarrow> ustr" where
  "ant_signature cfg block =
     signature_line cfg
       (case get_str block (lit ''name'') of Some name \<Rightarrow> name | None \<Rightarrow> lit ''?'')
       (canonical_json (or_default (JObj []) (json_get block (lit ''input''))))"

definition prefixed :: "string \<Rightarrow> ustr \<Rightarrow> ustr list" where
  "prefixed label s = (if s = [] then [] else [lit label @ s])"

definition one_part :: "ustr list \<Rightarrow> ustr list" where
  "one_part ls = (if ls = [] then [] else [join [10] ls])"

definition ant_summarize_assistant :: "json \<Rightarrow> cliff_config \<Rightarrow> ustr list" where
  "ant_summarize_assistant message cfg =
     (let content = json_get message (lit ''content'');
          blocks = (case content of Some (JArr bs) \<Rightarrow> bs | _ \<Rightarrow> []);
          texts = (case content of
              Some (JStr s) \<Rightarrow> [s]
            | _ \<Rightarrow> map (\<lambda>b. str_field b (lit ''text'')) (filter (is_type ''text'') blocks));
          thinkings = (if keep_thinking cfg
            then map (\<lambda>b. str_field b (lit ''thinking'')) (filter (is_type ''thinking'') blocks) else []);
          signatures = map (ant_signature cfg) (filter (is_type ''tool_use'') blocks)
      in one_part
           (prefixed ''thinking: '' (truncate_text (join_nonblank thinkings) (thinking_max_chars cfg)) @
            prefixed ''assistant: '' (truncate_text (join_nonblank texts) (thought_max_chars cfg)) @
            (if signatures = [] then [] else [join [10] signatures])))"

definition human_part :: "ustr \<Rightarrow> cliff_config \<Rightarrow> ustr option" where
  "human_part s cfg =
     (if starts_with s SUMMARY_HEADER then None
      else
        let s = trim (strip_task_notifications s)
        in if s = [] then None
           else Some (lit ''user: '' @ truncate_text s (human_max_chars cfg)))"

definition result_part :: "ustr \<Rightarrow> cliff_config \<Rightarrow> ustr option" where
  "result_part s cfg =
     (let s = trim s in
      if s \<noteq> [] \<and> length s \<le> result_max_chars cfg then Some (lit ''result: '' @ s) else None)"

definition ant_summarize_user :: "json \<Rightarrow> cliff_config \<Rightarrow> ustr list" where
  "ant_summarize_user message cfg =
     (case json_get message (lit ''content'') of
        Some (JStr s) \<Rightarrow> opt_list (human_part s cfg)
      | Some (JArr blocks) \<Rightarrow> List.map_filter (\<lambda>block.
          if is_type ''text'' block then human_part (str_field block (lit ''text'')) cfg
          else if is_type ''tool_result'' block
          then result_part (result_text (json_get block (lit ''content''))) cfg
          else None) blocks
      | _ \<Rightarrow> [])"

definition text_blocks :: "json option \<Rightarrow> ustr list" where
  "text_blocks content =
     (case content of
        Some (JStr s) \<Rightarrow> [s]
      | Some (JArr blocks) \<Rightarrow> map (\<lambda>b. str_field b (lit ''text'')) (filter (is_type ''text'') blocks)
      | _ \<Rightarrow> [])"

definition system_part :: "ustr \<Rightarrow> cliff_config \<Rightarrow> ustr list" where
  "system_part s cfg = (let s = trim s in
     if s = [] then [] else [lit ''system: '' @ truncate_text s (human_max_chars cfg)])"

definition ant_summarize :: "json \<Rightarrow> cliff_config \<Rightarrow> ustr list" where
  "ant_summarize message cfg =
     (let role = str_field message (lit ''role'') in
      if role = lit ''assistant'' then ant_summarize_assistant message cfg
      else if role = lit ''user'' then ant_summarize_user message cfg
      else if role = lit ''system''
      then system_part (join [10] (text_blocks (json_get message (lit ''content'')))) cfg
      else [])"

definition ant_user_message :: "ustr \<Rightarrow> json" where
  "ant_user_message s = JObj [(lit ''role'', JStr (lit ''user'')), (lit ''content'', JStr s)]"

definition ant_trim_from_head :: "json \<Rightarrow> bool" where
  "ant_trim_from_head message \<longleftrightarrow> str_field message (lit ''role'') = lit ''system''"

section \<open>Carried words\<close>

definition has_block :: "json \<Rightarrow> string \<Rightarrow> bool" where
  "has_block message kind \<longleftrightarrow>
     (case Option.bind (json_get message (lit ''content'')) as_array of
        Some blocks \<Rightarrow> list_ex (is_type kind) blocks | None \<Rightarrow> False)"

definition REJECTION_FEEDBACK :: ustr where
  "REJECTION_FEEDBACK =
     lit ''The user doesn't want to proceed with this tool use. The tool '' @
     lit ''use was rejected (eg. if it was a file edit, the new_string was NOT written to the file). '' @
     lit ''To tell you how to proceed, the user said:'' @ [10]"

definition REJECTION_NOTE :: ustr where
  "REJECTION_NOTE =
     [10, 10] @ lit ''Note: The user's next message may contain a correction or '' @
     lit ''preference. Pay close attention '' @ em_dash @
     lit '' if they explain what went wrong or how they'd '' @
     lit ''prefer you to work, consider saving that to memory for future sessions.''"

definition rejection_feedback :: "json \<Rightarrow> ustr option" where
  "rejection_feedback block =
     (if Option.bind (json_get block (lit ''is_error'')) as_bool \<noteq> Some True then None
      else
        map_option (\<lambda>typed. case strip_suffix typed REJECTION_NOTE of Some s \<Rightarrow> s | None \<Rightarrow> typed)
          (strip_prefix (result_text (json_get block (lit ''content''))) REJECTION_FEEDBACK))"

text \<open>The loop over the blocks of a user message.\<close>

fun typed_blocks :: "bool \<Rightarrow> bool \<Rightarrow> json list \<Rightarrow> ustr list" where
  "typed_blocks human_turn after_interrupt [] = []"
| "typed_blocks human_turn after_interrupt (block # blocks) =
     (case (case block of
              JStr s \<Rightarrow> Inl s
            | _ \<Rightarrow>
                if is_type ''text'' block then Inl (str_field block (lit ''text''))
                else if is_type ''tool_result'' block then Inr (opt_list (rejection_feedback block))
                else Inr []) of
        Inr typed \<Rightarrow> typed @ typed_blocks human_turn after_interrupt blocks
      | Inl s \<Rightarrow>
          if is_interrupt_marker s then typed_blocks human_turn True blocks
          else if human_turn \<or> after_interrupt then s # typed_blocks human_turn after_interrupt blocks
          else typed_blocks human_turn after_interrupt blocks)"

fun ant_carry_from :: "bool \<Rightarrow> json list \<Rightarrow> ustr list" where
  "ant_carry_from after_tool_use [] = []"
| "ant_carry_from after_tool_use (message # messages) =
     (let role = str_field message (lit ''role''); content = json_get message (lit ''content'') in
      if role = lit ''assistant'' then
        opt_list (carry_assistant (text_blocks content)) @
        ant_carry_from (has_block message ''tool_use'') messages
      else if role = lit ''user'' \<and> \<not> ant_is_summary message then
        let human_turn = (\<not> after_tool_use \<and> \<not> has_block message ''tool_result'');
            blocks = (case content of Some (JArr bs) \<Rightarrow> bs | Some c \<Rightarrow> [c] | None \<Rightarrow> [])
        in carry_human (typed_blocks human_turn False blocks) @ ant_carry_from after_tool_use messages
      else if role = lit ''system'' then
        (case queued_message (join [10] (text_blocks content)) of
           Some queued \<Rightarrow> opt_list (carry_part (lit ''user: '') queued)
         | None \<Rightarrow> []) @ ant_carry_from after_tool_use messages
      else ant_carry_from after_tool_use messages)"

definition ant_carry_parts :: "json list \<Rightarrow> ustr list" where
  "ant_carry_parts messages = ant_carry_from False messages"

end
