(* ===== verification/ChatDialect.thy ===== *)
theory ChatDialect
  imports Anthropic
begin

text \<open>The OpenAI Chat Completions dialect (\<open>request/chat.rs\<close>).\<close>

definition chat_part_text :: "json \<Rightarrow> ustr option" where
  "chat_part_text part =
     (if is_type ''text'' part then Some (str_field part (lit ''text''))
      else if is_type ''refusal'' part then Some (str_field part (lit ''refusal''))
      else None)"

definition chat_content_text :: "json option \<Rightarrow> ustr" where
  "chat_content_text content =
     (case content of
        Some (JStr s) \<Rightarrow> s
      | Some (JArr parts) \<Rightarrow> join [10] (List.map_filter chat_part_text (filter is_object parts))
      | None \<Rightarrow> []
      | Some JNull \<Rightarrow> []
      | Some other \<Rightarrow> json_text other)"

section \<open>Identity\<close>

definition chat_canonical_part :: "(ustr \<Rightarrow> ustr) \<Rightarrow> json \<Rightarrow> json" where
  "chat_canonical_part sha part =
     (let kind = str_field part (lit ''type'') in
      if kind = lit ''text'' then
        JArr [JStr kind, JStr (str_field part (lit ''text'')), other_fields part (map lit [''type'', ''text''])]
      else if kind = lit ''refusal'' then
        JArr [JStr kind, JStr (str_field part (lit ''refusal'')),
          other_fields part (map lit [''type'', ''refusal''])]
      else if kind = lit ''image_url'' \<or> kind = lit ''input_audio'' then
        JArr [JStr kind, JStr (sha (canonical_json part))]
      else JArr [JStr (lit ''other''), JStr (canonical_json part)])"

definition chat_canonical_content :: "(ustr \<Rightarrow> ustr) \<Rightarrow> json option \<Rightarrow> json" where
  "chat_canonical_content sha content =
     (case content of
        Some (JStr s) \<Rightarrow> JArr [text_json s]
      | Some (JArr parts) \<Rightarrow> JArr (map (chat_canonical_part sha) (filter is_object parts))
      | _ \<Rightarrow> JArr [])"

definition string_or_canonical :: "json option \<Rightarrow> ustr" where
  "string_or_canonical v =
     (case v of Some (JStr s) \<Rightarrow> s | Some other \<Rightarrow> canonical_json other | None \<Rightarrow> [])"

definition call_function :: "json \<Rightarrow> json" where
  "call_function call = or_default JNull (json_get call (lit ''function''))"

definition object_calls :: "json \<Rightarrow> json list" where
  "object_calls message =
     (case Option.bind (json_get message (lit ''tool_calls'')) as_array of
        Some calls \<Rightarrow> filter is_object calls | None \<Rightarrow> [])"

definition chat_canonical_call :: "json \<Rightarrow> json" where
  "chat_canonical_call call =
     JArr [JStr (str_field call (lit ''id'')), JStr (str_field (call_function call) (lit ''name'')),
       JStr (string_or_canonical (json_get (call_function call) (lit ''arguments''))),
       other_fields call (map lit [''id'', ''function'']),
       other_fields (call_function call) (map lit [''name'', ''arguments''])]"

definition chat_digest_message :: "(ustr \<Rightarrow> ustr) \<Rightarrow> json \<Rightarrow> ustr" where
  "chat_digest_message sha message =
     digest_value sha (JArr
       [JStr (str_field message (lit ''role'')),
        chat_canonical_content sha (json_get message (lit ''content'')),
        JArr (map chat_canonical_call (object_calls message)),
        JStr (str_field message (lit ''tool_call_id'')),
        JStr (str_field message (lit ''reasoning_content'')),
        JStr (str_field message (lit ''name'')),
        other_fields message (map lit [''role'', ''content'', ''tool_calls'', ''tool_call_id'',
          ''reasoning_content'', ''name''])])"

definition chat_is_assistant :: "json \<Rightarrow> bool" where
  "chat_is_assistant message \<longleftrightarrow> str_field message (lit ''role'') = lit ''assistant''"

definition chat_is_summary :: "json \<Rightarrow> bool" where
  "chat_is_summary message \<longleftrightarrow> str_field message (lit ''role'') = lit ''user'' \<and>
     starts_with (chat_content_text (json_get message (lit ''content''))) SUMMARY_HEADER"

section \<open>Summaries\<close>

definition chat_signature :: "cliff_config \<Rightarrow> json \<Rightarrow> ustr" where
  "chat_signature cfg call =
     signature_line cfg
       (let name = str_field (call_function call) (lit ''name'')
        in if name = [] then str_field call (lit ''type'') else name)
       (string_or_canonical (json_get (call_function call) (lit ''arguments'')))"

definition chat_summarize_assistant :: "json \<Rightarrow> cliff_config \<Rightarrow> ustr list" where
  "chat_summarize_assistant message cfg =
     (let thinking = trim (str_field message (lit ''reasoning_content''));
          s = trim (chat_content_text (json_get message (lit ''content'')))
      in one_part
           ((if keep_thinking cfg \<and> thinking \<noteq> []
             then [lit ''thinking: '' @ truncate_text thinking (thinking_max_chars cfg)] else []) @
            (if s \<noteq> [] then [lit ''assistant: '' @ truncate_text s (thought_max_chars cfg)] else []) @
            map (chat_signature cfg) (object_calls message)))"

definition chat_summarize :: "json \<Rightarrow> cliff_config \<Rightarrow> ustr list" where
  "chat_summarize message cfg =
     (let role = str_field message (lit ''role''); content = json_get message (lit ''content'') in
      if role = lit ''assistant'' then chat_summarize_assistant message cfg
      else if role = lit ''user'' then
        (case content of
           Some (JStr s) \<Rightarrow> opt_list (human_part s cfg)
         | Some (JArr parts) \<Rightarrow> List.map_filter (\<lambda>part. Option.bind (chat_part_text part) (\<lambda>s. human_part s cfg))
             (filter is_object parts)
         | _ \<Rightarrow> [])
      else if role = lit ''system'' \<or> role = lit ''developer'' then system_part (chat_content_text content) cfg
      else if role = lit ''tool'' then opt_list (result_part (chat_content_text content) cfg)
      else [])"

definition chat_text_parts :: "json option \<Rightarrow> ustr list" where
  "chat_text_parts content =
     (case content of
        Some (JStr s) \<Rightarrow> [s]
      | Some (JArr parts) \<Rightarrow> List.map_filter chat_part_text (filter is_object parts)
      | _ \<Rightarrow> [])"

definition words_of :: "ustr \<Rightarrow> ustr list \<Rightarrow> ustr list" where
  "words_of role texts =
     (if role = lit ''user'' then carry_human texts
      else if role = lit ''assistant'' then opt_list (carry_assistant texts)
      else [])"

definition chat_carry_parts :: "json list \<Rightarrow> ustr list" where
  "chat_carry_parts messages =
     concat (map (\<lambda>m. words_of (str_field m (lit ''role'')) (chat_text_parts (json_get m (lit ''content''))))
       (filter (\<lambda>m. \<not> chat_is_summary m) messages))"

definition chat_user_message :: "ustr \<Rightarrow> json" where
  "chat_user_message s = JObj [(lit ''role'', JStr (lit ''user'')), (lit ''content'', JStr s)]"

end
