(* ===== verification/Responses.thy ===== *)
theory Responses
  imports ChatDialect
begin

text \<open>The OpenAI Responses dialect (\<open>request/responses.rs\<close>).\<close>

definition MODEL_ITEM_TYPES :: "ustr list" where
  "MODEL_ITEM_TYPES = map lit [''reasoning'', ''function_call'', ''custom_tool_call'',
     ''local_shell_call'', ''web_search_call'', ''tool_search_call'', ''image_generation_call'']"

definition item_type :: "json \<Rightarrow> ustr" where
  "item_type item =
     (let other = (if json_get item (lit ''role'') \<noteq> None then lit ''message'' else lit ''other'') in
      case get_str item (lit ''type'') of
        Some kind \<Rightarrow> if kind \<noteq> [] then kind else other
      | None \<Rightarrow> other)"

definition is_text_part :: "json \<Rightarrow> bool" where
  "is_text_part part \<longleftrightarrow>
     str_field part (lit ''type'') \<in> set (map lit [''input_text'', ''output_text'', ''text''])"

definition part_texts :: "json list \<Rightarrow> ustr list" where
  "part_texts parts = map (\<lambda>p. str_field p (lit ''text'')) (filter is_text_part parts)"

definition resp_content_text :: "json option \<Rightarrow> ustr" where
  "resp_content_text content =
     (case content of
        Some (JStr s) \<Rightarrow> s
      | Some (JArr parts) \<Rightarrow> join [10] (part_texts parts)
      | None \<Rightarrow> []
      | Some JNull \<Rightarrow> []
      | Some other \<Rightarrow> json_text other)"

section \<open>Identity\<close>

definition resp_canonical_content :: "json option \<Rightarrow> json" where
  "resp_canonical_content content =
     (case content of
        Some (JStr s) \<Rightarrow> JArr [text_json s]
      | Some (JArr parts) \<Rightarrow> JArr (map (\<lambda>part.
          if is_text_part part
          then JArr [JStr (lit ''text''), JStr (str_field part (lit ''text'')),
                 other_fields part (map lit [''type'', ''text''])]
          else JArr [JStr (lit ''other''), JStr (canonical_json part)]) (filter is_object parts))
      | _ \<Rightarrow> JArr [])"

definition canonical_call :: "json \<Rightarrow> json" where
  "canonical_call item = remove_field (lit ''status'') (remove_field (lit ''id'') item)"

definition call_input :: "json \<Rightarrow> ustr" where
  "call_input item =
     (let key = (if item_type item = lit ''custom_tool_call'' then lit ''input'' else lit ''arguments'') in
      case json_get item key of
        Some v \<Rightarrow> string_or_canonical (Some v)
      | None \<Rightarrow> canonical_json (canonical_call item))"

definition resp_digest_message :: "(ustr \<Rightarrow> ustr) \<Rightarrow> json \<Rightarrow> ustr" where
  "resp_digest_message sha item =
     (let kind = item_type item in
      digest_value sha
        (if kind = lit ''message'' then
           JArr [JStr kind, JStr (str_field item (lit ''role'')),
             resp_canonical_content (json_get item (lit ''content'')),
             other_fields item (map lit [''type'', ''id'', ''status'', ''role'', ''content''])]
         else if kind = lit ''reasoning'' then
           JArr [JStr kind, JStr (str_field item (lit ''encrypted_content'')),
             JStr (canonical_json (or_default (JArr []) (json_get item (lit ''summary'')))),
             other_fields item (map lit [''type'', ''id'', ''status'', ''encrypted_content'', ''summary''])]
         else if kind = lit ''function_call_output'' then
           JArr [JStr kind, JStr (str_field item (lit ''call_id'')),
             JStr (string_or_canonical (json_get item (lit ''output''))),
             other_fields item (map lit [''type'', ''id'', ''status'', ''call_id'', ''output''])]
         else if ends_with kind (lit ''_call'') then JArr [JStr kind, canonical_call item]
         else JArr [JStr (lit ''other''), JStr (canonical_json (canonical_call item))]))"

definition resp_is_assistant :: "json \<Rightarrow> bool" where
  "resp_is_assistant item \<longleftrightarrow>
     (let kind = item_type item in
      if kind = lit ''message'' then str_field item (lit ''role'') = lit ''assistant''
      else kind \<in> set MODEL_ITEM_TYPES \<or> ends_with kind (lit ''_call''))"

definition resp_is_summary :: "json \<Rightarrow> bool" where
  "resp_is_summary item \<longleftrightarrow>
     item_type item = lit ''message'' \<and> str_field item (lit ''role'') = lit ''user'' \<and>
     starts_with (resp_content_text (json_get item (lit ''content''))) SUMMARY_HEADER"

section \<open>Summaries\<close>

definition resp_summarize_message :: "json \<Rightarrow> cliff_config \<Rightarrow> ustr list" where
  "resp_summarize_message item cfg =
     (let role = str_field item (lit ''role'');
          s = trim (resp_content_text (json_get item (lit ''content'')))
      in if s = [] then []
         else if role = lit ''assistant'' then [lit ''assistant: '' @ truncate_text s (thought_max_chars cfg)]
         else if starts_with s SUMMARY_HEADER then []
         else if role = lit ''user'' then
           (let s = trim (strip_task_notifications s) in
            if s = [] then [] else [lit ''user: '' @ truncate_text s (human_max_chars cfg)])
         else [role @ lit '': '' @ truncate_text s (human_max_chars cfg)])"

definition resp_summarize_reasoning :: "json \<Rightarrow> cliff_config \<Rightarrow> ustr list" where
  "resp_summarize_reasoning item cfg =
     (if \<not> keep_thinking cfg then []
      else
        let s = trim (case Option.bind (json_get item (lit ''summary'')) as_array of
              Some parts \<Rightarrow> join [10] (map (\<lambda>p. str_field p (lit ''text'')) (filter is_object parts))
            | None \<Rightarrow> [])
        in if s = [] then [] else [lit ''thinking: '' @ truncate_text s (thinking_max_chars cfg)])"

definition resp_output_text :: "json \<Rightarrow> ustr" where
  "resp_output_text item =
     (case json_get item (lit ''output'') of
        Some (JStr s) \<Rightarrow> s
      | Some other \<Rightarrow> (let s = resp_content_text (Some other) in if s = [] then canonical_json other else s)
      | None \<Rightarrow> [])"

definition resp_summarize :: "json \<Rightarrow> cliff_config \<Rightarrow> ustr list" where
  "resp_summarize item cfg =
     (let kind = item_type item in
      if kind = lit ''message'' then resp_summarize_message item cfg
      else if kind = lit ''reasoning'' then resp_summarize_reasoning item cfg
      else if kind = lit ''function_call_output'' \<or> ends_with kind (lit ''_call_output'')
      then opt_list (result_part (resp_output_text item) cfg)
      else if ends_with kind (lit ''_call'') then
        [signature_line cfg (let name = str_field item (lit ''name'') in if name = [] then kind else name)
          (call_input item)]
      else [])"

definition resp_text_parts :: "json option \<Rightarrow> ustr list" where
  "resp_text_parts content =
     (case content of
        Some (JStr s) \<Rightarrow> [s] | Some (JArr parts) \<Rightarrow> part_texts parts | _ \<Rightarrow> [])"

definition resp_carry_parts :: "json list \<Rightarrow> ustr list" where
  "resp_carry_parts items =
     concat (map (\<lambda>i. words_of (str_field i (lit ''role'')) (resp_text_parts (json_get i (lit ''content''))))
       (filter (\<lambda>i. item_type i = lit ''message'' \<and> \<not> resp_is_summary i) items))"

definition resp_user_message :: "ustr \<Rightarrow> json" where
  "resp_user_message s =
     JObj [(lit ''type'', JStr (lit ''message'')), (lit ''role'', JStr (lit ''user'')),
       (lit ''content'', JArr [JObj [(lit ''type'', JStr (lit ''input_text'')), (lit ''text'', JStr s)]])]"

end
