(* ===== verification/Compact.thy ===== *)
theory Compact
  imports Responses Billing
begin

text \<open>
  The compaction step (\<open>request/mod.rs\<close>): the dialects behind one interface, the grouping of a
  history into assistant-step turns, and \<open>compact_within\<close>, which keeps the head and the newest turns
  and replaces what lies between by one summary. A range of positions is a pair of its bounds.
\<close>

section \<open>Dialects\<close>

datatype dialect = Anthropic | Responses | ChatCompletions

text \<open>\<open>trim_end_matches('/')\<close>\<close>

definition trim_slashes :: "ustr \<Rightarrow> ustr" where
  "trim_slashes s = rev (dropWhile ((=) 47) (rev s))"

definition detect :: "ustr \<Rightarrow> dialect option" where
  "detect path =
     (let path = trim_slashes (hd (split_where ((=) 63) path)) in
      if ends_with path (lit ''/messages'') then Some Anthropic
      else if ends_with path (lit ''/responses'') then Some Responses
      else if ends_with path (lit ''/chat/completions'') then Some ChatCompletions
      else None)"

definition dialect_name :: "dialect \<Rightarrow> ustr" where
  "dialect_name d = (case d of Anthropic \<Rightarrow> lit ''anthropic'' | Responses \<Rightarrow> lit ''openai-responses''
     | ChatCompletions \<Rightarrow> lit ''openai-chat'')"

definition messages_key :: "dialect \<Rightarrow> ustr" where
  "messages_key d = (case d of Responses \<Rightarrow> lit ''input'' | _ \<Rightarrow> lit ''messages'')"

definition digest_of :: "(ustr \<Rightarrow> ustr) \<Rightarrow> dialect \<Rightarrow> json \<Rightarrow> ustr" where
  "digest_of sha d m = (case d of Anthropic \<Rightarrow> ant_digest_message sha m
     | Responses \<Rightarrow> resp_digest_message sha m | ChatCompletions \<Rightarrow> chat_digest_message sha m)"

definition is_assistant :: "dialect \<Rightarrow> json \<Rightarrow> bool" where
  "is_assistant d m = (case d of Anthropic \<Rightarrow> ant_is_assistant m
     | Responses \<Rightarrow> resp_is_assistant m | ChatCompletions \<Rightarrow> chat_is_assistant m)"

definition is_summary :: "dialect \<Rightarrow> json \<Rightarrow> bool" where
  "is_summary d m = (case d of Anthropic \<Rightarrow> ant_is_summary m
     | Responses \<Rightarrow> resp_is_summary m | ChatCompletions \<Rightarrow> chat_is_summary m)"

definition summarize :: "dialect \<Rightarrow> json \<Rightarrow> cliff_config \<Rightarrow> ustr list" where
  "summarize d m cfg = (case d of Anthropic \<Rightarrow> ant_summarize m cfg
     | Responses \<Rightarrow> resp_summarize m cfg | ChatCompletions \<Rightarrow> chat_summarize m cfg)"

definition carry_parts :: "dialect \<Rightarrow> json list \<Rightarrow> ustr list" where
  "carry_parts d ms = (case d of Anthropic \<Rightarrow> ant_carry_parts ms
     | Responses \<Rightarrow> resp_carry_parts ms | ChatCompletions \<Rightarrow> chat_carry_parts ms)"

definition user_message :: "dialect \<Rightarrow> ustr \<Rightarrow> json" where
  "user_message d s = (case d of Anthropic \<Rightarrow> ant_user_message s
     | Responses \<Rightarrow> resp_user_message s | ChatCompletions \<Rightarrow> chat_user_message s)"

definition trim_from_head :: "dialect \<Rightarrow> json \<Rightarrow> bool" where
  "trim_from_head d m = (case d of Anthropic \<Rightarrow> ant_trim_from_head m | _ \<Rightarrow> False)"

section \<open>Turns\<close>

type_synonym range = "nat \<times> nat"

definition slice :: "range \<Rightarrow> 'a list \<Rightarrow> 'a list" where
  "slice r xs = take (snd r - fst r) (drop (fst r) xs)"

text \<open>The loop over the positions after the first.\<close>

fun group_loop :: "(nat \<Rightarrow> bool) \<Rightarrow> nat \<Rightarrow> nat list \<Rightarrow> nat \<Rightarrow> range list" where
  "group_loop starts_turn start [] n = [(start, n)]"
| "group_loop starts_turn start (i # is) n =
     (if starts_turn i then (start, i) # group_loop starts_turn i is n
      else group_loop starts_turn start is n)"

definition group_by_starts :: "nat \<Rightarrow> (nat \<Rightarrow> bool) \<Rightarrow> range list" where
  "group_by_starts n starts_turn = (if n = 0 then [] else group_loop starts_turn 0 [1..<n] n)"

definition starts_turn :: "dialect \<Rightarrow> json list \<Rightarrow> nat \<Rightarrow> bool" where
  "starts_turn d body i \<longleftrightarrow>
     is_assistant d (body ! i) \<and> (i = 0 \<or> \<not> is_assistant d (body ! (i - 1)))"

definition group_turns :: "dialect \<Rightarrow> json list \<Rightarrow> range list" where
  "group_turns d body = group_by_starts (length body) (starts_turn d body)"

section \<open>The split\<close>

definition message_chars :: "json \<Rightarrow> nat" where
  "message_chars m = billable_chars m + 2"

definition turn_chars :: "json list \<Rightarrow> range \<Rightarrow> nat" where
  "turn_chars body turn = sum_list (map message_chars (slice turn body))"

definition parts_chars :: "ustr list \<Rightarrow> nat" where
  "parts_chars parts = sum_list (map escaped_chars parts)"

definition summary_chars :: "dialect \<Rightarrow> nat \<Rightarrow> nat \<Rightarrow> nat" where
  "summary_chars d part_chars part_count =
     billable_chars (user_message d []) + 2 + escaped_chars SUMMARY_HEADER +
     (if part_count = 0 then 0
      else escaped_chars [10, 10] + part_chars + (part_count - 1) * escaped_chars PART_SEPARATOR)"

fun extend_loop ::
  "dialect \<Rightarrow> json list \<Rightarrow> range list \<Rightarrow> ustr list list \<Rightarrow> nat \<Rightarrow> nat \<Rightarrow> nat \<Rightarrow> nat \<Rightarrow> nat \<Rightarrow> nat \<Rightarrow> nat" where
  "extend_loop d body turns turn_parts lower budget 0 part_chars part_count tail_chars = 0"
| "extend_loop d body turns turn_parts lower budget (Suc split) part_chars part_count tail_chars =
     (if lower < Suc split \<and> 2 \<le> fst (turns ! split) then
        let candidate = turn_parts ! split;
            next_part_chars = part_chars - parts_chars candidate;
            next_part_count = part_count - length candidate;
            next_tail_chars = tail_chars + turn_chars body (turns ! split)
        in if summary_chars d next_part_chars next_part_count + next_tail_chars > budget then Suc split
           else extend_loop d body turns turn_parts lower budget split next_part_chars next_part_count
             next_tail_chars
      else Suc split)"

definition extend_split ::
  "dialect \<Rightarrow> json list \<Rightarrow> range list \<Rightarrow> ustr list list \<Rightarrow> ustr option \<Rightarrow> nat \<Rightarrow> nat" where
  "extend_split d body turns turn_parts carried budget =
     (let min_split = length turn_parts;
          lower = (if body \<noteq> [] \<and> is_assistant d (hd body) then 1 else 2);
          part_chars = parts_chars (concat turn_parts) + parts_chars (opt_list carried);
          part_count = length (concat turn_parts) + length (opt_list carried);
          tail_chars = sum_list (map (turn_chars body) (drop min_split turns))
      in if summary_chars d part_chars part_count + tail_chars > budget then min_split
         else extend_loop d body turns turn_parts lower budget min_split part_chars part_count tail_chars)"

section \<open>The step\<close>

record compact_result =
  cr_messages :: "json list"
  cr_head_len :: nat
  cr_summary :: json
  cr_cut :: nat
  cr_carry :: "ustr list"

fun trim_head :: "dialect \<Rightarrow> json list \<Rightarrow> nat \<Rightarrow> nat" where
  "trim_head d messages 0 = 0"
| "trim_head d messages (Suc n) =
     (if is_summary d (messages ! n) \<or> trim_from_head d (messages ! n)
      then trim_head d messages n else Suc n)"

definition first_assistant :: "dialect \<Rightarrow> json list \<Rightarrow> nat option" where
  "first_assistant d messages =
     (let n = length (takeWhile (\<lambda>m. \<not> is_assistant d m) messages)
      in if n < length messages then Some n else None)"

definition turn_summary :: "dialect \<Rightarrow> cliff_config \<Rightarrow> json list \<Rightarrow> range \<Rightarrow> ustr list" where
  "turn_summary d cfg body turn = concat (map (\<lambda>m. summarize d m cfg) (slice turn body))"

definition summary_body :: "ustr list \<Rightarrow> ustr" where
  "summary_body parts =
     (if parts = [] then SUMMARY_HEADER else SUMMARY_HEADER @ [10, 10] @ join PART_SEPARATOR parts)"

definition choose_split ::
  "dialect \<Rightarrow> json list \<Rightarrow> range list \<Rightarrow> ustr list list \<Rightarrow> ustr option \<Rightarrow> nat \<Rightarrow> nat" where
  "choose_split d body turns turn_parts carried budget =
     (if budget = 0 then length turn_parts else extend_split d body turns turn_parts carried budget)"

definition compact_within ::
  "json list \<Rightarrow> dialect \<Rightarrow> cliff_config \<Rightarrow> nat \<Rightarrow> ustr list \<Rightarrow> nat \<Rightarrow> compact_result option" where
  "compact_within messages d cfg budget carry carry_budget =
     (case first_assistant d messages of
        None \<Rightarrow> None
      | Some first \<Rightarrow>
          let head_len = trim_head d messages first;
              body = drop head_len messages;
              turns = group_turns d body
          in if length turns \<le> keep_recent cfg then None
             else
               let min_split = length turns - keep_recent cfg;
                   turn_parts = map (turn_summary d cfg body) (take min_split turns);
                   carried = bound_carry carry carry_budget;
                   carried_section = carry_section carried;
                   split = choose_split d body turns turn_parts carried_section budget;
                   parts = opt_list carried_section @ concat (take split turn_parts);
                   summary = user_message d (summary_body parts);
                   kept_start = head_len +
                     (if split < length turns then fst (turns ! split) else length body);
                   kept = drop kept_start messages
               in if head_len + 1 + length kept \<ge> length messages then None
                  else Some
                    \<lparr>cr_messages = take head_len messages @ [summary] @ kept,
                     cr_head_len = head_len, cr_summary = summary, cr_cut = kept_start,
                     cr_carry = (if carry_budget = 0 then []
                       else bound_carry (carried @ carry_parts d
                         (take (kept_start - head_len) (drop head_len messages))) carry_budget)\<rparr>)"

definition compact :: "json list \<Rightarrow> dialect \<Rightarrow> cliff_config \<Rightarrow> compact_result option" where
  "compact messages d cfg = compact_within messages d cfg 0 [] 0"

section \<open>Facts on turns\<close>

definition turn_positions :: "dialect \<Rightarrow> json list \<Rightarrow> nat list" where
  "turn_positions d body = filter (starts_turn d body) [1..<length body]"

lemma group_loop_bounds:
  "map fst (group_loop P s is n) = s # filter P is" "map snd (group_loop P s is n) = filter P is @ [n]"
  by (induction P s "is" n rule: group_loop.induct) auto

lemma group_turns_bounds:
  assumes "body \<noteq> []"
  shows "map fst (group_turns d body) = 0 # turn_positions d body"
    "map snd (group_turns d body) = turn_positions d body @ [length body]"
  using assms by (auto simp: group_turns_def group_by_starts_def turn_positions_def group_loop_bounds)

lemma length_group_turns [shape_simps]:
  "body \<noteq> [] \<Longrightarrow> length (group_turns d body) = Suc (length (turn_positions d body))"
  using group_turns_bounds(1) [of body d] by (metis length_Cons length_map)

lemma fst_group_turns:
  "k < length (turn_positions d body) \<Longrightarrow> fst (group_turns d body ! Suc k) = turn_positions d body ! k"
proof -
  assume k: "k < length (turn_positions d body)"
  then have "body \<noteq> []" by (auto simp: turn_positions_def)
  then show ?thesis using k group_turns_bounds(1) [of body d] length_group_turns [of body d]
    by (metis Suc_less_eq nth_Cons_Suc nth_map)
qed

lemma nth_filter_split:
  "k < length (filter P xs) \<Longrightarrow> \<exists>ys zs. xs = ys @ filter P xs ! k # zs \<and>
     filter P (filter P xs ! k # zs) = drop k (filter P xs)"
proof (induction xs arbitrary: k)
  case (Cons x xs)
  show ?case
  proof (cases "P x \<and> k = 0")
    case True
    then show ?thesis by (intro exI [of _ "[]"] exI [of _ xs]) auto
  next
    case False
    define j where "j = (if P x then k - 1 else k)"
    have j: "j < length (filter P xs)" "filter P (x # xs) ! k = filter P xs ! j"
      "drop k (filter P (x # xs)) = drop j (filter P xs)"
      using Cons.prems False by (auto simp: j_def nth_Cons' drop_Cons')
    from Cons.IH [OF j(1)] obtain ys zs where "xs = ys @ filter P xs ! j # zs"
      "filter P (filter P xs ! j # zs) = drop j (filter P xs)" by auto
    then show ?thesis unfolding j(2,3) by (intro exI [of _ "x # ys"] exI [of _ zs]) auto
  qed
qed simp

lemma filter_upt_from:
  assumes "k < length (filter P [a..<b])"
  shows "filter P [filter P [a..<b] ! k..<b] = drop k (filter P [a..<b])"
proof -
  let ?c = "filter P [a..<b] ! k"
  obtain ys zs where s: "[a..<b] = ys @ ?c # zs" "filter P (?c # zs) = drop k (filter P [a..<b])"
    using nth_filter_split [OF assms] by auto
  have "?c # zs = drop (length ys) [a..<b]" using s(1) by (metis append_eq_conv_conj)
  then have cz: "?c # zs = [a + length ys..<b]" by simp
  moreover have "a + length ys < b" using s(1) by (metis add_less_cancel_left cz list.distinct(1) upt_eq_Nil_conv not_less linorder_not_less)
  ultimately have e: "?c = a + length ys" by (metis list.inject upt_conv_Cons)
  have "[?c..<b] = ?c # zs" unfolding cz by (simp only: e)
  then show ?thesis by (simp only: s(2))
qed

lemma turn_positions_nth:
  assumes "k < length (turn_positions d body)"
  shows "0 < turn_positions d body ! k" "turn_positions d body ! k < length body"
    "starts_turn d body (turn_positions d body ! k)"
proof -
  have "turn_positions d body ! k \<in> set (turn_positions d body)" using assms by simp
  then show "0 < turn_positions d body ! k" "turn_positions d body ! k < length body"
    "starts_turn d body (turn_positions d body ! k)"
    by (simp_all add: turn_positions_def)
qed

lemma starts_turn_drop:
  assumes "\<forall>m \<in> set (take h messages). \<not> is_assistant d m" "h + i < length messages"
  shows "starts_turn d (drop h messages) i = starts_turn d messages (h + i)"
proof (cases i)
  case 0
  show ?thesis
  proof (cases h)
    case (Suc j)
    have "j < length (take h messages)" using assms(2) 0 Suc by simp
    then have "messages ! j \<in> set (take h messages)" using nth_mem [of j "take h messages"] Suc by simp
    with assms(1) have "\<not> is_assistant d (messages ! j)" by blast
    then show ?thesis using assms(2) 0 Suc unfolding starts_turn_def by (simp add: add.commute)
  qed (use 0 in simp)
next
  case (Suc j)
  then show ?thesis using assms(2) by (simp add: starts_turn_def)
qed

lemma trim_head_le: "trim_head d messages n \<le> n"
  by (induction d messages n rule: trim_head.induct) auto

lemma first_assistant_Some:
  assumes "first_assistant d messages = Some n"
  shows "n < length messages" "is_assistant d (messages ! n)"
    "\<forall>m \<in> set (take n messages). \<not> is_assistant d m"
proof -
  let ?P = "\<lambda>m. \<not> is_assistant d m"
  have n: "n = length (takeWhile ?P messages)" "n < length messages"
    using assms by (auto simp: first_assistant_def Let_def split: if_splits)
  show "n < length messages" by (rule n(2))
  show "is_assistant d (messages ! n)" using nth_length_takeWhile [of ?P messages] n by simp
  have "take n messages = takeWhile ?P messages" by (metis takeWhile_eq_take n(1))
  then show "\<forall>m \<in> set (take n messages). \<not> is_assistant d m" by (auto dest: set_takeWhileD)
qed

section \<open>Sizes of summaries and tails\<close>

lemma sorted_turn_positions: "sorted_wrt (<) (turn_positions d body)"
  by (simp add: turn_positions_def sorted_wrt_filter)

lemma zip_unzip: "zip (map fst xs) (map snd xs) = xs"
  by (induction xs) auto

lemma concat_slices:
  "sorted_wrt (<) (a # S @ [n]) \<Longrightarrow> n = length body \<Longrightarrow>
     concat (map (\<lambda>r. slice r body) (zip (a # S) (S @ [n]))) = drop a body"
proof (induction S arbitrary: a)
  case Nil
  then show ?case by (simp add: slice_def)
next
  case (Cons s S)
  then have "a < s" "concat (map (\<lambda>r. slice r body) (zip (s # S) (S @ [n]))) = drop s body" by simp_all
  then show ?case using append_take_drop_id [of "s - a" "drop a body"] by (simp add: slice_def)
qed

lemma concat_turns:
  assumes "k < length (group_turns d body)" "body \<noteq> []"
  shows "concat (map (\<lambda>r. slice r body) (drop k (group_turns d body))) =
    drop (fst (group_turns d body ! k)) body"
proof -
  let ?S = "turn_positions d body" and ?n = "length body"
  let ?c = "(0 # ?S) ! k"
  have k: "k \<le> length ?S" using assms length_group_turns [of body d] by simp
  have turns: "group_turns d body = zip (0 # ?S) (?S @ [?n])"
    using group_turns_bounds [OF assms(2), of d] zip_unzip by metis
  have ds: "drop k (0 # ?S) = ?c # drop k ?S"
    using k Cons_nth_drop_Suc [of k "0 # ?S"] by simp
  have "drop k (group_turns d body) = zip (?c # drop k ?S) (drop k ?S @ [?n])"
    using k unfolding turns drop_zip ds by simp
  moreover have "sorted_wrt (<) (0 # ?S @ [?n])"
    using sorted_turn_positions assms(2) turn_positions_nth
    by (auto simp: sorted_wrt_append turn_positions_def)
  then have "sorted_wrt (<) (drop k (0 # ?S @ [?n]))" by (rule sorted_wrt_drop)
  then have "sorted_wrt (<) (?c # drop k ?S @ [?n])"
    using k ds by (simp add: drop_append flip: append_Cons)
  ultimately have "concat (map (\<lambda>r. slice r body) (drop k (group_turns d body))) = drop ?c body"
    using concat_slices by metis
  moreover have "fst (group_turns d body ! k) = ?c"
    using assms group_turns_bounds(1) [OF assms(2), of d] by (metis nth_map)
  ultimately show ?thesis by simp
qed

lemma turn_chars_slices:
  "sum_list (map (turn_chars body) rs) =
     sum_list (map message_chars (concat (map (\<lambda>r. slice r body) rs)))"
  by (induction rs) (simp_all add: turn_chars_def)

lemma turn_chars_tail:
  assumes "k < length (group_turns d body)" "body \<noteq> []"
  shows "sum_list (map (turn_chars body) (drop k (group_turns d body))) =
    sum_list (map message_chars (drop (fst (group_turns d body ! k)) body))"
  unfolding concat_turns [OF assms, symmetric] by (rule turn_chars_slices)

lemma image_payload_user [simp]: "payloads (user_message d s) = []"
  by (cases d) (simp_all add: user_message_def ant_user_message_def resp_user_message_def
    chat_user_message_def image_payload_def get_str_def json_get_def as_str_def)

lemma billable_user_message:
  "billable_chars (user_message d s) = billable_chars (user_message d []) + escaped_chars s"
  unfolding billable_chars_def image_payload_user
  by (cases d) (simp_all add: user_message_def ant_user_message_def resp_user_message_def
    chat_user_message_def escaped_chars_def del: lit_Cons)

lemma escaped_join:
  "parts \<noteq> [] \<Longrightarrow> escaped_chars (join sep parts) = parts_chars parts + (length parts - 1) * escaped_chars sep"
  by (induction sep parts rule: join.induct) (auto simp: parts_chars_def algebra_simps)

lemma summary_chars_exact:
  "message_chars (user_message d (summary_body parts)) = summary_chars d (parts_chars parts) (length parts)"
  unfolding message_chars_def summary_chars_def billable_user_message [of d "summary_body parts"]
  by (cases "parts = []") (simp_all add: summary_body_def escaped_join del: append_Cons append.simps)

definition fits :: "dialect \<Rightarrow> json list \<Rightarrow> range list \<Rightarrow> ustr list list \<Rightarrow> ustr list \<Rightarrow> nat \<Rightarrow> nat \<Rightarrow> bool" where
  "fits d body turns turn_parts front budget k \<longleftrightarrow>
     message_chars (user_message d (summary_body (front @ concat (take k turn_parts)))) +
       sum_list (map (turn_chars body) (drop k turns)) \<le> budget"

lemma parts_chars_append [simp]: "parts_chars (a @ b) = parts_chars a + parts_chars b"
  by (simp add: parts_chars_def)

lemma extend_loop_spec:
  assumes "split \<le> length turn_parts" "length turn_parts \<le> length turns"
    and "pc = parts_chars (concat (take split turn_parts)) + parts_chars front"
    and "cnt = length (concat (take split turn_parts)) + length front"
    and "tc = sum_list (map (turn_chars body) (drop split turns))"
    and "extend_loop d body turns turn_parts lower budget split pc cnt tc = r"
  shows "r \<le> split \<and> (r < split \<longrightarrow> lower \<le> r \<and> 2 \<le> fst (turns ! r) \<and>
      fits d body turns turn_parts front budget r) \<and>
    (lower < r \<and> 2 \<le> fst (turns ! (r - 1)) \<longrightarrow> \<not> fits d body turns turn_parts front budget (r - 1))"
  using assms
proof (induction split arbitrary: pc cnt tc)
  case 0
  then show ?case by simp
next
  case (Suc k)
  let ?c = "turn_parts ! k"
  have k: "k < length turn_parts" "k < length turns" using Suc.prems(1,2) by simp_all
  have parts: "take (Suc k) turn_parts = take k turn_parts @ [?c]" using k by (simp add: take_Suc_conv_app_nth)
  have turns: "drop k turns = turns ! k # drop (Suc k) turns" using k by (simp add: Cons_nth_drop_Suc)
  have npc: "pc - parts_chars ?c = parts_chars (concat (take k turn_parts)) + parts_chars front"
    "cnt - length ?c = length (concat (take k turn_parts)) + length front"
    "tc + turn_chars body (turns ! k) = sum_list (map (turn_chars body) (drop k turns))"
    using Suc.prems(3-5) parts turns by simp_all
  have fit: "fits d body turns turn_parts front budget k \<longleftrightarrow>
      \<not> summary_chars d (pc - parts_chars ?c) (cnt - length ?c) + (tc + turn_chars body (turns ! k)) > budget"
    unfolding fits_def summary_chars_exact npc by (simp add: add.commute not_less)
  show ?case
  proof (cases "lower < Suc k \<and> 2 \<le> fst (turns ! k) \<and> fits d body turns turn_parts front budget k")
    case True
    then have "extend_loop d body turns turn_parts lower budget k (pc - parts_chars ?c) (cnt - length ?c)
        (tc + turn_chars body (turns ! k)) = r"
      using Suc.prems(6) fit by (simp add: Let_def)
    from Suc.IH [OF _ Suc.prems(2) npc this] k True show ?thesis by (auto simp: le_Suc_eq less_Suc_eq)
  next
    case False
    then have "r = Suc k" using Suc.prems(6) fit by (auto simp: Let_def split: if_splits)
    then show ?thesis using False by auto
  qed
qed

lemma extend_split_spec:
  assumes "length turn_parts \<le> length turns"
    and "extend_split d body turns turn_parts carried budget = r"
  shows "r \<le> length turn_parts \<and> (r < length turn_parts \<longrightarrow> 1 \<le> r \<and> 2 \<le> fst (turns ! r) \<and>
      fits d body turns turn_parts (opt_list carried) budget r)"
proof -
  define low where "low = (if body \<noteq> [] \<and> is_assistant d (hd body) then 1 else 2 :: nat)"
  let ?front = "opt_list carried"
  let ?pc = "parts_chars (concat turn_parts) + parts_chars ?front"
  let ?cnt = "length (concat turn_parts) + length ?front"
  let ?tc = "sum_list (map (turn_chars body) (drop (length turn_parts) turns))"
  let ?loop = "extend_loop d body turns turn_parts low budget (length turn_parts) ?pc ?cnt ?tc"
  have r: "r = (if summary_chars d ?pc ?cnt + ?tc > budget then length turn_parts else ?loop)"
    unfolding assms(2) [symmetric] extend_split_def Let_def low_def [symmetric] by (rule refl)
  have low: "1 \<le> low" by (simp add: low_def)
  have pc: "?pc = parts_chars (concat (take (length turn_parts) turn_parts)) + parts_chars ?front" by simp
  have cnt: "?cnt = length (concat (take (length turn_parts) turn_parts)) + length ?front" by simp
  note spec = extend_loop_spec [OF order_refl assms(1) pc cnt refl refl, of d body low budget]
  show ?thesis
  proof (cases "summary_chars d ?pc ?cnt + ?tc > budget")
    case True
    then show ?thesis using r by simp
  next
    case False
    then have "r = ?loop" using r by simp
    then show ?thesis using spec low order_trans by blast
  qed
qed

section \<open>The step\<close>

lemma compact_within_Some:
  assumes "compact_within messages d cfg budget carry carry_budget = Some r"
  obtains n body turns turn_parts sect split where "first_assistant d messages = Some n"
    "cr_head_len r = trim_head d messages n" "body = drop (cr_head_len r) messages"
    "turns = group_turns d body" "keep_recent cfg < length turns"
    "turn_parts = map (turn_summary d cfg body) (take (length turns - keep_recent cfg) turns)"
    "sect = carry_section (bound_carry carry carry_budget)"
    "split = choose_split d body turns turn_parts sect budget"
    "cr_summary r = user_message d (summary_body (opt_list sect @ concat (take split turn_parts)))"
    "cr_cut r = cr_head_len r + (if split < length turns then fst (turns ! split) else length body)"
    "cr_head_len r + 1 + length (drop (cr_cut r) messages) < length messages"
    "cr_messages r = take (cr_head_len r) messages @ [cr_summary r] @ drop (cr_cut r) messages"
proof -
  obtain n where n: "first_assistant d messages = Some n"
    using assms by (cases "first_assistant d messages") (simp_all add: compact_within_def)
  define h where "h = trim_head d messages n"
  define body where "body = drop h messages"
  define turns where "turns = group_turns d body"
  define turn_parts where "turn_parts = map (turn_summary d cfg body) (take (length turns - keep_recent cfg) turns)"
  define carried where "carried = bound_carry carry carry_budget"
  define sect where "sect = carry_section carried"
  define split where "split = choose_split d body turns turn_parts sect budget"
  define cut where "cut = h + (if split < length turns then fst (turns ! split) else length body)"
  note defs = h_def [symmetric] body_def [symmetric] turns_def [symmetric] turn_parts_def [symmetric]
    carried_def [symmetric] sect_def [symmetric] split_def [symmetric] cut_def [symmetric]
  have eq: "(if length turns \<le> keep_recent cfg then None
      else if h + 1 + length (drop cut messages) \<ge> length messages then None
      else Some \<lparr>cr_messages = take h messages @
          [user_message d (summary_body (opt_list sect @ concat (take split turn_parts)))] @ drop cut messages,
        cr_head_len = h,
        cr_summary = user_message d (summary_body (opt_list sect @ concat (take split turn_parts))),
        cr_cut = cut, cr_carry = (if carry_budget = 0 then []
          else bound_carry (carried @ carry_parts d (take (cut - h) (drop h messages))) carry_budget)\<rparr>) = Some r"
    using assms unfolding compact_within_def n option.case Let_def defs by (simp only:)
  have keep: "keep_recent cfg < length turns" and short: "h + 1 + length (drop cut messages) < length messages"
    using eq by (meson not_less option.distinct(1))+
  have r: "r = \<lparr>cr_messages = take h messages @
          [user_message d (summary_body (opt_list sect @ concat (take split turn_parts)))] @ drop cut messages,
        cr_head_len = h,
        cr_summary = user_message d (summary_body (opt_list sect @ concat (take split turn_parts))),
        cr_cut = cut, cr_carry = (if carry_budget = 0 then []
          else bound_carry (carried @ carry_parts d (take (cut - h) (drop h messages))) carry_budget)\<rparr>"
    by (rule sym, rule option.inject [THEN iffD1], rule trans [OF _ eq])
      (use keep short in \<open>simp only: if_False not_le [symmetric]\<close>)
  have sel: "cr_head_len r = h" "cr_cut r = cut"
    "cr_summary r = user_message d (summary_body (opt_list sect @ concat (take split turn_parts)))"
    "cr_messages r = take h messages @ [cr_summary r] @ drop cut messages"
    by (simp_all only: r compact_result.simps)
  show thesis
  proof (rule that [OF n, of body turns turn_parts sect split])
    show "cr_head_len r = trim_head d messages n" "body = drop (cr_head_len r) messages"
      unfolding sel(1) body_def by (rule h_def, rule refl)
    show "keep_recent cfg < length turns" by (rule keep)
    show "cr_head_len r + 1 + length (drop (cr_cut r) messages) < length messages"
      unfolding sel by (rule short)
    show "cr_summary r = user_message d (summary_body (opt_list sect @ concat (take split turn_parts)))"
      by (rule sel(3))
    show "cr_messages r = take (cr_head_len r) messages @ [cr_summary r] @ drop (cr_cut r) messages"
      unfolding sel(1,2) by (rule sel(4))
    show "cr_cut r = cr_head_len r + (if split < length turns then fst (turns ! split) else length body)"
      unfolding sel(1,2) by (rule cut_def)
  qed (rule turns_def turn_parts_def split_def sect_def [unfolded carried_def])+
qed

lemma choose_split_spec:
  assumes "length turn_parts \<le> length turns"
    and "split = choose_split d body turns turn_parts sect budget"
  shows "split \<le> length turn_parts" "budget = 0 \<Longrightarrow> split = length turn_parts"
    "split < length turn_parts \<Longrightarrow> 1 \<le> split \<and> 2 \<le> fst (turns ! split) \<and>
       fits d body turns turn_parts (opt_list sect) budget split"
  using extend_split_spec [OF assms(1) refl, of d body sect budget] assms(2)
  by (auto simp: choose_split_def split: if_splits)

text \<open>The turns that start at or after a position.\<close>

definition turns_from :: "dialect \<Rightarrow> json list \<Rightarrow> nat \<Rightarrow> nat" where
  "turns_from d messages c = length (filter (starts_turn d messages) [c..<length messages])"

lemma turns_from_positions:
  assumes free: "\<forall>m \<in> set (take h messages). \<not> is_assistant d m" and h: "h \<le> length messages"
    and k: "k < length (turn_positions d (drop h messages))"
  shows "turns_from d messages (h + turn_positions d (drop h messages) ! k) =
    length (turn_positions d (drop h messages)) - k"
proof -
  let ?body = "drop h messages" and ?S = "turn_positions d (drop h messages)"
  have shift: "[h + ?S ! k..<length messages] = map ((+) h) [?S ! k..<length ?body]"
    using h by (intro nth_equalityI) auto
  have "turns_from d messages (h + ?S ! k) =
      length (filter (starts_turn d messages \<circ> (+) h) [?S ! k..<length ?body])"
    unfolding turns_from_def shift by (simp add: filter_map)
  also have "filter (starts_turn d messages \<circ> (+) h) [?S ! k..<length ?body] =
      filter (starts_turn d ?body) [?S ! k..<length ?body]"
    using starts_turn_drop [OF free] by (intro filter_cong refl) auto
  also have "\<dots> = drop k ?S"
    using k filter_upt_from [of k "starts_turn d ?body" 1 "length ?body"] by (simp add: turn_positions_def)
  finally show ?thesis by simp
qed

lemma compact_within_facts:
  assumes "compact_within messages d cfg budget carry carry_budget = Some r"
  shows "cr_head_len r + 1 < cr_cut r" "cr_cut r \<le> length messages"
    "\<forall>m \<in> set (take (cr_head_len r) messages). \<not> is_assistant d m"
    "cr_cut r = length messages \<or> starts_turn d messages (cr_cut r)"
    "keep_recent cfg \<le> turns_from d messages (cr_cut r)"
    "budget = 0 \<Longrightarrow> turns_from d messages (cr_cut r) = keep_recent cfg"
    "turns_from d messages (cr_cut r) = keep_recent cfg \<or>
       message_chars (cr_summary r) + sum_list (map message_chars (drop (cr_cut r) messages)) \<le> budget"
    "cr_messages r = take (cr_head_len r) messages @ [cr_summary r] @ drop (cr_cut r) messages"
    "\<exists>parts. cr_summary r = user_message d (summary_body parts)"
proof -
  let ?h = "cr_head_len r"
  obtain n body turns turn_parts sect split where n: "first_assistant d messages = Some n"
    and h: "?h = trim_head d messages n" and body: "body = drop ?h messages"
    and turns: "turns = group_turns d body" and keep: "keep_recent cfg < length turns"
    and tp: "turn_parts = map (turn_summary d cfg body) (take (length turns - keep_recent cfg) turns)"
    and split: "split = choose_split d body turns turn_parts sect budget"
    and summary: "cr_summary r = user_message d (summary_body (opt_list sect @ concat (take split turn_parts)))"
    and cut: "cr_cut r = ?h + (if split < length turns then fst (turns ! split) else length body)"
    and short: "?h + 1 + length (drop (cr_cut r) messages) < length messages"
    and msgs: "cr_messages r = take ?h messages @ [cr_summary r] @ drop (cr_cut r) messages"
    by (rule compact_within_Some [OF assms]) blast
  have hn: "?h \<le> n" "n < length messages" using trim_head_le h first_assistant_Some(1) [OF n] by simp_all
  show free: "\<forall>m \<in> set (take ?h messages). \<not> is_assistant d m"
    using first_assistant_Some(3) [OF n] set_take_subset_set_take [OF hn(1), of messages] by blast
  let ?S = "turn_positions d body"
  have bne: "body \<noteq> []" and blen: "length body = length messages - ?h" using body hn by simp_all
  have len: "length turns = Suc (length ?S)" using turns bne by (simp add: length_group_turns)
  have min: "length turn_parts = length turns - keep_recent cfg" using tp by simp
  have tpl: "length turn_parts \<le> length turns" using min by simp
  note cs = choose_split_spec [OF tpl split]
  have pos: "1 \<le> split" using cs(1,3) min keep by linarith
  show "\<exists>parts. cr_summary r = user_message d (summary_body parts)" using summary by blast
  show "cr_messages r = take ?h messages @ [cr_summary r] @ drop (cr_cut r) messages" by (rule msgs)
  consider (tail) j where "split = Suc j" "j < length ?S" "cr_cut r = ?h + ?S ! j"
      "fst (turns ! split) = ?S ! j"
    | (all) "split = length turns" "cr_cut r = length messages" "keep_recent cfg = 0"
  proof (cases "split < length turns")
    case True
    then obtain j where j: "split = Suc j" "j < length ?S" using pos len by (cases split) auto
    then show ?thesis using cut True turns fst_group_turns tail by simp
  next
    case False
    then have "split = length turns" "keep_recent cfg = 0" using cs(1) min keep by linarith+
    moreover have "cr_cut r = length messages" using cut False blen hn by simp
    ultimately show ?thesis by (intro all)
  qed
  then have facts: "cr_cut r \<le> length messages \<and>
      (cr_cut r = length messages \<or> starts_turn d messages (cr_cut r)) \<and>
      turns_from d messages (cr_cut r) = length turns - split"
  proof cases
    case tail
    have p: "?S ! j < length body" "starts_turn d body (?S ! j)" using turn_positions_nth [OF tail(2)] by simp_all
    have "?h + ?S ! j < length messages" using p(1) blen by simp
    then have "starts_turn d messages (cr_cut r)"
      using starts_turn_drop [OF free] p(2) body tail(3) by simp
    moreover have "turns_from d messages (cr_cut r) = length turns - split"
      using turns_from_positions [OF free, of j] tail hn body len by simp
    ultimately show ?thesis using p(1) blen tail(3) by simp
  next
    case all
    then show ?thesis by (simp add: turns_from_def)
  qed
  then show "cr_cut r \<le> length messages" "cr_cut r = length messages \<or> starts_turn d messages (cr_cut r)"
    by simp_all
  show "?h + 1 < cr_cut r" using short facts by simp
  show "keep_recent cfg \<le> turns_from d messages (cr_cut r)"
    using facts cs(1) min keep by simp
  show "budget = 0 \<Longrightarrow> turns_from d messages (cr_cut r) = keep_recent cfg"
    using facts cs(2) min keep by simp
  show "turns_from d messages (cr_cut r) = keep_recent cfg \<or>
      message_chars (cr_summary r) + sum_list (map message_chars (drop (cr_cut r) messages)) \<le> budget"
  proof (cases "split < length turn_parts")
    case False
    then show ?thesis using facts cs(1) min keep by simp
  next
    case True
    then have lt: "split < length turns" using tpl by simp
    have "drop (fst (turns ! split)) body = drop (cr_cut r) messages"
      using cut lt body by (simp add: add.commute)
    then have "sum_list (map (turn_chars body) (drop split turns)) =
        sum_list (map message_chars (drop (cr_cut r) messages))"
      using turn_chars_tail [of split d body] lt turns bne by simp
    then show ?thesis using cs(3) [OF True] summary by (simp add: fits_def)
  qed
qed


definition cut_of :: "json list \<Rightarrow> range list \<Rightarrow> nat \<Rightarrow> nat \<Rightarrow> nat" where
  "cut_of body turns h split = h + (if split < length turns then fst (turns ! split) else length body)"

lemma compact_within_None_iff:
  assumes n: "first_assistant d messages = Some n"
    and defs: "h = trim_head d messages n" "body = drop h messages" "turns = group_turns d body"
      "turn_parts = map (turn_summary d cfg body) (take (length turns - keep_recent cfg) turns)"
      "sect = carry_section (bound_carry carry carry_budget)"
  shows "compact_within messages d cfg budget carry carry_budget = None \<longleftrightarrow>
    length turns \<le> keep_recent cfg \<or>
    length messages \<le> h + 1 + (length messages -
      cut_of body turns h (choose_split d body turns turn_parts sect budget))"
  unfolding compact_within_def n option.case Let_def defs [symmetric] cut_of_def [symmetric] by simp

lemma fst_turns_mono:
  assumes "body \<noteq> []" "i \<le> j" "j < length (group_turns d body)"
  shows "fst (group_turns d body ! i) \<le> fst (group_turns d body ! j)"
    "fst (group_turns d body ! j) \<le> length body"
proof -
  have f: "fst (group_turns d body ! k) = (0 # turn_positions d body) ! k"
    if "k < length (group_turns d body)" for k
    using that group_turns_bounds(1) [OF assms(1), of d] by (metis nth_map)
  have "sorted_wrt (<) (0 # turn_positions d body)"
    using sorted_turn_positions by (auto simp: turn_positions_def)
  then have "sorted (0 # turn_positions d body)" by (simp add: strict_sorted_imp_sorted)
  then have "(0 # turn_positions d body) ! i \<le> (0 # turn_positions d body) ! j"
    using assms length_group_turns [OF assms(1), of d] by (intro sorted_nth_mono) auto
  then show "fst (group_turns d body ! i) \<le> fst (group_turns d body ! j)"
    using f assms by (metis le_less_trans)
  have "(0 # turn_positions d body) ! j \<in> set (0 # turn_positions d body)"
    using assms length_group_turns [OF assms(1), of d] by (intro nth_mem) simp
  then show "fst (group_turns d body ! j) \<le> length body"
    using f [OF assms(3)] by (auto simp: turn_positions_def)
qed

text \<open>The tail budget never decides whether a history is compacted: with any budget and any
  carried words the step returns a result exactly when the plain step, which keeps only the newest
  turns, does; and then the larger tail starts at or before the plain one.\<close>

theorem compact_budget_total:
  "(compact_within messages d cfg budget carry carry_budget = None) = (compact messages d cfg = None) \<and>
   (case (compact_within messages d cfg budget carry carry_budget, compact messages d cfg) of
      (Some r, Some plain) \<Rightarrow> cr_head_len r = cr_head_len plain \<and> cr_cut r \<le> cr_cut plain
    | _ \<Rightarrow> True)"
proof (cases "first_assistant d messages")
  case None
  then show ?thesis by (simp add: compact_def compact_within_def)
next
  case (Some n)
  define h where "h = trim_head d messages n"
  define body where "body = drop h messages"
  define turns where "turns = group_turns d body"
  define parts where "parts = map (turn_summary d cfg body) (take (length turns - keep_recent cfg) turns)"
  let ?min = "length turns - keep_recent cfg"
  define split where "split b s = choose_split d body turns parts s b" for b s
  have hn: "h \<le> n" "n < length messages"
    using trim_head_le h_def first_assistant_Some(1) [OF Some] by simp_all
  have bne: "body \<noteq> []" and blen: "length body = length messages - h" using body_def hn by simp_all
  have plen: "length parts = ?min" "length parts \<le> length turns" using parts_def by simp_all
  note cs = choose_split_spec [OF plen(2) split_def]
  have cut_le: "cut_of body turns h (split b s) \<le> cut_of body turns h ?min"
    "h + 1 < cut_of body turns h ?min \<longrightarrow> h + 1 < cut_of body turns h (split b s)" for b s
  proof -
    have le: "split b s \<le> ?min" using cs(1) plen(1) by simp
    show "cut_of body turns h (split b s) \<le> cut_of body turns h ?min"
      using le fst_turns_mono [OF bne le, of d] fst_turns_mono(2) [OF bne order_refl, of "split b s" d]
      by (auto simp: cut_of_def turns_def)
    show "h + 1 < cut_of body turns h ?min \<longrightarrow> h + 1 < cut_of body turns h (split b s)"
      using cs(3) [of b s] plen le by (cases "split b s = ?min") (auto simp: cut_of_def)
  qed
  have none: "compact_within messages d cfg b c cb = None \<longleftrightarrow> length turns \<le> keep_recent cfg \<or>
      cut_of body turns h (split b (carry_section (bound_carry c cb))) \<le> h + 1" for b c cb
  proof -
    have "cut_of body turns h k \<le> length messages" for k
      using fst_turns_mono(2) [OF bne order_refl, of k d] blen hn by (auto simp: cut_of_def turns_def)
    then have "cut_of body turns h (split b (carry_section (bound_carry c cb))) \<le> length messages" .
    then show ?thesis
      unfolding compact_within_None_iff [OF Some h_def body_def turns_def parts_def refl] split_def
      using hn by linarith
  qed
  have some: "cr_head_len r = h \<and> cr_cut r = cut_of body turns h (split b (carry_section (bound_carry c cb)))"
    if run: "compact_within messages d cfg b c cb = Some r" for b c cb r
  proof -
    obtain n' body' turns' parts' sect' split' where "first_assistant d messages = Some n'"
      "cr_head_len r = trim_head d messages n'" "body' = drop (cr_head_len r) messages"
      "turns' = group_turns d body'"
      "parts' = map (turn_summary d cfg body') (take (length turns' - keep_recent cfg) turns')"
      "sect' = carry_section (bound_carry c cb)" "split' = choose_split d body' turns' parts' sect' b"
      "cr_cut r = cr_head_len r + (if split' < length turns' then fst (turns' ! split') else length body')"
      by (rule compact_within_Some [OF run]) blast
    then show ?thesis using Some by (simp add: h_def body_def turns_def parts_def split_def cut_of_def)
  qed
  have plain: "split 0 s = ?min" for s using cs(2) plen(1) by simp
  have "(compact_within messages d cfg budget carry carry_budget = None) = (compact messages d cfg = None)"
    unfolding compact_def none plain using cut_le [of budget] by (metis not_less le_trans linorder_not_less)
  then show ?thesis
    using some [of budget carry carry_budget] some [of 0 "[]" 0] cut_le(1) [of budget]
    by (auto simp: compact_def plain split: option.split)
qed

end
