(* ===== verification/Pairing.thy ===== *)
theory Pairing
  imports Compact
begin

text \<open>
  Tool pairing and read tracking (\<open>request/replay.rs\<close>): which tool calls and results a history holds,
  and whether every result answers a call the model made before it. Hash sets of ids are lists
  without repetitions.
\<close>

section \<open>Pairing\<close>

definition ids :: "json list \<Rightarrow> string \<Rightarrow> string \<Rightarrow> ustr list" where
  "ids blocks kind field =
     List.map_filter (\<lambda>b. get_str b (lit field))
       (filter (\<lambda>b. get_str b (lit ''type'') = Some (lit kind)) blocks)"

type_synonym merged_turn = "ustr \<times> json list"

definition content_blocks :: "json \<Rightarrow> json list" where
  "content_blocks m =
     (case Option.bind (json_get m (lit ''content'')) as_array of Some blocks \<Rightarrow> blocks | None \<Rightarrow> [])"

text \<open>The API merges consecutive messages of one role into one turn.\<close>

definition push_turn :: "merged_turn list \<Rightarrow> json \<Rightarrow> merged_turn list" where
  "push_turn turns m =
     (let role = str_field m (lit ''role'') in
      if turns \<noteq> [] \<and> fst (last turns) = role
      then butlast turns @ [(role, snd (last turns) @ content_blocks m)]
      else turns @ [(role, content_blocks m)])"

definition merge_turns :: "json list \<Rightarrow> merged_turn list" where
  "merge_turns messages = foldl push_turn [] messages"

definition results_answered :: "json list \<Rightarrow> merged_turn \<Rightarrow> bool" where
  "results_answered previous turn \<longleftrightarrow>
     fst turn \<noteq> lit ''user'' \<or>
     list_all (\<lambda>i. i \<in> set (ids previous ''tool_use'' ''id'')) (ids (snd turn) ''tool_result'' ''tool_use_id'')"

definition calls_answered :: "merged_turn \<Rightarrow> merged_turn \<Rightarrow> bool" where
  "calls_answered turn after \<longleftrightarrow>
     fst turn \<noteq> lit ''assistant'' \<or>
     list_all (\<lambda>i. i \<in> set (ids (snd after) ''tool_result'' ''tool_use_id'')) (ids (snd turn) ''tool_use'' ''id'')"

fun turns_paired :: "json list \<Rightarrow> merged_turn list \<Rightarrow> bool" where
  "turns_paired previous [] = True"
| "turns_paired previous (turn # turns) =
     (results_answered previous turn \<and>
      (case turns of [] \<Rightarrow> True | after # _ \<Rightarrow> calls_answered turn after) \<and>
      turns_paired (snd turn) turns)"

text \<open>Responses: the calls seen and the calls answered so far; an output without its call fails.\<close>

fun resp_outputs :: "json list \<Rightarrow> ustr list \<Rightarrow> ustr list \<Rightarrow> ustr list option" where
  "resp_outputs [] calls answered = Some answered"
| "resp_outputs (item # rest) calls answered =
     (let kind = str_field item (lit ''type'') in
      case get_str item (lit ''call_id'') of
        None \<Rightarrow> resp_outputs rest calls answered
      | Some call_id \<Rightarrow>
          if ends_with kind (lit ''_output'') then
            (if call_id \<in> set calls then resp_outputs rest calls (call_id # answered) else None)
          else if ends_with kind (lit ''_call'') then resp_outputs rest (call_id # calls) answered
          else resp_outputs rest calls answered)"

definition final_run :: "dialect \<Rightarrow> json list \<Rightarrow> nat" where
  "final_run d messages = length (dropWhile (is_assistant d) (rev messages))"

definition resp_paired :: "json list \<Rightarrow> bool" where
  "resp_paired messages \<longleftrightarrow>
     (case resp_outputs messages [] [] of
        None \<Rightarrow> False
      | Some answered \<Rightarrow>
          list_all (\<lambda>item. \<not> ends_with (str_field item (lit ''type'')) (lit ''_call'') \<or>
              (case get_str item (lit ''call_id'') of Some i \<Rightarrow> i \<in> set answered | None \<Rightarrow> True))
            (take (final_run Responses messages) messages))"

text \<open>Chat Completions: the calls still pending after a run of messages, \<open>None\<close> once the pairing is
  broken.\<close>

definition tool_call_ids :: "json \<Rightarrow> ustr list" where
  "tool_call_ids m =
     (case Option.bind (json_get m (lit ''tool_calls'')) as_array of
        Some calls \<Rightarrow> remdups (List.map_filter (\<lambda>c. get_str c (lit ''id'')) calls) | None \<Rightarrow> [])"

fun chat_pending :: "ustr list \<Rightarrow> json list \<Rightarrow> ustr list option" where
  "chat_pending pending [] = Some pending"
| "chat_pending pending (m # ms) =
     (let role = str_field m (lit ''role'') in
      if role = lit ''assistant'' then
        (if pending \<noteq> [] then None else chat_pending (tool_call_ids m) ms)
      else if role = lit ''tool'' then
        (case get_str m (lit ''tool_call_id'') of
           None \<Rightarrow> None
         | Some i \<Rightarrow> if i \<notin> set pending then None else chat_pending (removeAll i pending) ms)
      else if pending \<noteq> [] then None else chat_pending pending ms)"

definition pairing_intact :: "json list \<Rightarrow> dialect \<Rightarrow> bool" where
  "pairing_intact messages d \<longleftrightarrow>
     (case d of
        Anthropic \<Rightarrow> turns_paired [] (merge_turns messages)
      | Responses \<Rightarrow> resp_paired messages
      | ChatCompletions \<Rightarrow> chat_pending [] messages \<noteq> None)"

section \<open>Tool calls and reads\<close>

record tool_call =
  tc_msg :: nat
  tc_id :: ustr
  tc_key :: ustr

definition read_key :: "ustr \<Rightarrow> json \<Rightarrow> ustr" where
  "read_key name input =
     canonical_json (JArr
       (case get_str input (lit ''url'') of
          Some url \<Rightarrow> [JStr name, JStr (lit ''url''), JStr url]
        | None \<Rightarrow>
            (case get_str input (lit ''file_path'') of
               Some path \<Rightarrow> [JStr name, JStr (lit ''file''), JStr path,
                 or_default JNull (json_get input (lit ''offset'')),
                 or_default JNull (json_get input (lit ''limit''))]
             | None \<Rightarrow> [JStr name, JStr (lit ''input''), JStr (canonical_json input)])))"

text \<open>\<open>parse\<close> stands for \<open>serde_json::from_str\<close>, \<open>None\<close> on an error.\<close>

definition parsed_input :: "(ustr \<Rightarrow> json option) \<Rightarrow> json option \<Rightarrow> json" where
  "parsed_input parse v =
     (case v of
        Some (JStr s) \<Rightarrow> (case parse s of Some j \<Rightarrow> j | None \<Rightarrow> JStr s)
      | Some other \<Rightarrow> other
      | None \<Rightarrow> JNull)"

definition make_call :: "(ustr \<Rightarrow> json option) \<Rightarrow> nat \<Rightarrow> ustr option \<Rightarrow> ustr \<Rightarrow> json option \<Rightarrow> tool_call list" where
  "make_call parse msg i name input =
     (case i of
        Some i \<Rightarrow> [\<lparr>tc_msg = msg, tc_id = i, tc_key = read_key name (parsed_input parse input)\<rparr>]
      | None \<Rightarrow> [])"

definition array_field :: "json \<Rightarrow> string \<Rightarrow> json list" where
  "array_field v k = (case Option.bind (json_get v (lit k)) as_array of Some xs \<Rightarrow> xs | None \<Rightarrow> [])"

definition first_field :: "json \<Rightarrow> string list \<Rightarrow> json option" where
  "first_field v ks =
     (case List.map_filter (\<lambda>k. json_get v (lit k)) ks of [] \<Rightarrow> None | x # _ \<Rightarrow> Some x)"

definition message_calls :: "(ustr \<Rightarrow> json option) \<Rightarrow> dialect \<Rightarrow> nat \<Rightarrow> json \<Rightarrow> tool_call list" where
  "message_calls parse d msg m =
     (case d of
        Anthropic \<Rightarrow>
          if \<not> is_assistant d m then []
          else concat (map (\<lambda>b. make_call parse msg (get_str b (lit ''id'')) (str_field b (lit ''name''))
                 (json_get b (lit ''input'')))
               (filter (\<lambda>b. get_str b (lit ''type'') = Some (lit ''tool_use'')) (array_field m ''content'')))
      | ChatCompletions \<Rightarrow>
          concat (map (\<lambda>c. make_call parse msg (get_str c (lit ''id''))
               (str_field (call_function c) (lit ''name'')) (json_get (call_function c) (lit ''arguments'')))
             (array_field m ''tool_calls''))
      | Responses \<Rightarrow>
          let kind = str_field m (lit ''type'') in
          if ends_with kind (lit ''_call'') then
            make_call parse msg (get_str m (lit ''call_id''))
              (case get_str m (lit ''name'') of Some name \<Rightarrow> name | None \<Rightarrow> kind)
              (first_field m [''arguments'', ''input'', ''action''])
          else [])"

definition tool_calls :: "(ustr \<Rightarrow> json option) \<Rightarrow> json list \<Rightarrow> dialect \<Rightarrow> tool_call list" where
  "tool_calls parse history d =
     concat (map (\<lambda>(msg, m). message_calls parse d msg m) (enumerate 0 history))"

definition result_ids :: "json list \<Rightarrow> dialect \<Rightarrow> ustr list" where
  "result_ids messages d =
     concat (map (\<lambda>m. case d of
         Anthropic \<Rightarrow> ids (array_field m ''content'') ''tool_result'' ''tool_use_id''
       | ChatCompletions \<Rightarrow>
           if get_str m (lit ''role'') = Some (lit ''tool'') then opt_list (get_str m (lit ''tool_call_id'')) else []
       | Responses \<Rightarrow>
           if ends_with (str_field m (lit ''type'')) (lit ''_output'')
           then opt_list (get_str m (lit ''call_id'')) else []) messages)"

definition request_points :: "json list \<Rightarrow> dialect \<Rightarrow> nat list" where
  "request_points history d =
     filter (\<lambda>e. \<not> is_assistant d (history ! (e - 1)) \<and>
         (e < length history \<longrightarrow> is_assistant d (history ! e)))
       [1..<Suc (length history)]"

end
