(* ===== verification/PairingKept.thy ===== *)
theory PairingKept
  imports Pairing
begin

text \<open>
  What a compaction step does to the pairing of tool calls and results: it keeps it on the Anthropic
  and Chat Completions dialects, and a Responses history shows it can break it there.
\<close>

section \<open>Compaction keeps the pairing\<close>

lemma chat_pending_append:
  "chat_pending p (a @ b) = Option.bind (chat_pending p a) (\<lambda>q. chat_pending q b)"
  by (induction p a rule: chat_pending.induct) (auto simp: Let_def split: option.split)

lemma chat_pending_no_model:
  "\<forall>m \<in> set ms. \<not> is_assistant ChatCompletions m \<Longrightarrow> chat_pending [] ms = Some q \<Longrightarrow> q = []"
  by (induction ms) (auto simp: is_assistant_def chat_is_assistant_def Let_def split: option.splits if_splits)

lemma chat_pending_take: "chat_pending p ms \<noteq> None \<Longrightarrow> chat_pending p (take n ms) \<noteq> None"
  using chat_pending_append [of p "take n ms" "drop n ms"] by (auto simp: bind_eq_Some_conv)

lemma chat_pairing_kept:
  assumes intact: "chat_pending [] messages \<noteq> None"
    and head: "\<forall>m \<in> set (take h messages). \<not> is_assistant ChatCompletions m"
    and cut: "c = length messages \<or> c < length messages \<and> is_assistant ChatCompletions (messages ! c)"
    and user: "str_field m (lit ''role'') = lit ''user''"
  shows "chat_pending [] (take h messages @ [m] @ drop c messages) \<noteq> None"
proof -
  obtain q where q: "chat_pending [] (take h messages) = Some q" using chat_pending_take [OF intact] by blast
  then have "q = []" using chat_pending_no_model head by blast
  moreover have "chat_pending [] [m] = Some []" using user by (simp add: Let_def)
  moreover have "chat_pending [] (drop c messages) \<noteq> None"
  proof (cases "c < length messages")
    case True
    obtain p where "chat_pending [] (take c messages) = Some p" using chat_pending_take [OF intact] by blast
    then have p: "chat_pending p (drop c messages) \<noteq> None"
      using intact chat_pending_append [of "[]" "take c messages" "drop c messages"] by simp
    have d: "drop c messages = messages ! c # drop (Suc c) messages"
      using True by (simp add: Cons_nth_drop_Suc)
    have "p = []" using p cut True unfolding d
      by (auto simp: is_assistant_def chat_is_assistant_def Let_def split: if_splits)
    then show ?thesis using p by simp
  qed simp
  ultimately show ?thesis using q
    by (simp add: chat_pending_append del: chat_pending.simps append_Cons append.simps)
qed

lemma merge_turns_snoc: "merge_turns (ms @ [m]) = push_turn (merge_turns ms) m"
  by (simp add: merge_turns_def)

lemma merge_turns_Nil [simp]: "merge_turns [] = []"
  by (simp add: merge_turns_def)

lemma push_turn_ne [simp]: "push_turn ts m \<noteq> []"
  by (simp add: push_turn_def Let_def)

lemma merge_turns_ne [simp]: "merge_turns ms = [] \<longleftrightarrow> ms = []"
  by (induction ms rule: rev_induct) (simp_all add: merge_turns_snoc)

lemma push_turn_last: "fst (last (push_turn ts m)) = str_field m (lit ''role'')"
  by (simp add: push_turn_def Let_def)

lemma push_turn_roles: "fst ` set (push_turn ts m) \<subseteq> insert (str_field m (lit ''role'')) (fst ` set ts)"
  by (auto simp: push_turn_def Let_def dest: in_set_butlastD)

lemma merge_turns_roles: "fst ` set (merge_turns ms) \<subseteq> (\<lambda>m. str_field m (lit ''role'')) ` set ms"
proof (induction ms rule: rev_induct)
  case (snoc m ms)
  have "fst ` set (push_turn (merge_turns ms) m) \<subseteq>
      insert (str_field m (lit ''role'')) ((\<lambda>m. str_field m (lit ''role'')) ` set ms)"
    using snoc push_turn_roles [of "merge_turns ms" m] by blast
  then show ?case unfolding merge_turns_snoc by (simp del: lit_Cons)
qed simp

lemma push_turn_append: "b \<noteq> [] \<Longrightarrow> push_turn (a @ b) m = a @ push_turn b m"
  by (simp add: push_turn_def Let_def butlast_append)

lemma merge_turns_boundary:
  assumes "a = [] \<or> str_field (last a) (lit ''role'') \<noteq> str_field (hd b) (lit ''role'')"
  shows "merge_turns (a @ b) = merge_turns a @ merge_turns b"
  using assms
proof (induction b rule: rev_induct)
  case (snoc m b)
  show ?case
  proof (cases "b = []")
    case True
    have "fst (last (merge_turns a)) = str_field (last a) (lit ''role'')" if "a \<noteq> []"
      using that push_turn_last by (metis append_butlast_last_id merge_turns_snoc)
    then have "push_turn (merge_turns a) m = merge_turns a @ push_turn [] m"
      using True snoc.prems by (auto simp: push_turn_def Let_def)
    then show ?thesis using True merge_turns_snoc [of a m] merge_turns_snoc [of "[]" m] by simp
  next
    case False
    then show ?thesis using snoc merge_turns_snoc [of "a @ b" m] merge_turns_snoc [of b m]
      by (simp add: push_turn_append)
  qed
qed simp

lemma merge_turns_prefix:
  assumes "a \<noteq> []"
  shows "\<exists>extra rest. merge_turns (a @ b) = butlast (merge_turns a) @
    [(fst (last (merge_turns a)), snd (last (merge_turns a)) @ extra)] @ rest"
proof (induction b rule: rev_induct)
  case Nil
  show ?case using assms by (intro exI [of _ "[]"]) simp
next
  case (snoc m b)
  let ?l = "last (merge_turns a)"
  obtain extra rest where IH: "merge_turns (a @ b) = butlast (merge_turns a) @ [(fst ?l, snd ?l @ extra)] @ rest"
    using snoc by auto
  show ?case
  proof (cases rest rule: rev_cases)
    case Nil
    have "merge_turns (a @ b @ [m]) = butlast (merge_turns a) @ push_turn [(fst ?l, snd ?l @ extra)] m"
      using IH Nil merge_turns_snoc [of "a @ b" m] by (simp add: push_turn_append)
    then show ?thesis by (auto simp: push_turn_def Let_def)
  next
    case (snoc rest' x)
    have "merge_turns (a @ b @ [m]) = (butlast (merge_turns a) @ [(fst ?l, snd ?l @ extra)]) @ push_turn rest m"
      using IH snoc merge_turns_snoc [of "a @ b" m]
        push_turn_append [of rest "butlast (merge_turns a) @ [(fst ?l, snd ?l @ extra)]" m] by simp
    then show ?thesis by auto
  qed
qed


lemma turns_paired_append:
  "turns_paired p (a @ b) \<longleftrightarrow> turns_paired p a \<and>
     (if a = [] then turns_paired p b
      else b = [] \<or> calls_answered (last a) (hd b) \<and> turns_paired (snd (last a)) b)"
proof (induction p a rule: turns_paired.induct)
  case (2 p t ts)
  then show ?case by (cases ts; cases b) auto
qed simp

lemma turns_paired_model_first:
  "b \<noteq> [] \<Longrightarrow> fst (hd b) = lit ''assistant'' \<Longrightarrow> turns_paired p b = turns_paired q b"
  by (cases b) (auto simp: results_answered_def)

lemma ids_append [simp]: "ids (a @ b) k f = ids a k f @ ids b k f"
  by (simp add: ids_def List.map_filter_def)

lemma turns_paired_cut_last:
  assumes "turns_paired p (ts @ [(r, c @ extra)] @ rest)"
    and "\<forall>t \<in> set ts. fst t \<noteq> lit ''assistant''" "r \<noteq> lit ''assistant''"
  shows "turns_paired p (ts @ [(r, c)])"
proof -
  have "results_answered q (r, c @ extra) \<Longrightarrow> results_answered q (r, c)" for q
    by (simp add: results_answered_def)
  moreover have "calls_answered (last ts) (r, c)" if "ts \<noteq> []" using assms(2) that
    by (simp add: calls_answered_def del: lit_Cons)
  ultimately show ?thesis using assms(1) unfolding turns_paired_append
    by (auto split: if_splits)
qed

definition tool_free :: "dialect \<Rightarrow> json \<Rightarrow> bool" where
  "tool_free d m \<longleftrightarrow> d \<noteq> Anthropic \<or> ids (content_blocks m) ''tool_result'' ''tool_use_id'' = []"

lemma content_blocks_user: "content_blocks (ant_user_message s) = []"
  by (simp add: content_blocks_def ant_user_message_def json_get_def as_array_def)

lemma role_user_message: "str_field (ant_user_message s) (lit ''role'') = lit ''user''"
  by (simp add: ant_user_message_def str_field_def get_str_def json_get_def as_str_def)

lemma not_assistant_role:
  "\<not> is_assistant Anthropic m \<longleftrightarrow> str_field m (lit ''role'') \<noteq> lit ''assistant''"
  by (simp add: is_assistant_def ant_is_assistant_def del: lit_Cons)

lemma user_not_assistant: "lit ''user'' \<noteq> lit ''assistant''" by simp

lemma head_turns_paired:
  assumes "turns_paired [] (merge_turns messages)"
    and "\<forall>m \<in> set (take h messages). \<not> is_assistant Anthropic m"
  shows "turns_paired [] (merge_turns (take h messages))"
    "\<forall>t \<in> set (merge_turns (take h messages)). fst t \<noteq> lit ''assistant''"
proof -
  let ?a = "take h messages"
  show roles: "\<forall>t \<in> set (merge_turns ?a). fst t \<noteq> lit ''assistant''"
  proof
    fix t assume "t \<in> set (merge_turns ?a)"
    then obtain m where "m \<in> set ?a" "fst t = str_field m (lit ''role'')"
      using merge_turns_roles [of ?a] by (auto simp del: lit_Cons)
    then show "fst t \<noteq> lit ''assistant''" using assms(2) not_assistant_role by metis
  qed
  show "turns_paired [] (merge_turns ?a)"
  proof (cases "?a = []")
    case False
    let ?ts = "butlast (merge_turns ?a)" and ?l = "last (merge_turns ?a)"
    have ne: "merge_turns ?a \<noteq> []" using False by simp
    obtain extra rest where "merge_turns (?a @ drop h messages) = ?ts @ [(fst ?l, snd ?l @ extra)] @ rest"
      using merge_turns_prefix [OF False] by blast
    then have "turns_paired [] (?ts @ [(fst ?l, snd ?l @ extra)] @ rest)"
      using assms(1) by (simp only: append_take_drop_id)
    moreover have "\<forall>t \<in> set ?ts. fst t \<noteq> lit ''assistant''" using roles by (meson in_set_butlastD)
    moreover have "fst ?l \<noteq> lit ''assistant''" using roles last_in_set [OF ne] by blast
    ultimately have "turns_paired [] (?ts @ [(fst ?l, snd ?l)])" by (rule turns_paired_cut_last)
    then show ?thesis using ne by (simp del: lit_Cons)
  next
    case True
    show ?thesis unfolding True by simp
  qed
qed

lemma push_user_message:
  assumes "turns_paired [] ts" "\<forall>t \<in> set ts. fst t \<noteq> lit ''assistant''"
    and user: "str_field m (lit ''role'') = lit ''user''" "tool_free Anthropic m"
  shows "turns_paired [] (push_turn ts m)" "fst (last (push_turn ts m)) = lit ''user''"
proof -
  show "fst (last (push_turn ts m)) = lit ''user''" unfolding push_turn_last by (rule user(1))
  have free: "results_answered q (r, c @ content_blocks m) = results_answered q (r, c)" for q r c
    using user(2) by (simp add: results_answered_def tool_free_def)
  have none: "results_answered q (r, content_blocks m)" for q r
    using user(2) by (simp add: results_answered_def tool_free_def)
  show "turns_paired [] (push_turn ts m)"
  proof (cases "ts \<noteq> [] \<and> fst (last ts) = lit ''user''")
    case True
    have ts: "ts = butlast ts @ [(lit ''user'', snd (last ts))]"
      using append_butlast_last_id [OF conjunct1 [OF True]] conjunct2 [OF True] by (metis prod.collapse)
    have "push_turn ts m = butlast ts @ [(lit ''user'', snd (last ts) @ content_blocks m)]"
      using True unfolding push_turn_def Let_def user(1) by (simp del: lit_Cons)
    moreover have "calls_answered (last (butlast ts)) t" if "butlast ts \<noteq> []" for t
      using assms(2) in_set_butlastD [OF last_in_set [OF that]] by (simp add: calls_answered_def del: lit_Cons)
    ultimately show ?thesis using assms(1) free
      by (subst (asm) ts) (auto simp: turns_paired_append simp del: lit_Cons split: if_splits)
  next
    case False
    then have "push_turn ts m = ts @ [(lit ''user'', content_blocks m)]"
      unfolding push_turn_def Let_def user(1) by (auto simp del: lit_Cons)
    moreover have "calls_answered (last ts) t" if "ts \<noteq> []" for t
      using assms(2) that by (simp add: calls_answered_def del: lit_Cons)
    ultimately show ?thesis using assms(1) none by (auto simp: turns_paired_append simp del: lit_Cons)
  qed
qed

lemma ant_pairing_kept:
  assumes intact: "turns_paired [] (merge_turns messages)"
    and head: "\<forall>m \<in> set (take h messages). \<not> is_assistant Anthropic m"
    and cut: "c = length messages \<or> c < length messages \<and> 0 < c \<and>
      is_assistant Anthropic (messages ! c) \<and> \<not> is_assistant Anthropic (messages ! (c - 1))"
    and user: "str_field m (lit ''role'') = lit ''user''" "tool_free Anthropic m"
  shows "turns_paired [] (merge_turns (take h messages @ [m] @ drop c messages))"
proof -
  let ?first = "merge_turns (take h messages @ [m])"
  have first: "turns_paired [] ?first" "fst (last ?first) = lit ''user''"
    using push_user_message [OF head_turns_paired [OF intact head] user] by (simp_all only: merge_turns_snoc)
  show ?thesis
  proof (cases "c < length messages")
    case False
    then show ?thesis using first(1) by simp
  next
    case True
    then have at: "0 < c" "is_assistant Anthropic (messages ! c)" "\<not> is_assistant Anthropic (messages ! (c - 1))"
      using cut by auto
    then have c: "0 < c" "str_field (messages ! c) (lit ''role'') = lit ''assistant''"
      "str_field (messages ! (c - 1)) (lit ''role'') \<noteq> lit ''assistant''"
      using not_assistant_role by metis+
    let ?tail = "drop c messages"
    have hd: "hd ?tail = messages ! c" "?tail \<noteq> []" using True by (simp_all add: hd_drop_conv_nth)
    have "last (take c messages) = messages ! (c - 1)" "take c messages \<noteq> []"
      using True c(1) last_conv_nth [of "take c messages"] nth_take [of "c - 1" c messages]
      by (cases messages; simp add: min_def)+
    then have split: "merge_turns messages = merge_turns (take c messages) @ merge_turns ?tail"
      using merge_turns_boundary [of "take c messages" ?tail] hd c by (metis append_take_drop_id)
    have tail_ne: "merge_turns ?tail \<noteq> []" using hd(2) by simp
    have tail_role: "fst (hd (merge_turns ?tail)) = lit ''assistant''"
    proof -
      have "?tail = [messages ! c] @ drop (Suc c) messages" using True by (simp add: Cons_nth_drop_Suc)
      moreover have "merge_turns [messages ! c] = [(str_field (messages ! c) (lit ''role''), content_blocks (messages ! c))]"
        using merge_turns_snoc [of "[]" "messages ! c"] by (simp add: push_turn_def Let_def)
      ultimately show ?thesis
        using merge_turns_prefix [of "[messages ! c]" "drop (Suc c) messages"] c(2) by auto
    qed
    have tail: "turns_paired (snd (last ?first)) (merge_turns ?tail)"
    proof -
      have "merge_turns (take c messages) \<noteq> []" using \<open>take c messages \<noteq> []\<close> by simp
      then have "turns_paired (snd (last (merge_turns (take c messages)))) (merge_turns ?tail)"
        using intact tail_ne unfolding split turns_paired_append by (auto split: if_splits)
      then show ?thesis using turns_paired_model_first [OF tail_ne tail_role] by blast
    qed
    have "str_field (last (take h messages @ [m])) (lit ''role'') \<noteq>
        str_field (hd ?tail) (lit ''role'')"
      using hd(1) c(2) user(1) user_not_assistant by (simp del: lit_Cons)
    then have "merge_turns ((take h messages @ [m]) @ ?tail) = ?first @ merge_turns ?tail"
      by (intro merge_turns_boundary) blast
    moreover have "calls_answered (last ?first) (hd (merge_turns ?tail))"
      using first(2) user_not_assistant by (simp add: calls_answered_def del: lit_Cons)
    ultimately show ?thesis using first(1) tail by (simp add: turns_paired_append del: lit_Cons)
  qed
qed

text \<open>C14: On the Anthropic and Chat Completions dialects a compaction step never breaks the pairing of
  tool calls and results: when every result of the history answers a call of the model turn before
  it, the compacted request has that property too, whatever the budget, the configuration and the
  words carried over.\<close>

theorem compaction_keeps_pairing:
  assumes d: "d \<noteq> Responses" and intact: "pairing_intact messages d"
    and run: "compact_within messages d cfg budget carry carry_budget = Some r"
  shows "pairing_intact (cr_messages r) d"
proof -
  note facts = compact_within_facts [OF run]
  obtain parts where s: "cr_summary r = user_message d (summary_body parts)" using facts(9) by blast
  have cut: "cr_cut r = length messages \<or> cr_cut r < length messages \<and> 0 < cr_cut r \<and>
      is_assistant d (messages ! cr_cut r) \<and> \<not> is_assistant d (messages ! (cr_cut r - 1))"
    using facts(1,2,4) by (auto simp: starts_turn_def)
  show ?thesis
  proof (cases d)
    case Anthropic
    have "tool_free Anthropic (ant_user_message (summary_body parts))"
      by (simp add: tool_free_def content_blocks_user ids_def List.map_filter_def)
    then show ?thesis using Anthropic
      ant_pairing_kept [of messages "cr_head_len r" "cr_cut r", OF _ _ _ role_user_message] intact facts(3,8) cut s
      by (simp add: pairing_intact_def user_message_def)
  next
    case ChatCompletions
    have "str_field (chat_user_message (summary_body parts)) (lit ''role'') = lit ''user''"
      by (simp add: chat_user_message_def str_field_def get_str_def json_get_def as_str_def)
    then show ?thesis using ChatCompletions
      chat_pairing_kept [of messages "cr_head_len r" "cr_cut r"] intact facts(3,8) cut s
      by (auto simp: pairing_intact_def user_message_def)
  qed (use d in simp)
qed

section \<open>Concrete histories\<close>

lemma compact_plain:
  assumes n: "first_assistant d messages = Some n" and h: "trim_head d messages n = h"
    and turns: "group_turns d (drop h messages) = turns"
    and keep: "0 < keep_recent cfg" "keep_recent cfg < length turns"
    and cut: "fst (turns ! (length turns - keep_recent cfg)) = c" "1 < c"
  shows "\<exists>r parts. compact messages d cfg = Some r \<and> cr_head_len r = h \<and> cr_cut r = h + c \<and>
    cr_messages r = take h messages @ [user_message d (summary_body parts)] @ drop (h + c) messages"
proof -
  let ?body = "drop h messages"
  have hn: "h \<le> n" "n < length messages" using trim_head_le h first_assistant_Some(1) [OF n] by auto
  have split: "choose_split d ?body turns tp s 0 = length tp" for tp s by (simp add: choose_split_def)
  have lt: "length turns - keep_recent cfg < length turns" using keep by simp
  have "c \<le> length ?body"
    using fst_turns_mono(2) [of ?body "length turns - keep_recent cfg" _ d] hn lt cut(1) turns by auto
  then have "compact messages d cfg \<noteq> None"
    unfolding compact_def compact_within_None_iff [OF n h [symmetric] refl turns [symmetric] refl refl] split
    using keep cut lt hn by (simp add: cut_of_def)
  then obtain r where r: "compact messages d cfg = Some r" by blast
  obtain n' body' turns' parts' sect' split' where "first_assistant d messages = Some n'"
    and h': "cr_head_len r = trim_head d messages n'" and body': "body' = drop (cr_head_len r) messages"
    and turns': "turns' = group_turns d body'"
    and parts': "parts' = map (turn_summary d cfg body') (take (length turns' - keep_recent cfg) turns')"
    and split': "split' = choose_split d body' turns' parts' sect' 0"
    and sum: "cr_summary r = user_message d (summary_body (opt_list sect' @ concat (take split' parts')))"
    and cut': "cr_cut r = cr_head_len r + (if split' < length turns' then fst (turns' ! split') else length body')"
    and msgs: "cr_messages r = take (cr_head_len r) messages @ [cr_summary r] @ drop (cr_cut r) messages"
    by (rule compact_within_Some [OF r [unfolded compact_def]]) blast
  then have h2: "cr_head_len r = h" using n h by simp
  then have "turns' = turns" using body' turns' turns by simp
  then have c2: "cr_cut r = h + c" using cut' split' parts' lt cut(1) h2 by (simp add: choose_split_def)
  show ?thesis using r h2 c2 msgs sum by metis
qed

definition said :: "string \<Rightarrow> string \<Rightarrow> json" where
  "said role words = JObj [(lit ''role'', JStr (lit role)), (lit ''content'', JStr (lit words))]"

definition chat_history :: "json list" where
  "chat_history =
     [said ''user'' ''a'',
      JObj [(lit ''role'', JStr (lit ''assistant'')),
        (lit ''tool_calls'', JArr [JObj [(lit ''id'', JStr (lit ''1''))]])],
      JObj [(lit ''role'', JStr (lit ''tool'')), (lit ''tool_call_id'', JStr (lit ''1''))],
      said ''assistant'' ''b'', said ''user'' ''c'', said ''assistant'' ''d'']"

definition keep_one :: cliff_config where
  "keep_one = default_config\<lparr>keep_recent := 1\<rparr>"

lemma keep_one_keeps: "keep_recent keep_one = 1"
  by (simp add: keep_one_def default_config_def)

lemmas field_defs = said_def str_field_def get_str_def json_get_def as_str_def as_array_def

lemmas history_defs = field_defs is_assistant_def is_summary_def chat_is_assistant_def chat_is_summary_def
  resp_is_assistant_def resp_is_summary_def item_type_def

lemma chat_history_cut:
  "first_assistant ChatCompletions chat_history = Some 1"
  "trim_head ChatCompletions chat_history 1 = 1"
  "group_turns ChatCompletions (drop 1 chat_history) = [(0, 2), (2, 4), (4, 5)]"
  by (simp_all add: chat_history_def first_assistant_def history_defs trim_from_head_def group_turns_def
      group_by_starts_def starts_turn_def upt_rec SUMMARY_HEADER_def starts_with_def chat_content_text_def)

theorem compaction_keeps_pairing_witness:
  "case compact chat_history ChatCompletions keep_one of
     None \<Rightarrow> False | Some r \<Rightarrow> pairing_intact (cr_messages r) ChatCompletions"
proof -
  obtain r where r: "compact chat_history ChatCompletions keep_one = Some r"
    using compact_plain [OF chat_history_cut, of keep_one 4] unfolding keep_one_keeps by auto
  have "pairing_intact chat_history ChatCompletions" 
    by (simp add: pairing_intact_def chat_history_def field_defs tool_call_ids_def List.map_filter_def)
  from compaction_keeps_pairing [OF _ this r [unfolded compact_def]] r show ?thesis by simp
qed

definition resp_item :: "string \<Rightarrow> string \<Rightarrow> json" where
  "resp_item kind i = JObj [(lit ''type'', JStr (lit kind)), (lit ''call_id'', JStr (lit i))]"

definition resp_history :: "json list" where
  "resp_history =
     [said ''user'' ''a'', resp_item ''function_call'' ''1'', said ''user'' ''b'',
      resp_item ''function_call'' ''2'', resp_item ''function_call_output'' ''1'',
      resp_item ''function_call_output'' ''2'']"

lemma resp_history_cut:
  "first_assistant Responses resp_history = Some 1"
  "trim_head Responses resp_history 1 = 1"
  "group_turns Responses (drop 1 resp_history) = [(0, 2), (2, 5)]"
  by (simp_all add: resp_history_def resp_item_def first_assistant_def history_defs trim_from_head_def
      group_turns_def group_by_starts_def starts_turn_def upt_rec SUMMARY_HEADER_def starts_with_def
      ends_with_def MODEL_ITEM_TYPES_def resp_content_text_def)

text \<open>C36: A Responses history can lose its pairing in a compaction step. The provider allows an output
  anywhere after its call, and \<open>pairing_intact\<close> checks just that; but the turns are cut where a model
  item follows another item, so a call whose output arrives after a later call is summarised while
  its output stays in the tail.\<close>

theorem responses_compaction_can_orphan_output:
  "pairing_intact resp_history Responses \<and>
   (case compact resp_history Responses keep_one of
      None \<Rightarrow> False
    | Some r \<Rightarrow> cr_cut r = 3 \<and> \<not> pairing_intact (cr_messages r) Responses)"
proof -
  note defs = pairing_intact_def resp_paired_def resp_history_def resp_item_def field_defs final_run_def
    ends_with_def
  obtain r parts where r: "compact resp_history Responses keep_one = Some r" "cr_cut r = 3"
    "cr_messages r = take 1 resp_history @ [user_message Responses (summary_body parts)] @ drop 3 resp_history"
    using compact_plain [OF resp_history_cut, of keep_one 2] unfolding keep_one_keeps by (auto simp: numeral_3_eq_3)
  have "pairing_intact resp_history Responses"
    by (simp add: defs history_defs MODEL_ITEM_TYPES_def)
  moreover have "\<not> pairing_intact (cr_messages r) Responses"
    unfolding r(3) by (simp add: defs user_message_def resp_user_message_def)
  ultimately show ?thesis using r(1,2) by simp
qed

end
