(* ===== verification/Calibrate.thy ===== *)
theory Calibrate
  imports Compact
begin

text \<open>
  Estimate calibration (\<open>request/calibrate.rs\<close>): the running ratio between the provider's count of a
  request and the estimate of it, in thousandths, and the threshold divided by it. The two counters
  of a calibration are kept as naturals: the mean stays below \<open>4000\<close> and the number of samples is
  the number of accepted responses.
\<close>

section \<open>The running ratio\<close>

definition MIN_RATIO_PERMILLE :: nat where "MIN_RATIO_PERMILLE = 1000"
definition MAX_RATIO_PERMILLE :: nat where "MAX_RATIO_PERMILLE = 2000"
definition MIN_SAMPLES :: nat where "MIN_SAMPLES = 5"
definition MIN_SAMPLE_EST_TOKENS :: nat where "MIN_SAMPLE_EST_TOKENS = 1000"
definition WEIGHT_SHIFT :: nat where "WEIGHT_SHIFT = 3"

definition in_sample_range :: "nat \<Rightarrow> bool" where
  "in_sample_range permille \<longleftrightarrow> 250 \<le> permille \<and> permille \<le> 4000"

record calibration =
  cal_samples :: nat
  cal_mean :: nat

definition no_calibration :: calibration where
  "no_calibration = \<lparr>cal_samples = 0, cal_mean = 0\<rparr>"

definition next_mean :: "nat \<Rightarrow> nat \<Rightarrow> nat" where
  "next_mean mean sample =
     (if sample \<ge> mean then mean + drop_bit WEIGHT_SHIFT (sample - mean)
      else mean - drop_bit WEIGHT_SHIFT (mean - sample))"

text \<open>The quotient is taken in 128 bits, so that the product cannot wrap, and refused when it does not
  fit 64 bits.\<close>

definition observe :: "calibration \<Rightarrow> u64 \<Rightarrow> u64 \<Rightarrow> calibration \<times> bool" where
  "observe c est_tokens reported_tokens =
     (if unat est_tokens < MIN_SAMPLE_EST_TOKENS then (c, False)
      else let sample = unat reported_tokens * 1000 div unat est_tokens in
        if 2 ^ 64 \<le> sample then (c, False)
        else if \<not> in_sample_range sample then (c, False)
        else (\<lparr>cal_samples = cal_samples c + 1,
               cal_mean = (if cal_samples c = 0 then sample else next_mean (cal_mean c) sample)\<rparr>, True))"

definition measured_permille :: "calibration \<Rightarrow> nat option" where
  "measured_permille c = (if 0 < cal_samples c then Some (cal_mean c) else None)"

definition ratio_permille :: "calibration \<Rightarrow> nat" where
  "ratio_permille c =
     (if cal_samples c < MIN_SAMPLES then MIN_RATIO_PERMILLE
      else max MIN_RATIO_PERMILLE (min (cal_mean c) MAX_RATIO_PERMILLE))"

definition calibrated_threshold :: "u64 \<Rightarrow> nat \<Rightarrow> u64" where
  "calibrated_threshold threshold ratio =
     (let ratio = max MIN_RATIO_PERMILLE (min ratio MAX_RATIO_PERMILLE)
      in of_nat (unat threshold * 1000 div ratio))"

section \<open>Reported usage\<close>

definition add_cache_field :: "json \<Rightarrow> ustr \<Rightarrow> u64 \<Rightarrow> u64 option" where
  "add_cache_field usage k acc =
     (case json_get usage k of
        None \<Rightarrow> Some acc
      | Some JNull \<Rightarrow> Some acc
      | Some v \<Rightarrow> Option.bind (as_u64 v) (checked_add acc))"

definition reported_input_tokens :: "dialect \<Rightarrow> json \<Rightarrow> u64 option" where
  "reported_input_tokens d usage =
     (case d of
        Anthropic \<Rightarrow>
          Option.bind (Option.bind (json_get usage (lit ''input_tokens'')) as_u64) (\<lambda>input.
          Option.bind (add_cache_field usage (lit ''cache_creation_input_tokens'') input)
            (add_cache_field usage (lit ''cache_read_input_tokens'')))
      | Responses \<Rightarrow> Option.bind (json_get usage (lit ''input_tokens'')) as_u64
      | ChatCompletions \<Rightarrow> Option.bind (json_get usage (lit ''prompt_tokens'')) as_u64)"

section \<open>Bounds\<close>

definition observe_all :: "calibration \<Rightarrow> (u64 \<times> u64) list \<Rightarrow> calibration" where
  "observe_all c obs = foldl (\<lambda>c (est, reported). fst (observe c est reported)) c obs"

definition sample_of :: "u64 \<times> u64 \<Rightarrow> nat option" where
  "sample_of o' =
     (let s = unat (snd o') * 1000 div unat (fst o')
      in if MIN_SAMPLE_EST_TOKENS \<le> unat (fst o') \<and> in_sample_range s then Some s else None)"

lemma next_mean_between: "min m s \<le> next_mean m s" "next_mean m s \<le> max m s"
  using div_le_dividend [of "m - s" 8] div_le_dividend [of "s - m" 8]
  unfolding next_mean_def drop_bit_eq_div WEIGHT_SHIFT_def by (simp_all, linarith+)

lemma observe_sample:
  "observe c est reported =
     (case sample_of (est, reported) of
        None \<Rightarrow> (c, False)
      | Some s \<Rightarrow> (\<lparr>cal_samples = cal_samples c + 1,
          cal_mean = (if cal_samples c = 0 then s else next_mean (cal_mean c) s)\<rparr>, True))"
  by (auto simp: observe_def sample_of_def Let_def in_sample_range_def not_le)

lemma observe_all_snoc: "observe_all c (obs @ [x]) = fst (observe (observe_all c obs) (fst x) (snd x))"
  by (simp add: observe_all_def case_prod_beta)

text \<open>The learnt ratio is a mean of what was measured: after any run of responses the number of
  samples is the number of accepted ones, the running mean lies between the smallest and the largest
  of them, and the ratio applied is one until five samples are there and never leaves one to two.\<close>

theorem calibration_between_samples:
  "let c = observe_all no_calibration obs; samples = List.map_filter sample_of obs in
     cal_samples c = length samples \<and>
     (samples = [] \<or> (\<exists>lo \<in> set samples. \<exists>hi \<in> set samples. lo \<le> cal_mean c \<and> cal_mean c \<le> hi)) \<and>
     1000 \<le> ratio_permille c \<and> ratio_permille c \<le> 2000 \<and>
     (5 \<le> length samples \<or> ratio_permille c = 1000)"
proof -
  define c where "c obs = observe_all no_calibration obs" for obs
  have mean: "cal_samples (c obs) = length (List.map_filter sample_of obs) \<and>
      (List.map_filter sample_of obs = [] \<or> (\<exists>lo \<in> set (List.map_filter sample_of obs).
        \<exists>hi \<in> set (List.map_filter sample_of obs). lo \<le> cal_mean (c obs) \<and> cal_mean (c obs) \<le> hi))"
  proof (induction obs rule: rev_induct)
    case Nil
    then show ?case by (simp add: c_def observe_all_def no_calibration_def List.map_filter_def)
  next
    case (snoc x obs)
    show ?case
    proof (cases "sample_of x")
      case None
      then show ?thesis using snoc by (simp add: c_def observe_all_snoc observe_sample List.map_filter_def)
    next
      case (Some s)
      have mf: "List.map_filter sample_of (obs @ [x]) = List.map_filter sample_of obs @ [s]"
        using Some by (simp add: List.map_filter_def)
      have cx: "c (obs @ [x]) = \<lparr>cal_samples = cal_samples (c obs) + 1,
          cal_mean = (if cal_samples (c obs) = 0 then s else next_mean (cal_mean (c obs)) s)\<rparr>"
        using Some by (simp add: c_def observe_all_snoc observe_sample)
      show ?thesis
      proof (cases "List.map_filter sample_of obs = []")
        case True
        then show ?thesis using snoc unfolding mf cx by simp
      next
        case False
        then obtain lo hi where lh: "lo \<in> set (List.map_filter sample_of obs)"
          "hi \<in> set (List.map_filter sample_of obs)" "lo \<le> cal_mean (c obs)" "cal_mean (c obs) \<le> hi"
          using snoc by blast
        let ?m = "next_mean (cal_mean (c obs)) s"
        let ?all = "set (List.map_filter sample_of obs @ [s])"
        have "min lo s \<in> ?all \<and> max hi s \<in> ?all" using lh by (simp add: min_def max_def)
        moreover have "min lo s \<le> ?m \<and> ?m \<le> max hi s"
          using next_mean_between [of "cal_mean (c obs)" s] lh by linarith
        ultimately have "\<exists>lo \<in> ?all. \<exists>hi \<in> ?all. lo \<le> ?m \<and> ?m \<le> hi" by blast
        then show ?thesis using snoc False unfolding mf cx by simp
      qed
    qed
  qed
  show ?thesis unfolding Let_def using mean
    by (auto simp: c_def [symmetric] ratio_permille_def MIN_RATIO_PERMILLE_def MAX_RATIO_PERMILLE_def
      MIN_SAMPLES_def)
qed

definition distance :: "nat \<Rightarrow> nat \<Rightarrow> nat" where
  "distance a b = max a b - min a b"

lemma next_mean_closer: "distance (next_mean m s) s \<le> max 7 (distance m s - 1)"
  by (auto simp: distance_def next_mean_def drop_bit_eq_div WEIGHT_SHIFT_def)

lemma steady_mean:
  assumes s: "sample_of x = Some s" and c: "0 < cal_samples c"
  shows "distance (cal_mean (observe_all c (replicate n x))) s \<le> max 7 (distance (cal_mean c) s - n) \<and>
    cal_samples (observe_all c (replicate n x)) = cal_samples c + n"
proof (induction n)
  case 0
  then show ?case by (simp add: observe_all_def)
next
  case (Suc n)
  let ?c = "observe_all c (replicate n x)"
  have rep: "replicate (Suc n) x = replicate n x @ [x]" by (simp add: replicate_append_same)
  have "observe_all c (replicate (Suc n) x) =
      \<lparr>cal_samples = cal_samples ?c + 1, cal_mean = next_mean (cal_mean ?c) s\<rparr>"
    unfolding rep observe_all_snoc observe_sample using s c Suc by simp
  moreover have "max 7 (distance (cal_mean ?c) s - 1) \<le> max 7 (distance (cal_mean c) s - Suc n)"
    using Suc by linarith
  ultimately show ?case using Suc next_mean_closer [of "cal_mean ?c" s] order_trans by simp
qed

text \<open>C39: A steady ratio is learnt: from any calibration whose mean lies in the accepted range, enough
  responses with the same ratio bring the running mean to within seven thousandths of it, however
  far off it was; 3750 responses always suffice.\<close>

theorem calibration_learns:
  assumes "sample_of (est, reported) = Some s" "0 < cal_samples c" "in_sample_range (cal_mean c)"
    "3750 \<le> n"
  shows "distance (cal_mean (observe_all c (replicate n (est, reported)))) s \<le> 7"
proof -
  have "in_sample_range s" using assms(1) by (auto simp: sample_of_def Let_def split: if_splits)
  then have "distance (cal_mean c) s \<le> 3750" using assms(3) by (auto simp: distance_def in_sample_range_def)
  then show ?thesis using steady_mean [OF assms(1,2), of n] assms(4) by simp
qed

theorem calibration_learns_witness:
  "distance (cal_mean (observe_all \<lparr>cal_samples = 1, cal_mean = 250\<rparr> (replicate 4000 (1000, 1300)))) 1300 \<le> 7"
  by (rule calibration_learns) (simp_all add: sample_of_def MIN_SAMPLE_EST_TOKENS_def in_sample_range_def)

lemma unat_calibrated_threshold:
  "unat (calibrated_threshold t ratio) = unat t * 1000 div max 1000 (min ratio 2000)"
  "calibrated_threshold t ratio \<le> t"
proof -
  let ?r = "max 1000 (min ratio 2000) :: nat"
  have le: "unat t * 1000 div ?r \<le> unat t"
    by (metis div_le_mono2 div_mult_self_is_m zero_less_numeral max.cobounded1 mult.commute)
  show un: "unat (calibrated_threshold t ratio) = unat t * 1000 div ?r"
    unfolding calibrated_threshold_def Let_def MIN_RATIO_PERMILLE_def MAX_RATIO_PERMILLE_def
    using le_less_trans [OF le unsigned_less [of t]] by (simp add: unsigned_of_nat take_bit_nat_eq_self)
  then show "calibrated_threshold t ratio \<le> t" using le by (simp add: word_le_nat_alt)
qed

text \<open>Calibration only lowers the threshold, and never by more than half: at the neutral ratio the
  threshold is kept, and no ratio, clamped or not, raises it or halves it more than once.\<close>

theorem calibrated_threshold_bounds:
  "calibrated_threshold t 1000 = t \<and> calibrated_threshold t ratio \<le> t \<and>
   unat t \<le> 2 * unat (calibrated_threshold t ratio) + 1 \<and>
   unat (calibrated_threshold t ratio) = unat t * 1000 div max 1000 (min ratio 2000)"
proof -
  define r :: nat where "r = max 1000 (min ratio 2000)"
  have r: "1000 \<le> r" "r \<le> 2000" by (simp_all add: r_def)
  have "unat t * 1000 < (unat t * 1000 div r + 1) * r"
    using r(1) dividend_less_div_times [of r "unat t * 1000"] by (simp add: algebra_simps)
  also have "\<dots> \<le> (unat t * 1000 div r + 1) * 2000" using r(2) by (intro mult_le_mono2)
  finally have half: "unat t \<le> 2 * (unat t * 1000 div r) + 1" by simp
  have "unat (calibrated_threshold t 1000) = unat t" by (simp add: unat_calibrated_threshold(1))
  then have "calibrated_threshold t 1000 = t" by (simp only: word_unat_eq_iff)
  then show ?thesis using half unat_calibrated_threshold [of t ratio] by (simp add: r_def)
qed

text \<open>The exact count of one optional field, without a bound.\<close>

definition cache_count :: "json \<Rightarrow> ustr \<Rightarrow> nat option" where
  "cache_count usage k =
     (case json_get usage k of None \<Rightarrow> Some 0 | Some JNull \<Rightarrow> Some 0 | Some v \<Rightarrow> map_option unat (as_u64 v))"

lemma unat_add_u64:
  "map_option unat (checked_add a (b :: u64)) = (if unat a + unat b < 2 ^ 64 then Some (unat a + unat b) else None)"
  by (simp add: checked_add_def unat_add_lem [symmetric])

lemma unat_add_cache_field:
  "map_option unat (add_cache_field usage k acc) =
     Option.bind (cache_count usage k) (\<lambda>n. if unat acc + n < 2 ^ 64 then Some (unat acc + n) else None)"
proof -
  have "unat acc < 2 ^ 64" using unsigned_less [of acc] by simp
  moreover have "map_option unat (Option.bind v (checked_add acc)) = Option.bind (map_option unat v)
      (\<lambda>n. if unat acc + n < 2 ^ 64 then Some (unat acc + n) else None)" for v
    by (cases v) (simp_all add: unat_add_u64)
  ultimately show ?thesis
    by (auto simp: add_cache_field_def cache_count_def split: option.split json.split)
qed

text \<open>The provider's count is read exactly or not at all: on the Anthropic dialect the result is the
  mathematical sum of the three input fields, an absent or null cache field counting as zero, and
  a field that is not a number or a sum beyond 64 bits gives no count instead of a wrapped one.\<close>

theorem reported_input_exact:
  "map_option unat (reported_input_tokens Anthropic usage) =
     Option.bind (map_option unat (Option.bind (json_get usage (lit ''input_tokens'')) as_u64)) (\<lambda>i.
     Option.bind (cache_count usage (lit ''cache_creation_input_tokens'')) (\<lambda>a.
     Option.bind (cache_count usage (lit ''cache_read_input_tokens'')) (\<lambda>b.
       if i + a + b < 2 ^ 64 then Some (i + a + b) else None)))"
proof (cases "Option.bind (json_get usage (lit ''input_tokens'')) as_u64")
  case None
  then show ?thesis by (simp add: reported_input_tokens_def del: lit_Cons)
next
  case (Some input)
  let ?a = "lit ''cache_creation_input_tokens''" and ?b = "lit ''cache_read_input_tokens''"
  note first = unat_add_cache_field [of usage ?a input]
  show ?thesis
  proof (cases "add_cache_field usage ?a input")
    case None
    show ?thesis
    proof (cases "cache_count usage ?a")
      case none: None
      then show ?thesis using None Some by (simp add: reported_input_tokens_def del: lit_Cons)
    next
      case (Some a)
      then have "\<not> unat input + a < 2 ^ 64" using first None by (auto split: if_splits)
      then have "Option.bind (cache_count usage ?b)
          (\<lambda>b. if unat input + a + b < 2 ^ 64 then Some (unat input + a + b) else None) = None"
        by (cases "cache_count usage ?b") simp_all
      then show ?thesis using \<open>Option.bind _ as_u64 = Some input\<close> None Some
        by (simp add: reported_input_tokens_def del: lit_Cons)
    qed
  next
    case acc: (Some acc)
    then obtain a where a: "cache_count usage ?a = Some a" "unat acc = unat input + a"
      using first by (cases "cache_count usage ?a") (auto split: if_splits simp del: lit_Cons)
    have "map_option unat (reported_input_tokens Anthropic usage) = map_option unat (add_cache_field usage ?b acc)"
      using Some acc by (simp add: reported_input_tokens_def del: lit_Cons)
    then show ?thesis using Some a(1) unfolding unat_add_cache_field a(2)
      by (simp del: lit_Cons)
  qed
qed

end
