(* ===== verification/PrefixStore.thy ===== *)
theory PrefixStore
  imports Evidence "HOL-Library.Mapping"
begin

text \<open>
  The prefix store (\<open>request/store.rs\<close>): an LRU cache from the chain hash of an original prefix to the
  compaction of it, bounded by entries and by bytes. What the engine relies on is stated as a locale
  over lookup and insertion and interpreted on the store's operations.
\<close>

section \<open>The store\<close>

record store_entry =
  se_head_len :: nat
  se_summary :: json
  se_cut :: nat
  se_base_threshold :: u64
  se_carry :: "ustr list"
  se_policy :: ustr
  se_evidence :: "evidence_entry list"

record prefix_store =
  pf_max_entries :: nat
  pf_max_bytes :: nat
  pf_entries :: "(ustr, store_entry \<times> nat) mapping"
  pf_order :: "ustr list"
  pf_bytes :: nat

definition new_store :: "nat \<Rightarrow> nat \<Rightarrow> prefix_store" where
  "new_store max_entries max_bytes =
     \<lparr>pf_max_entries = max_entries, pf_max_bytes = max_bytes, pf_entries = Mapping.empty,
      pf_order = [], pf_bytes = 0\<rparr>"

definition default_store :: prefix_store where
  "default_store = new_store 4096 (64 * 1024 * 1024)"

definition store_entry_json :: "store_entry \<Rightarrow> json" where
  "store_entry_json e =
     JObj [(lit ''head_len'', JNum (PosInt (of_nat (se_head_len e)))), (lit ''summary'', se_summary e),
       (lit ''cut'', JNum (PosInt (of_nat (se_cut e)))),
       (lit ''base_threshold_tokens'', JNum (PosInt (se_base_threshold e))),
       (lit ''carry'', JArr (map JStr (se_carry e))), (lit ''policy_identity'', JStr (se_policy e)),
       (lit ''evidence'', JArr (map entry_json (se_evidence e)))]"

definition touch :: "ustr \<Rightarrow> prefix_store \<Rightarrow> prefix_store" where
  "touch key s =
     (if key \<in> set (pf_order s) then s\<lparr>pf_order := remove1 key (pf_order s) @ [key]\<rparr> else s)"

definition store_get :: "ustr \<Rightarrow> prefix_store \<Rightarrow> store_entry option \<times> prefix_store" where
  "store_get key s =
     (case Mapping.lookup (pf_entries s) key of
        None \<Rightarrow> (None, s)
      | Some (entry, _) \<Rightarrow> (Some entry, touch key s))"

text \<open>The loop that evicts the oldest keys; it ends because every round pops one.\<close>

fun evict_loop ::
  "nat \<Rightarrow> nat \<Rightarrow> (ustr, store_entry \<times> nat) mapping \<Rightarrow> ustr list \<Rightarrow> nat \<Rightarrow>
     (ustr, store_entry \<times> nat) mapping \<times> ustr list \<times> nat" where
  "evict_loop max_entries max_bytes entries [] bytes = (entries, [], bytes)"
| "evict_loop max_entries max_bytes entries (oldest # order) bytes =
     (if max_entries < Mapping.size entries \<or> max_bytes < bytes then
        (case Mapping.lookup entries oldest of
           Some (_, n) \<Rightarrow>
             evict_loop max_entries max_bytes (Mapping.delete oldest entries) order (bytes - n)
         | None \<Rightarrow> evict_loop max_entries max_bytes entries order bytes)
      else (entries, oldest # order, bytes))"

definition entry_size :: "ustr \<Rightarrow> store_entry \<Rightarrow> nat" where
  "entry_size key entry = serialized_size (store_entry_json entry) + str_len key"

definition forget_key :: "ustr \<Rightarrow> prefix_store \<Rightarrow> prefix_store" where
  "forget_key key s =
     (case Mapping.lookup (pf_entries s) key of
        Some (_, old) \<Rightarrow> s\<lparr>pf_entries := Mapping.delete key (pf_entries s),
          pf_bytes := pf_bytes s - old, pf_order := removeAll key (pf_order s)\<rparr>
      | None \<Rightarrow> s)"

definition store_put :: "ustr \<Rightarrow> store_entry \<Rightarrow> prefix_store \<Rightarrow> prefix_store" where
  "store_put key entry s =
     (let n = entry_size key entry;
          s = forget_key key s
      in if pf_max_entries s = 0 \<or> pf_max_bytes s < n then s
         else
           let (entries, order, bytes) = evict_loop (pf_max_entries s) (pf_max_bytes s)
                 (Mapping.update key (entry, n) (pf_entries s)) (pf_order s @ [key]) (pf_bytes s + n)
           in s\<lparr>pf_entries := entries, pf_order := order, pf_bytes := bytes\<rparr>)"

definition store_len :: "prefix_store \<Rightarrow> nat" where
  "store_len s = Mapping.size (pf_entries s)"

section \<open>The cache as a list\<close>

text \<open>The specification: the entries from the least to the most recently used one.\<close>

type_synonym lru = "(ustr \<times> store_entry) list"

definition lru_bytes :: "lru \<Rightarrow> nat" where
  "lru_bytes l = sum_list (map (\<lambda>(k, e). entry_size k e) l)"

definition lru_get :: "ustr \<Rightarrow> lru \<Rightarrow> store_entry option \<times> lru" where
  "lru_get key l =
     (case map_of l key of
        None \<Rightarrow> (None, l)
      | Some e \<Rightarrow> (Some e, filter (\<lambda>x. fst x \<noteq> key) l @ [(key, e)]))"

fun lru_shrink :: "nat \<Rightarrow> nat \<Rightarrow> lru \<Rightarrow> lru" where
  "lru_shrink max_entries max_bytes [] = []"
| "lru_shrink max_entries max_bytes (x # l) =
     (if max_entries < length (x # l) \<or> max_bytes < lru_bytes (x # l)
      then lru_shrink max_entries max_bytes l else x # l)"

definition lru_put :: "nat \<Rightarrow> nat \<Rightarrow> ustr \<Rightarrow> store_entry \<Rightarrow> lru \<Rightarrow> lru" where
  "lru_put max_entries max_bytes key e l =
     (let others = filter (\<lambda>x. fst x \<noteq> key) l
      in if max_entries = 0 \<or> max_bytes < entry_size key e then others
         else lru_shrink max_entries max_bytes (others @ [(key, e)]))"

definition abs_of :: "(ustr, store_entry \<times> nat) mapping \<Rightarrow> ustr list \<Rightarrow> lru" where
  "abs_of entries order = map (\<lambda>k. (k, fst (the (Mapping.lookup entries k)))) order"

definition abs_store :: "prefix_store \<Rightarrow> lru" where
  "abs_store s = abs_of (pf_entries s) (pf_order s)"

definition consistent :: "(ustr, store_entry \<times> nat) mapping \<Rightarrow> ustr list \<Rightarrow> nat \<Rightarrow> bool" where
  "consistent entries order bytes \<longleftrightarrow> distinct order \<and> set order = Mapping.keys entries \<and>
     (\<forall>k e n. Mapping.lookup entries k = Some (e, n) \<longrightarrow> n = entry_size k e) \<and>
     bytes = lru_bytes (abs_of entries order)"

definition store_ok :: "prefix_store \<Rightarrow> bool" where
  "store_ok s \<longleftrightarrow> consistent (pf_entries s) (pf_order s) (pf_bytes s) \<and>
     Mapping.size (pf_entries s) \<le> pf_max_entries s \<and> pf_bytes s \<le> pf_max_bytes s"

lemma abs_of_simps [simp]:
  "abs_of m [] = []" "abs_of m (k # ks) = (k, fst (the (Mapping.lookup m k))) # abs_of m ks"
  "abs_of m (a @ b) = abs_of m a @ abs_of m b" "length (abs_of m ks) = length ks"
  by (simp_all add: abs_of_def)

lemma lru_bytes_simps [simp]:
  "lru_bytes [] = 0" "lru_bytes ((k, e) # l) = entry_size k e + lru_bytes l"
  "lru_bytes (a @ b) = lru_bytes a + lru_bytes b"
  by (simp_all add: lru_bytes_def)

lemma abs_of_delete: "k \<notin> set ks \<Longrightarrow> abs_of (Mapping.delete k m) ks = abs_of m ks"
  by (induction ks) simp_all

lemma abs_of_update: "k \<notin> set ks \<Longrightarrow> abs_of (Mapping.update k v m) ks = abs_of m ks"
  by (induction ks) simp_all

lemma lookup_mem: "k \<in> Mapping.keys m \<longleftrightarrow> (\<exists>e n. Mapping.lookup m k = Some (e, n))"
  by (auto simp: keys_dom_lookup)

lemma consistent_size: "consistent entries order bytes \<Longrightarrow> Mapping.size entries = length order"
  by (metis consistent_def distinct_card List.finite_set Mapping.size_def)

lemma consistent_lookup:
  assumes "consistent entries order bytes" "k \<in> set order"
  shows "\<exists>e. Mapping.lookup entries k = Some (e, entry_size k e)"
proof -
  have "k \<in> Mapping.keys entries" using assms by (simp add: consistent_def)
  then obtain e n where l: "Mapping.lookup entries k = Some (e, n)" using iffD1 [OF lookup_mem [of k entries]] by blast
  then have "n = entry_size k e" using assms(1) unfolding consistent_def by blast
  then show ?thesis using l by blast
qed

lemma consistent_lookup_None:
  assumes "consistent entries order bytes"
  shows "Mapping.lookup entries k = None \<longleftrightarrow> k \<notin> set order"
proof -
  have "set order = Mapping.keys entries" using assms by (simp add: consistent_def)
  then have "k \<in> set order \<longleftrightarrow> k \<in> dom (Mapping.lookup entries)" by (simp only: keys_dom_lookup)
  then show ?thesis by (simp only: domIff not_not)
qed

lemma consistent_delete:
  assumes "consistent entries (a @ k # b) bytes" "Mapping.lookup entries k = Some (e, n)"
  shows "consistent (Mapping.delete k entries) (a @ b) (bytes - n)"
    "abs_of (Mapping.delete k entries) (a @ b) = abs_of entries (a @ b)"
proof -
  have new: "k \<notin> set (a @ b)" using assms(1) by (auto simp: consistent_def)
  show same: "abs_of (Mapping.delete k entries) (a @ b) = abs_of entries (a @ b)"
    by (rule abs_of_delete [OF new])
  have "bytes = lru_bytes (abs_of entries (a @ b)) + n"
    using assms by (auto simp: consistent_def)
  moreover have "Mapping.lookup (Mapping.delete k entries) x = Some (e', n') \<longrightarrow> n' = entry_size x e'" for x e' n'
    using assms(1) by (cases "x = k") (auto simp: consistent_def)
  moreover have "set (a @ b) = Mapping.keys entries - {k}" "distinct (a @ b)"
    using assms(1) by (auto simp: consistent_def)
  ultimately show "consistent (Mapping.delete k entries) (a @ b) (bytes - n)"
    unfolding consistent_def same by simp
qed

lemma consistent_update:
  assumes con: "consistent entries order bytes" and new: "k \<notin> set order"
  shows "consistent (Mapping.update k (e, entry_size k e) entries) (order @ [k]) (bytes + entry_size k e)"
    "abs_of (Mapping.update k (e, entry_size k e) entries) (order @ [k]) = abs_of entries order @ [(k, e)]"
proof -
  let ?m = "Mapping.update k (e, entry_size k e) entries"
  show same: "abs_of ?m (order @ [k]) = abs_of entries order @ [(k, e)]"
    using abs_of_update [OF new] by simp
  have sized: "n' = entry_size x e'" if "Mapping.lookup ?m x = Some (e', n')" for x e' n'
  proof (cases "x = k")
    case False
    then have "Mapping.lookup entries x = Some (e', n')" using that by simp
    then show ?thesis using con unfolding consistent_def by blast
  next
    case True
    then show ?thesis using that by auto
  qed
  have "set (order @ [k]) = Mapping.keys ?m" "distinct (order @ [k])"
    using con new unfolding consistent_def by simp_all
  moreover have "bytes + entry_size k e = lru_bytes (abs_of ?m (order @ [k]))"
    using con unfolding same consistent_def by simp
  ultimately show "consistent ?m (order @ [k]) (bytes + entry_size k e)"
    using sized unfolding consistent_def by blast
qed

lemma evict_loop_spec:
  assumes "consistent entries order bytes" "evict_loop me mb entries order bytes = (entries', order', bytes')"
  shows "consistent entries' order' bytes' \<and> abs_of entries' order' = lru_shrink me mb (abs_of entries order) \<and>
    Mapping.size entries' \<le> me \<and> bytes' \<le> mb"
  using assms
proof (induction order arbitrary: entries bytes)
  case Nil
  then show ?case using consistent_size [OF Nil.prems(1)] by (auto simp: consistent_def)
next
  case (Cons oldest order)
  obtain e where l: "Mapping.lookup entries oldest = Some (e, entry_size oldest e)"
    using consistent_lookup [OF Cons.prems(1)] by auto
  have over: "me < length (abs_of entries (oldest # order)) \<or> mb < lru_bytes (abs_of entries (oldest # order)) \<longleftrightarrow>
      me < Mapping.size entries \<or> mb < bytes"
    using consistent_size [OF Cons.prems(1)] Cons.prems(1) by (simp add: consistent_def)
  show ?case
  proof (cases "me < Mapping.size entries \<or> mb < bytes")
    case True
    have "evict_loop me mb (Mapping.delete oldest entries) order (bytes - entry_size oldest e) =
        (entries', order', bytes')"
      using Cons.prems(2) True l by simp
    from Cons.IH [OF _ this] show ?thesis
      using consistent_delete [of entries "[]" oldest order bytes, OF _ l] Cons.prems(1) True over
      by simp
  next
    case False
    then show ?thesis using Cons.prems over by (auto simp: consistent_def)
  qed
qed

lemma abs_of_filter: "abs_of m (removeAll k ks) = filter (\<lambda>x. fst x \<noteq> k) (abs_of m ks)"
  by (induction ks) auto

lemma forget_key_spec:
  assumes "store_ok s"
  shows "store_ok (forget_key key s)" "key \<notin> set (pf_order (forget_key key s))"
    "abs_store (forget_key key s) = filter (\<lambda>x. fst x \<noteq> key) (abs_store s)"
proof -
  have con: "consistent (pf_entries s) (pf_order s) (pf_bytes s)" using assms by (simp add: store_ok_def)
  have "store_ok (forget_key key s) \<and> key \<notin> set (pf_order (forget_key key s)) \<and>
      abs_store (forget_key key s) = filter (\<lambda>x. fst x \<noteq> key) (abs_store s)"
  proof (cases "Mapping.lookup (pf_entries s) key")
    case None
    then have new: "key \<notin> set (pf_order s)" using consistent_lookup_None [OF con] by simp
    then have "filter (\<lambda>x. fst x \<noteq> key) (abs_store s) = abs_store s"
      unfolding abs_store_def abs_of_filter [symmetric] by simp
    then show ?thesis using assms None new by (simp add: forget_key_def)
  next
    case (Some v)
    obtain e n where v: "v = (e, n)" by (cases v)
    then have "key \<in> set (pf_order s)" using consistent_lookup_None [OF con, of key] Some by auto
    then obtain a b where ab: "pf_order s = a @ key # b" by (meson split_list)
    have new: "key \<notin> set (a @ b)" using con ab by (auto simp: consistent_def)
    then have rm: "removeAll key (pf_order s) = a @ b" using ab by simp
    have f: "forget_key key s = s\<lparr>pf_entries := Mapping.delete key (pf_entries s), pf_bytes := pf_bytes s - n,
        pf_order := a @ b\<rparr>"
      using Some v rm by (simp add: forget_key_def)
    note del = consistent_delete [OF con [unfolded ab] Some [unfolded v]]
    have "Mapping.size (Mapping.delete key (pf_entries s)) \<le> Mapping.size (pf_entries s)"
      using consistent_size [OF del(1)] consistent_size [OF con] ab by simp
    then have "store_ok (forget_key key s)" using assms del(1) unfolding f by (auto simp: store_ok_def)
    moreover have "abs_store (forget_key key s) = filter (\<lambda>x. fst x \<noteq> key) (abs_store s)"
      unfolding f abs_store_def abs_of_filter [symmetric] rm using del(2) by simp
    ultimately show ?thesis using new unfolding f by simp
  qed
  then show "store_ok (forget_key key s)" "key \<notin> set (pf_order (forget_key key s))"
    "abs_store (forget_key key s) = filter (\<lambda>x. fst x \<noteq> key) (abs_store s)" by simp_all
qed

lemma forget_key_limits [simp]:
  "pf_max_entries (forget_key key s) = pf_max_entries s" "pf_max_bytes (forget_key key s) = pf_max_bytes s"
  by (auto simp: forget_key_def split: option.split)

lemma store_put_spec:
  assumes ok: "store_ok s"
  shows "store_ok (store_put key entry s) \<and>
    abs_store (store_put key entry s) = lru_put (pf_max_entries s) (pf_max_bytes s) key entry (abs_store s) \<and>
    pf_max_entries (store_put key entry s) = pf_max_entries s \<and>
    pf_max_bytes (store_put key entry s) = pf_max_bytes s"
proof (cases "pf_max_entries s = 0 \<or> pf_max_bytes s < entry_size key entry")
  case True
  then show ?thesis using forget_key_spec [OF ok, of key]
    by (simp add: store_put_def lru_put_def Let_def)
next
  case False
  let ?f = "forget_key key s" and ?n = "entry_size key entry"
  have con: "consistent (pf_entries ?f) (pf_order ?f) (pf_bytes ?f)"
    using forget_key_spec(1) [OF ok] by (simp add: store_ok_def)
  note up = consistent_update [OF con forget_key_spec(2) [OF ok], of entry]
  obtain entries' order' bytes' where ev: "evict_loop (pf_max_entries s) (pf_max_bytes s)
      (Mapping.update key (entry, ?n) (pf_entries ?f)) (pf_order ?f @ [key]) (pf_bytes ?f + ?n) =
      (entries', order', bytes')"
    by (cases rule: prod_cases3) blast
  have put: "store_put key entry s = ?f\<lparr>pf_entries := entries', pf_order := order', pf_bytes := bytes'\<rparr>"
    using False ev by (simp add: store_put_def Let_def)
  show ?thesis using evict_loop_spec [OF up(1) ev] up(2) False forget_key_spec(3) [OF ok, of key]
    unfolding put by (simp add: store_ok_def abs_store_def lru_put_def Let_def)
qed

lemma store_get_spec:
  assumes ok: "store_ok s"
  shows "store_ok (snd (store_get key s)) \<and>
    fst (store_get key s) = fst (lru_get key (abs_store s)) \<and>
    abs_store (snd (store_get key s)) = snd (lru_get key (abs_store s)) \<and>
    pf_max_entries (snd (store_get key s)) = pf_max_entries s \<and>
    pf_max_bytes (snd (store_get key s)) = pf_max_bytes s"
proof -
  have con: "consistent (pf_entries s) (pf_order s) (pf_bytes s)" using ok by (simp add: store_ok_def)
  have mem: "map_of (abs_of m ks) k = (if k \<in> set ks then Some (fst (the (Mapping.lookup m k))) else None)" for m ks k
    by (induction ks) auto
  show ?thesis
  proof (cases "Mapping.lookup (pf_entries s) key")
    case None
    then have "map_of (abs_store s) key = None"
      using consistent_lookup_None [OF con] by (simp add: abs_store_def mem)
    then show ?thesis using None ok by (simp add: store_get_def lru_get_def)
  next
    case (Some v)
    obtain e n where v: "v = (e, n)" by (cases v)
    then have key: "key \<in> set (pf_order s)" using consistent_lookup_None [OF con, of key] Some by auto
    have dist: "distinct (pf_order s)" using con by (simp add: consistent_def)
    have rm: "remove1 key (pf_order s) = removeAll key (pf_order s)" by (rule distinct_remove1_removeAll [OF dist])
    have got: "store_get key s = (Some e, s\<lparr>pf_order := removeAll key (pf_order s) @ [key]\<rparr>)"
      using Some v key rm by (simp add: store_get_def touch_def)
    have "map_of (abs_store s) key = Some e" using key Some v by (simp add: abs_store_def mem)
    then have ref: "lru_get key (abs_store s) = (Some e, abs_of (pf_entries s) (removeAll key (pf_order s) @ [key]))"
      using Some v by (simp add: lru_get_def abs_store_def abs_of_filter)
    obtain a b where ab: "pf_order s = a @ key # b" using key by (meson split_list)
    then have "lru_bytes (abs_of (pf_entries s) (removeAll key (pf_order s) @ [key])) =
        lru_bytes (abs_of (pf_entries s) (pf_order s))"
      using dist by simp
    then have "consistent (pf_entries s) (removeAll key (pf_order s) @ [key]) (pf_bytes s)"
      using con key by (auto simp: consistent_def distinct_removeAll)
    then show ?thesis using ok ref unfolding got by (simp add: store_ok_def abs_store_def)
  qed
qed

section \<open>Reachable stores\<close>

inductive reachable_store :: "nat \<Rightarrow> nat \<Rightarrow> prefix_store \<Rightarrow> bool" for max_entries max_bytes where
  created: "reachable_store max_entries max_bytes (new_store max_entries max_bytes)"
| read: "reachable_store max_entries max_bytes s \<Longrightarrow>
    reachable_store max_entries max_bytes (snd (store_get key s))"
| written: "reachable_store max_entries max_bytes s \<Longrightarrow>
    reachable_store max_entries max_bytes (store_put key entry s)"

lemma reachable_store_inv:
  "reachable_store me mb s \<Longrightarrow> store_ok s \<and> pf_max_entries s = me \<and> pf_max_bytes s = mb"
proof (induction rule: reachable_store.induct)
  case created
  then show ?case by (simp add: new_store_def store_ok_def consistent_def)
next
  case (read s key)
  then show ?case using store_get_spec [of s key] by simp
next
  case (written s key entry)
  then show ?case using store_put_spec [of s key entry] by simp
qed

text \<open>C37: Every store the operations can produce keeps its accounts: the recency order lists each stored
  key once, the byte counter is the sum of the serialized sizes of what is stored, and neither the
  number of entries nor the bytes ever exceed their limits.\<close>

theorem store_accounts:
  assumes "reachable_store max_entries max_bytes s"
  shows "distinct (pf_order s) \<and> set (pf_order s) = Mapping.keys (pf_entries s) \<and>
    pf_bytes s = lru_bytes (abs_store s) \<and> store_len s \<le> max_entries \<and> pf_bytes s \<le> max_bytes"
  using reachable_store_inv [OF assms] by (simp add: store_ok_def consistent_def abs_store_def store_len_def)

theorem store_accounts_witness:
  "let s = store_put (lit ''k'') \<lparr>se_head_len = 0, se_summary = JNull, se_cut = 1, se_base_threshold = 0,
      se_carry = [], se_policy = [], se_evidence = []\<rparr> (new_store 1 1000)
   in distinct (pf_order s) \<and> set (pf_order s) = Mapping.keys (pf_entries s) \<and>
     pf_bytes s = lru_bytes (abs_store s) \<and> store_len s \<le> 1 \<and> pf_bytes s \<le> 1000"
  unfolding Let_def by (rule store_accounts) (intro reachable_store.intros)

text \<open>C16: The store is a least-recently-used cache: read as the list of its entries by recency, a read
  moves the entry found to the end, and a write puts the new entry there and drops exactly as many
  of the oldest ones as the limits require; the hash map, the queue and the counters implement
  that list.\<close>

theorem store_refines_lru:
  assumes "reachable_store max_entries max_bytes s"
  shows "fst (store_get key s) = fst (lru_get key (abs_store s)) \<and>
    abs_store (snd (store_get key s)) = snd (lru_get key (abs_store s)) \<and>
    abs_store (store_put key entry s) = lru_put max_entries max_bytes key entry (abs_store s)"
  using reachable_store_inv [OF assms] store_get_spec [of s key] store_put_spec [of s key entry] by simp

theorem store_refines_lru_witness:
  "let e = \<lparr>se_head_len = 0, se_summary = JNull, se_cut = 1, se_base_threshold = 0, se_carry = [],
      se_policy = [], se_evidence = []\<rparr>; s = new_store 2 100
   in fst (store_get (lit ''k'') s) = fst (lru_get (lit ''k'') (abs_store s)) \<and>
     abs_store (snd (store_get (lit ''k'') s)) = snd (lru_get (lit ''k'') (abs_store s)) \<and>
     abs_store (store_put (lit ''k'') e s) = lru_put 2 100 (lit ''k'') e (abs_store s)"
  unfolding Let_def by (rule store_refines_lru) (rule reachable_store.created)

section \<open>What the engine relies on\<close>

definition holds_all :: "('k \<Rightarrow> 'e option) \<Rightarrow> ('k \<Rightarrow> 'e \<Rightarrow> bool) \<Rightarrow> bool" where
  "holds_all look P \<longleftrightarrow> (\<forall>k e. look k = Some e \<longrightarrow> P k e)"

locale entry_cache =
  fixes lookup :: "'s \<Rightarrow> 'k \<Rightarrow> 'e option"
    and get :: "'k \<Rightarrow> 's \<Rightarrow> 'e option \<times> 's"
    and put :: "'k \<Rightarrow> 'e \<Rightarrow> 's \<Rightarrow> 's"
    and ok :: "'s \<Rightarrow> bool"
  assumes get_ok: "ok s \<Longrightarrow> ok (snd (get k s))"
    and put_ok: "ok s \<Longrightarrow> ok (put k e s)"
    and get_result: "ok s \<Longrightarrow> fst (get k s) = lookup s k"
    and get_lookup: "ok s \<Longrightarrow> lookup (snd (get k s)) = lookup s"
    and put_lookup: "ok s \<Longrightarrow> lookup (put k e s) k' = Some e' \<Longrightarrow>
      (if k' = k then e' = e else lookup s k' = Some e')"
begin

lemma holds_all_get: "ok s \<Longrightarrow> holds_all (lookup s) P \<Longrightarrow> holds_all (lookup (snd (get k s))) P"
  by (simp add: get_lookup)

lemma holds_all_put: "ok s \<Longrightarrow> holds_all (lookup s) P \<Longrightarrow> P k e \<Longrightarrow> holds_all (lookup (put k e s)) P"
  unfolding holds_all_def by (metis put_lookup)

lemma got: "ok s \<Longrightarrow> holds_all (lookup s) P \<Longrightarrow> get k s = (Some e, s') \<Longrightarrow> P k e"
  using get_result [of s k] by (simp add: holds_all_def)

lemma puts:
  "ok s \<Longrightarrow> holds_all (lookup s) P \<Longrightarrow> list_all (\<lambda>(k, e). P k e) kes \<Longrightarrow>
     ok (fold (\<lambda>(k, e). put k e) kes s) \<and> holds_all (lookup (fold (\<lambda>(k, e). put k e) kes s)) P"
  by (induction kes arbitrary: s) (auto simp: put_ok holds_all_put)

end

definition store_lookup :: "prefix_store \<Rightarrow> ustr \<Rightarrow> store_entry option" where
  "store_lookup s k = map_option fst (Mapping.lookup (pf_entries s) k)"

lemma map_of_abs_of: "map_of (abs_of m ks) k = (if k \<in> set ks then Some (fst (the (Mapping.lookup m k))) else None)"
  by (induction ks) auto

lemma store_lookup_abs:
  assumes "store_ok s"
  shows "store_lookup s k = map_of (abs_store s) k"
proof -
  have con: "consistent (pf_entries s) (pf_order s) (pf_bytes s)" using assms by (simp add: store_ok_def)
  show ?thesis using consistent_lookup_None [OF con, of k]
    by (cases "Mapping.lookup (pf_entries s) k") (auto simp: store_lookup_def abs_store_def map_of_abs_of)
qed

lemma map_of_filter_key: "map_of (filter (\<lambda>x. fst x \<noteq> k) l) k' = (if k' = k then None else map_of l k')"
  by (induction l) auto

lemma map_of_shrink:
  "distinct (map fst l) \<Longrightarrow> map_of (lru_shrink me mb l) k = Some e \<Longrightarrow> map_of l k = Some e"
proof (induction me mb l rule: lru_shrink.induct)
  case (2 me mb x l)
  show ?case
  proof (cases "me < length (x # l) \<or> mb < lru_bytes (x # l)")
    case True
    then have m: "map_of l k = Some e" using 2 by auto
    then have "k \<in> fst ` set l" by (force dest: map_of_SomeD)
    then show ?thesis using 2(2) m by (cases x) auto
  next
    case False
    then show ?thesis using 2 by auto
  qed
qed simp

lemma store_put_lookup:
  assumes ok: "store_ok s" and got: "store_lookup (store_put key e s) k = Some e'"
  shows "if k = key then e' = e else store_lookup s k = Some e'"
proof -
  let ?others = "filter (\<lambda>x. fst x \<noteq> key) (abs_store s)"
  have "distinct (pf_order s)" using ok by (simp add: store_ok_def consistent_def)
  moreover have "map fst (abs_store s) = pf_order s" by (simp add: abs_store_def abs_of_def comp_def)
  ultimately have dist: "distinct (map fst (?others @ [(key, e)]))"
    by (auto simp: distinct_map_filter)
  have "map_of (lru_put (pf_max_entries s) (pf_max_bytes s) key e (abs_store s)) k = Some e'"
    using got store_put_spec [OF ok, of key e] store_lookup_abs by metis
  then have "map_of ?others k = Some e' \<or> map_of (?others @ [(key, e)]) k = Some e'"
    using map_of_shrink [OF dist] by (auto simp: lru_put_def Let_def split: if_splits)
  then show ?thesis using store_lookup_abs [OF ok, of k]
    by (auto simp: map_of_filter_key map_add_def split: if_splits option.splits)
qed

interpretation lru: entry_cache store_lookup store_get store_put store_ok
proof (unfold_locales, goal_cases)
  case (1 s k)
  then show ?case using store_get_spec by blast
next
  case (2 s k e)
  then show ?case using store_put_spec by blast
next
  case (3 s k)
  then show ?case by (simp add: store_get_def store_lookup_def split: option.split)
next
  case (4 s k)
  then show ?case by (simp add: store_get_def store_lookup_def touch_def fun_eq_iff split: option.split)
next
  case (5 s k e k' e')
  then show ?case by (rule store_put_lookup)
qed

text \<open>A compaction that fits is there for the next request: directly after a write whose size is
  within the limits the key reads back as exactly the entry written, and no other key reads back as
  anything it did not hold before.\<close>

theorem store_put_reads_back:
  assumes "reachable_store max_entries max_bytes s"
    and "max_entries \<noteq> 0" "entry_size key entry \<le> max_bytes"
  shows "fst (store_get key (store_put key entry s)) = Some entry \<and>
    (k = key \<or> fst (store_get k (store_put key entry s)) \<in> {None, fst (store_get k s)})"
proof -
  have ok: "store_ok s" and lim: "pf_max_entries s = max_entries" "pf_max_bytes s = max_bytes"
    using reachable_store_inv [OF assms(1)] by simp_all
  let ?s = "store_put key entry s"
  have last: "(key, entry) \<in> set (lru_shrink max_entries max_bytes (l @ [(key, entry)]))" for l
    using assms(2,3) by (induction l) auto
  have ok': "store_ok ?s" and "abs_store ?s = lru_put max_entries max_bytes key entry (abs_store s)"
    using store_put_spec [OF ok, of key entry] lim by simp_all
  then have "(key, entry) \<in> set (abs_store ?s)" using last assms(2,3) by (simp add: lru_put_def Let_def)
  moreover have "distinct (map fst (abs_store ?s))"
    using ok' by (simp add: store_ok_def consistent_def abs_store_def abs_of_def comp_def)
  ultimately have "store_lookup ?s key = Some entry"
    using store_lookup_abs [OF ok'] by simp
  moreover have "k = key \<or> store_lookup ?s k \<in> {None, store_lookup s k}"
    using store_put_lookup [OF ok, of key entry k] by (cases "store_lookup ?s k") (auto split: if_splits)
  ultimately show ?thesis using lru.get_result [OF ok] lru.get_result [OF ok'] by simp
qed

theorem store_put_reads_back_witness:
  "let e = \<lparr>se_head_len = 0, se_summary = JNull, se_cut = 1, se_base_threshold = 0,
      se_carry = [], se_policy = [], se_evidence = []\<rparr>;
     s = new_store 1 (entry_size (lit ''k'') e)
   in fst (store_get (lit ''k'') (store_put (lit ''k'') e s)) = Some e \<and>
     (lit ''a'' = lit ''k'' \<or> fst (store_get (lit ''a'') (store_put (lit ''k'') e s)) \<in>
       {None, fst (store_get (lit ''a'') s)})"
  unfolding Let_def
  by (rule store_put_reads_back [OF reachable_store.created]) simp_all

end
