(* ===== verification/Engine.thy ===== *)
theory Engine
  imports Calibrate PrefixStore
begin

text \<open>
  The request pipeline (\<open>request/engine.rs\<close>): substitute the longest stored prefix, then compact the
  outgoing request when it is over the threshold. The engine's state is the prefix store, threaded
  through its operations; a step that the source reports as \<open>false\<close> changes nothing and is \<open>None\<close>.
  The threshold is a \<open>u64\<close> because the source saturates on it; sizes in characters are naturals.
\<close>

section \<open>A request\<close>

record request_ctx =
  rq_body :: json_map
  rq_dialect :: dialect
  rq_msgs :: "json list"
  rq_msg_chars :: "nat list"
  rq_fixed_chars :: nat
  rq_floor_chars :: nat
  rq_chain :: "ustr list"
  rq_base_cut :: nat
  rq_base_head :: nat
  rq_substituted :: "(json list \<times> nat list) option"
  rq_matched :: bool
  rq_modified :: bool
  rq_compacted :: bool
  rq_rung :: nat
  rq_over_budget :: bool
  rq_threshold :: u64
  rq_est_in :: nat
  rq_est_out :: nat
  rq_chain_steps :: nat
  rq_est_fixed :: nat
  rq_est_head :: nat
  rq_est_summary :: nat
  rq_est_tail :: nat
  rq_base_threshold :: u64
  rq_ratio :: nat
  rq_calibrated :: u64
  rq_carry :: "ustr list"
  rq_carry_chars :: nat
  rq_policy :: ustr
  rq_floor_exceeds :: bool
  rq_evidence :: "evidence_entry list"
  rq_evidence_bytes :: nat
  rq_retained :: "ustr list"
  rq_excerpted :: "ustr list"
  rq_evicted :: "ustr list"
  rq_deferred :: "(ustr \<times> store_entry) list option"

definition out_messages :: "request_ctx \<Rightarrow> json list" where
  "out_messages ctx = (case rq_substituted ctx of Some (ms, _) \<Rightarrow> ms | None \<Rightarrow> rq_msgs ctx)"

definition out_sizes :: "request_ctx \<Rightarrow> nat list" where
  "out_sizes ctx = (case rq_substituted ctx of Some (_, ns) \<Rightarrow> ns | None \<Rightarrow> rq_msg_chars ctx)"

definition outgoing_body :: "request_ctx \<Rightarrow> json" where
  "outgoing_body ctx =
     JObj (obj_insert (messages_key (rq_dialect ctx)) (JArr (out_messages ctx)) (rq_body ctx))"

definition tokens_of :: "request_ctx \<Rightarrow> nat list \<Rightarrow> nat" where
  "tokens_of ctx ns = (rq_fixed_chars ctx + sum_list ns) div 4"

text \<open>\<open>threshold_tokens.saturating_mul(4) as usize\<close>\<close>

definition threshold_chars :: "request_ctx \<Rightarrow> nat" where
  "threshold_chars ctx = unat (sat_mul (rq_threshold ctx) 4)"

definition headroom_chars :: "request_ctx \<Rightarrow> nat" where
  "headroom_chars ctx = threshold_chars ctx - rq_floor_chars ctx"

definition tail_budget_chars :: "request_ctx \<Rightarrow> cliff_config \<Rightarrow> nat" where
  "tail_budget_chars ctx knobs =
     headroom_chars ctx * min (keep_tail_percent knobs) MAX_KEEP_TAIL_PERCENT div 100"

definition carry_budget :: "cliff_config \<Rightarrow> request_ctx \<Rightarrow> nat" where
  "carry_budget cfg ctx = min (carry_max_chars cfg) (headroom_chars ctx div 4)"

definition summary_str :: "json \<Rightarrow> ustr" where
  "summary_str m =
     (case json_get m (lit ''content'') of
        Some (JStr s) \<Rightarrow> s
      | Some (JArr blocks) \<Rightarrow>
          (case List.map_filter (\<lambda>b. get_str b (lit ''text'')) blocks of s # _ \<Rightarrow> s | [] \<Rightarrow> [])
      | _ \<Rightarrow> [])"

definition section_chars :: "ustr \<Rightarrow> nat" where
  "section_chars s =
     (case Option.bind (strip_prefix s SUMMARY_HEADER) (\<lambda>rest. strip_prefix rest [10, 10]) of
        None \<Rightarrow> 0
      | Some rest \<Rightarrow>
          (case strip_prefix rest CARRY_LABEL of
             Some after \<Rightarrow> if starts_with after [10] then length (hd (split_str PART_SEPARATOR rest)) else 0
           | None \<Rightarrow> 0))"

definition refresh_estimate :: "request_ctx \<Rightarrow> request_ctx" where
  "refresh_estimate ctx =
     (let ns = out_sizes ctx;
          est = tokens_of ctx ns;
          (head, summary, tail) =
            (if rq_substituted ctx \<noteq> None \<and> rq_base_head ctx < length ns then
               (sum_list (take (rq_base_head ctx) ns) div 4, ns ! rq_base_head ctx div 4,
                sum_list (drop (rq_base_head ctx + 1) ns) div 4)
             else (0, 0, sum_list ns div 4));
          carry_chars =
            (if rq_substituted ctx \<noteq> None \<and> rq_base_head ctx < length (out_messages ctx)
             then section_chars (summary_str (out_messages ctx ! rq_base_head ctx)) else 0)
      in ctx\<lparr>rq_est_out := est, rq_over_budget := unat (rq_threshold ctx) < est, rq_est_head := head,
           rq_est_summary := summary, rq_est_tail := tail, rq_carry_chars := carry_chars\<rparr>)"

definition refresh_evidence :: "(ustr \<Rightarrow> ustr) \<Rightarrow> request_ctx \<Rightarrow> request_ctx" where
  "refresh_evidence sha ctx =
     (if rq_base_cut ctx = 0 then ctx
      else
        let es = rq_evidence ctx;
            d = rq_dialect ctx;
            complete = complete_digests es;
            available = complete @ map ob_digest (evidence_observations sha (drop (rq_base_cut ctx) (rq_msgs ctx)) d);
            gone = map ob_digest (evidence_observations sha
              (slice (rq_base_head ctx, rq_base_cut ctx) (rq_msgs ctx)) d)
        in ctx\<lparr>rq_evidence_bytes := (if es = [] then 0 else serialized_bytes es),
             rq_retained := sort (remdups complete),
             rq_excerpted := map (ob_digest \<circ> ev_observation) (filter (\<lambda>e. \<not> ev_complete e) es),
             rq_evicted := remdups_adj (sort (filter (\<lambda>x. x \<notin> set available) gone))\<rparr>)"

section \<open>The replay of a history\<close>

record replay =
  rp_working :: "json list"
  rp_sizes :: "nat list"
  rp_head_len :: nat
  rp_orig_cut :: nat
  rp_have_summary :: bool
  rp_last_summary :: "json option"
  rp_steps :: nat
  rp_carry :: "ustr list"
  rp_evidence :: "evidence_entry list"

definition adopt ::
  "(ustr \<Rightarrow> ustr) \<Rightarrow> replay \<Rightarrow> compact_result \<Rightarrow> nat \<Rightarrow> dialect \<Rightarrow> cliff_config \<Rightarrow> nat \<Rightarrow> replay option" where
  "adopt sha rp result original_len d cfg evidence_budget =
     (if rp_have_summary rp \<and> cr_cut result < rp_head_len rp + 1 then None
      else
        let new_cut = (if rp_have_summary rp then rp_orig_cut rp + (cr_cut result - (rp_head_len rp + 1))
              else cr_cut result)
        in if \<not> (1 \<le> new_cut \<and> new_cut \<le> original_len) then None
           else
             let evidence = merge_evidence sha (rp_evidence rp)
                   (slice (cr_head_len result, cr_cut result) (rp_working rp)) d cfg evidence_budget;
                 summary = render_evidence (cr_summary result) d evidence
             in Some \<lparr>rp_working = (cr_messages result)[cr_head_len result := summary],
                  rp_sizes = take (cr_head_len result) (rp_sizes rp) @ [message_chars summary] @
                    drop (cr_cut result) (rp_sizes rp),
                  rp_head_len = cr_head_len result, rp_orig_cut = new_cut, rp_have_summary = True,
                  rp_last_summary = Some summary, rp_steps = rp_steps rp + 1,
                  rp_carry = cr_carry result, rp_evidence = evidence\<rparr>)"

record step_budgets =
  sb_budget :: nat
  sb_carry :: nat
  sb_evidence :: nat

definition evidence_budget_of :: "cliff_config \<Rightarrow> request_ctx \<Rightarrow> nat" where
  "evidence_budget_of cfg ctx =
     (if evidence_max_bytes cfg = 0 \<or> evidence_item_max_chars cfg = 0 then 0
      else min (evidence_max_chars cfg) (headroom_chars ctx div 4))"

definition budgets_of :: "cliff_config \<Rightarrow> cliff_config \<Rightarrow> request_ctx \<Rightarrow> step_budgets" where
  "budgets_of cfg knobs ctx =
     (let evidence = evidence_budget_of cfg ctx;
          tail = tail_budget_chars ctx knobs
      in \<lparr>sb_budget = (if tail = 0 then 0 else max (tail - evidence) 1),
          sb_carry = carry_budget cfg ctx, sb_evidence = evidence\<rparr>)"

text \<open>One compaction of the replay: \<open>None\<close> when a result cannot be adopted and the request fails open.\<close>

definition replay_compact ::
  "(ustr \<Rightarrow> ustr) \<Rightarrow> dialect \<Rightarrow> cliff_config \<Rightarrow> step_budgets \<Rightarrow> nat \<Rightarrow> replay \<Rightarrow> replay option" where
  "replay_compact sha d knobs b original_len rp =
     (case compact_within (rp_working rp) d knobs (sb_budget b) (rp_carry rp) (sb_carry b) of
        None \<Rightarrow> Some rp
      | Some result \<Rightarrow> adopt sha rp result original_len d knobs (sb_evidence b))"

text \<open>The loop over the messages still to feed, each with its size; \<open>chars\<close> is the running size.\<close>

fun feed_loop ::
  "(ustr \<Rightarrow> ustr) \<Rightarrow> request_ctx \<Rightarrow> cliff_config \<Rightarrow> step_budgets \<Rightarrow> (json \<times> nat) list \<Rightarrow> nat \<Rightarrow> replay \<Rightarrow>
     replay option" where
  "feed_loop sha ctx knobs b [] chars rp = Some rp"
| "feed_loop sha ctx knobs b ((m, n) # rest) chars rp =
     (let rp = rp\<lparr>rp_working := rp_working rp @ [m], rp_sizes := rp_sizes rp @ [n]\<rparr>;
          chars = chars + n
      in if threshold_chars ctx < chars then
           (case compact_within (rp_working rp) (rq_dialect ctx) knobs (sb_budget b) (rp_carry rp) (sb_carry b) of
              None \<Rightarrow> feed_loop sha ctx knobs b rest chars rp
            | Some result \<Rightarrow>
                (case adopt sha rp result (length (rq_msgs ctx)) (rq_dialect ctx) knobs (sb_evidence b) of
                   None \<Rightarrow> None
                 | Some rp \<Rightarrow> feed_loop sha ctx knobs b rest (rq_fixed_chars ctx + sum_list (rp_sizes rp)) rp))
         else feed_loop sha ctx knobs b rest chars rp)"

definition start_replay :: "request_ctx \<Rightarrow> replay" where
  "start_replay ctx =
     (if 0 < rq_base_cut ctx then
        \<lparr>rp_working = take (rq_base_head ctx + 1) (out_messages ctx),
         rp_sizes = take (rq_base_head ctx + 1) (out_sizes ctx), rp_head_len = rq_base_head ctx,
         rp_orig_cut = rq_base_cut ctx, rp_have_summary = True, rp_last_summary = None, rp_steps = 0,
         rp_carry = rq_carry ctx, rp_evidence = rq_evidence ctx\<rparr>
      else
        \<lparr>rp_working = [], rp_sizes = [], rp_head_len = 0, rp_orig_cut = 0, rp_have_summary = False,
         rp_last_summary = None, rp_steps = 0, rp_carry = [], rp_evidence = []\<rparr>)"

definition run_replay ::
  "(ustr \<Rightarrow> ustr) \<Rightarrow> cliff_config \<Rightarrow> cliff_config \<Rightarrow> bool \<Rightarrow> request_ctx \<Rightarrow> replay option" where
  "run_replay sha cfg knobs force ctx =
     (let b = budgets_of cfg knobs ctx;
          start = start_replay ctx;
          feed = drop (rp_orig_cut start) (zip (rq_msgs ctx) (rq_msg_chars ctx))
      in case feed_loop sha ctx knobs b feed (rq_fixed_chars ctx + sum_list (rp_sizes start)) start of
           None \<Rightarrow> None
         | Some rp \<Rightarrow>
             if rp_steps rp = 0 \<and> force
             then replay_compact sha (rq_dialect ctx) knobs b (length (rq_msgs ctx)) rp else Some rp)"

section \<open>Compaction of a request\<close>

definition entry_of :: "request_ctx \<Rightarrow> json \<Rightarrow> store_entry" where
  "entry_of ctx summary =
     \<lparr>se_head_len = rq_base_head ctx, se_summary = summary, se_cut = rq_base_cut ctx,
      se_base_threshold = rq_base_threshold ctx, se_carry = rq_carry ctx, se_policy = rq_policy ctx,
      se_evidence = rq_evidence ctx\<rparr>"

definition remember :: "request_ctx \<Rightarrow> ustr \<Rightarrow> store_entry \<Rightarrow> prefix_store \<Rightarrow> request_ctx \<times> prefix_store" where
  "remember ctx key entry st =
     (case rq_deferred ctx of
        Some pending \<Rightarrow> (ctx\<lparr>rq_deferred := Some (pending @ [(key, entry)])\<rparr>, st)
      | None \<Rightarrow> (ctx, store_put key entry st))"

definition compacted_ctx :: "(ustr \<Rightarrow> ustr) \<Rightarrow> request_ctx \<Rightarrow> replay \<Rightarrow> request_ctx" where
  "compacted_ctx sha ctx rp =
     refresh_evidence sha (refresh_estimate
       (ctx\<lparr>rq_base_cut := rp_orig_cut rp, rq_base_head := rp_head_len rp, rq_chain_steps := rp_steps rp,
          rq_substituted := Some (rp_working rp, rp_sizes rp), rq_carry := rp_carry rp,
          rq_evidence := rp_evidence rp, rq_modified := True, rq_compacted := True\<rparr>))"

definition compact_chain ::
  "(ustr \<Rightarrow> ustr) \<Rightarrow> cliff_config \<Rightarrow> bool \<Rightarrow> cliff_config \<Rightarrow> request_ctx \<Rightarrow> prefix_store \<Rightarrow>
     (request_ctx \<times> prefix_store) option" where
  "compact_chain sha cfg force knobs ctx st =
     (case run_replay sha cfg knobs force ctx of
        None \<Rightarrow> None
      | Some rp \<Rightarrow>
          (case rp_last_summary rp of
             None \<Rightarrow> None
           | Some summary \<Rightarrow>
               let key = rq_chain ctx ! (rp_orig_cut rp - 1);
                   ctx = compacted_ctx sha ctx rp
               in Some (remember ctx key (entry_of ctx summary) st)))"

text \<open>The newest parts of a summary that fit, walking backwards; each costs nine characters more.\<close>

fun keep_parts :: "ustr list \<Rightarrow> nat \<Rightarrow> nat \<Rightarrow> ustr list" where
  "keep_parts [] used budget = []"
| "keep_parts (p # ps) used budget =
     (if budget < used + length p then [] else p # keep_parts ps (used + length p + 9) budget)"

definition before_evidence :: "ustr \<Rightarrow> ustr" where
  "before_evidence s =
     (case find_str (PART_SEPARATOR @ EVIDENCE_LABEL) s of Some i \<Rightarrow> take i s | None \<Rightarrow> s)"

definition truncated_ctx :: "(ustr \<Rightarrow> ustr) \<Rightarrow> request_ctx \<Rightarrow> json \<Rightarrow> bool \<Rightarrow> request_ctx" where
  "truncated_ctx sha ctx summary dropped =
     (let i = rq_base_head ctx
      in refresh_evidence sha (refresh_estimate
        (ctx\<lparr>rq_substituted := map_option (\<lambda>(ms, ns). (ms[i := summary], ns[i := message_chars summary]))
            (rq_substituted ctx),
           rq_carry := (if dropped then [] else rq_carry ctx), rq_evidence := [], rq_modified := True\<rparr>)))"

definition summary_budget :: "request_ctx \<Rightarrow> nat" where
  "summary_budget ctx =
     (let i = rq_base_head ctx;
          others = sum_list (take i (out_sizes ctx)) + sum_list (drop (i + 1) (out_sizes ctx))
      in nat (int (threshold_chars ctx) - int (rq_fixed_chars ctx + others) -
           int (str_len SUMMARY_HEADER) - 64))"

definition truncate_summary ::
  "(ustr \<Rightarrow> ustr) \<Rightarrow> request_ctx \<Rightarrow> prefix_store \<Rightarrow> (request_ctx \<times> prefix_store) option" where
  "truncate_summary sha ctx st =
     (if \<not> rq_compacted ctx \<or> rq_base_cut ctx = 0 then None
      else if tokens_of ctx (out_sizes ctx) \<le> unat (rq_threshold ctx) then None
      else
        let old = before_evidence (summary_str (out_messages ctx ! rq_base_head ctx))
        in case strip_prefix old SUMMARY_HEADER of
             None \<Rightarrow> None
           | Some rest \<Rightarrow>
               let parts = split_str PART_SEPARATOR (trim rest);
                   kept = rev (keep_parts (rev parts) 0 (summary_budget ctx));
                   dropped = (length kept < length parts);
                   new_text = (if kept = [] then SUMMARY_HEADER
                     else SUMMARY_HEADER @ [10, 10] @ join PART_SEPARATOR kept)
               in if length old \<le> length new_text \<and> rq_evidence ctx = [] then None
                  else if rq_substituted ctx = None then None
                  else
                    let summary = user_message (rq_dialect ctx) new_text;
                        ctx = truncated_ctx sha ctx summary dropped
                    in Some (remember ctx (rq_chain ctx ! (rq_base_cut ctx - 1)) (entry_of ctx summary) st))"

definition rung_cfg :: "cliff_config \<Rightarrow> nat \<Rightarrow> cliff_config" where
  "rung_cfg cfg rung =
     (let base = cfg\<lparr>keep_recent := 1, keep_tail_percent := 0\<rparr>
      in if 2 \<le> rung
         then base\<lparr>thought_max_chars := (if thought_max_chars cfg = 0 then 300 else min (thought_max_chars cfg) 300),
           keep_thinking := False\<rparr>
         else base)"

section \<open>The reactive ladder\<close>

function reactive_loop ::
  "(ustr \<Rightarrow> ustr) \<Rightarrow> cliff_config \<Rightarrow> request_ctx \<Rightarrow> prefix_store \<Rightarrow> bool \<times> request_ctx \<times> prefix_store" where
  "reactive_loop sha cfg ctx st =
     (if rq_rung ctx < 3 then
        let ctx = ctx\<lparr>rq_rung := rq_rung ctx + 1\<rparr>;
            done = (if rq_rung ctx < 3 then compact_chain sha cfg True (rung_cfg cfg (rq_rung ctx)) ctx st
              else truncate_summary sha ctx st)
        in case done of
             Some (ctx, st) \<Rightarrow> (True, ctx, st)
           | None \<Rightarrow> reactive_loop sha cfg ctx st
      else (False, ctx, st))"
  by pat_completeness auto
termination by (relation "measure (\<lambda>(sha, cfg, ctx, st). 3 - rq_rung ctx)") auto

definition reactive ::
  "(ustr \<Rightarrow> ustr) \<Rightarrow> cliff_config \<Rightarrow> request_ctx \<Rightarrow> prefix_store \<Rightarrow> bool \<times> request_ctx \<times> prefix_store" where
  "reactive sha cfg ctx st =
     (let first = (if \<not> rq_compacted ctx \<and> rq_rung ctx = 0
            then compact_chain sha cfg True (cfg\<lparr>keep_tail_percent := 0\<rparr>) ctx st else None)
      in case first of
           Some (ctx, st) \<Rightarrow> (True, ctx, st)
         | None \<Rightarrow> reactive_loop sha cfg ctx st)"

section \<open>Preparing a request\<close>

text \<open>The positions from the newest to the oldest; reading the store moves the entry read. The second
  component of the result is the entry to use.\<close>

fun find_prefix ::
  "request_ctx \<Rightarrow> nat \<Rightarrow> prefix_store \<Rightarrow> store_entry option \<times> prefix_store" where
  "find_prefix ctx 0 st = (None, st)"
| "find_prefix ctx (Suc i) st =
     (case store_get (rq_chain ctx ! i) st of
        (None, st) \<Rightarrow> find_prefix ctx i st
      | (Some entry, st) \<Rightarrow>
          if se_base_threshold entry \<noteq> rq_base_threshold ctx \<or> se_policy entry \<noteq> rq_policy ctx
          then find_prefix ctx i st
          else if se_cut entry \<noteq> i + 1 \<or> se_cut entry < se_head_len entry then (None, st)
          else (Some entry, st))"

definition substitute_entry :: "request_ctx \<Rightarrow> store_entry \<Rightarrow> request_ctx" where
  "substitute_entry ctx e =
     ctx\<lparr>rq_base_cut := se_cut e, rq_base_head := se_head_len e,
       rq_substituted := Some
         (take (se_head_len e) (rq_msgs ctx) @ [se_summary e] @ drop (se_cut e) (rq_msgs ctx),
          take (se_head_len e) (rq_msg_chars ctx) @ [message_chars (se_summary e)] @
            drop (se_cut e) (rq_msg_chars ctx)),
       rq_carry := se_carry e, rq_evidence := se_evidence e, rq_matched := True, rq_modified := True\<rparr>"

definition substitute_longest_prefix :: "request_ctx \<Rightarrow> prefix_store \<Rightarrow> request_ctx \<times> prefix_store" where
  "substitute_longest_prefix ctx st =
     (case find_prefix ctx (length (rq_msgs ctx)) st of
        (Some e, st) \<Rightarrow> (substitute_entry ctx e, st)
      | (None, st) \<Rightarrow> (ctx, st))"

definition number :: "nat \<Rightarrow> json" where
  "number n = JNum (PosInt (of_nat n))"

definition config_json :: "cliff_config \<Rightarrow> json" where
  "config_json cfg =
     JObj [(lit ''threshold_tokens'', JNum (PosInt (threshold_tokens cfg))),
       (lit ''keep_recent'', number (keep_recent cfg)),
       (lit ''keep_tail_percent'', number (keep_tail_percent cfg)),
       (lit ''thought_max_chars'', number (thought_max_chars cfg)),
       (lit ''cmd_max_chars'', number (cmd_max_chars cfg)),
       (lit ''result_max_chars'', number (result_max_chars cfg)),
       (lit ''human_max_chars'', number (human_max_chars cfg)),
       (lit ''keep_thinking'', JBool (keep_thinking cfg)),
       (lit ''thinking_max_chars'', number (thinking_max_chars cfg)),
       (lit ''carry_max_chars'', number (carry_max_chars cfg)),
       (lit ''evidence_max_bytes'', number (evidence_max_bytes cfg)),
       (lit ''evidence_max_chars'', number (evidence_max_chars cfg)),
       (lit ''evidence_item_max_chars'', number (evidence_item_max_chars cfg)),
       (lit ''strict'', JBool (strict cfg))]"

definition policy_digest ::
  "(ustr \<Rightarrow> ustr) \<Rightarrow> cliff_config \<Rightarrow> dialect \<Rightarrow> u64 \<Rightarrow> nat \<Rightarrow> ustr \<Rightarrow> u64 option \<Rightarrow> json_map \<Rightarrow> ustr" where
  "policy_digest sha cfg d threshold ratio caller_policy capacity body =
     digest_value sha (JArr
       [JStr (lit ''gobstopper-request-policy-v3''), config_json cfg, JStr (dialect_name d),
        JNum (PosInt threshold), number ratio, JStr caller_policy,
        (case capacity of Some c \<Rightarrow> JNum (PosInt c) | None \<Rightarrow> JNull),
        JStr (digest_value sha (JObj body))])"

text \<open>The history: a non-empty array of objects under the dialect's key.\<close>

definition history_of :: "json_map \<Rightarrow> dialect \<Rightarrow> json list option" where
  "history_of body d =
     (case map_of body (messages_key d) of
        Some (JArr items) \<Rightarrow> if items \<noteq> [] \<and> list_all is_object items then Some items else None
      | _ \<Rightarrow> None)"

definition select_threshold :: "u64 \<Rightarrow> nat \<Rightarrow> u64 option \<Rightarrow> nat \<Rightarrow> u64" where
  "select_threshold threshold ratio hard_capacity floor_chars =
     (let calibrated = calibrated_threshold threshold ratio;
          selected = max calibrated (sat_add (of_nat (floor_chars div 4)) (calibrated div 2))
      in case hard_capacity of
           Some capacity \<Rightarrow> min selected (calibrated_threshold capacity ratio)
         | None \<Rightarrow> selected)"

definition new_ctx ::
  "(ustr \<Rightarrow> ustr) \<Rightarrow> cliff_config \<Rightarrow> json_map \<Rightarrow> json list \<Rightarrow> dialect \<Rightarrow> u64 \<Rightarrow> nat \<Rightarrow> ustr \<Rightarrow> u64 option \<Rightarrow>
     bool \<Rightarrow> request_ctx" where
  "new_ctx sha cfg body msgs d threshold ratio caller_policy hard_capacity deferred =
     (let ratio = max MIN_RATIO_PERMILLE (min ratio MAX_RATIO_PERMILLE);
          body = update_field (messages_key d) (\<lambda>_. JArr []) body;
          fixed = billable_chars (JObj body);
          chars = map message_chars msgs;
          head_end = length (takeWhile (\<lambda>m. \<not> is_assistant d m) msgs);
          floor_size = fixed + sum_list (take head_end chars)
      in \<lparr>rq_body = body, rq_dialect = d, rq_msgs = msgs, rq_msg_chars = chars, rq_fixed_chars = fixed,
          rq_floor_chars = floor_size, rq_chain = chain_hashes sha (map (digest_of sha d) msgs),
          rq_base_cut = 0, rq_base_head = 0, rq_substituted = None, rq_matched = False,
          rq_modified = False, rq_compacted = False, rq_rung = 0, rq_over_budget = False,
          rq_threshold = select_threshold threshold ratio hard_capacity floor_size,
          rq_est_in = (fixed + sum_list chars) div 4, rq_est_out = 0, rq_chain_steps = 0,
          rq_est_fixed = fixed div 4, rq_est_head = 0, rq_est_summary = 0, rq_est_tail = 0,
          rq_base_threshold = threshold, rq_ratio = ratio,
          rq_calibrated = calibrated_threshold threshold ratio, rq_carry = [], rq_carry_chars = 0,
          rq_policy = policy_digest sha cfg d threshold ratio caller_policy hard_capacity body,
          rq_floor_exceeds = (case hard_capacity of
             Some c \<Rightarrow> unat (calibrated_threshold c ratio) < (floor_size + 3) div 4 | None \<Rightarrow> False),
          rq_evidence = [], rq_evidence_bytes = 0, rq_retained = [], rq_excerpted = [], rq_evicted = [],
          rq_deferred = (if deferred then Some [] else None)\<rparr>)"

text \<open>The escalation over the rungs, which stops as soon as the estimate fits.\<close>

fun escalate ::
  "(ustr \<Rightarrow> ustr) \<Rightarrow> cliff_config \<Rightarrow> nat list \<Rightarrow> request_ctx \<Rightarrow> prefix_store \<Rightarrow> request_ctx \<times> prefix_store" where
  "escalate sha cfg [] ctx st = (ctx, st)"
| "escalate sha cfg (rung # rungs) ctx st =
     (if rq_est_out ctx \<le> unat (rq_threshold ctx) then (ctx, st)
      else case (if rung = 3 then truncate_summary sha ctx st
                 else compact_chain sha cfg True (rung_cfg cfg rung) ctx st) of
             Some (ctx, st) \<Rightarrow> escalate sha cfg rungs (ctx\<lparr>rq_rung := rung\<rparr>) st
           | None \<Rightarrow> escalate sha cfg rungs ctx st)"

definition prepare_policy ::
  "(ustr \<Rightarrow> ustr) \<Rightarrow> cliff_config \<Rightarrow> json_map \<Rightarrow> dialect \<Rightarrow> u64 \<Rightarrow> nat \<Rightarrow> ustr \<Rightarrow> u64 option \<Rightarrow> bool \<Rightarrow>
     prefix_store \<Rightarrow> (request_ctx \<times> prefix_store) option" where
  "prepare_policy sha cfg body d threshold ratio caller_policy hard_capacity deferred st =
     (case history_of body d of
        None \<Rightarrow> None
      | Some msgs \<Rightarrow>
          let (ctx, st) = substitute_longest_prefix
                (new_ctx sha cfg body msgs d threshold ratio caller_policy hard_capacity deferred) st;
              ctx = refresh_estimate ctx;
              (ctx, st) =
                (if unat (rq_threshold ctx) < rq_est_out ctx then
                   let (ctx, st) = (case compact_chain sha cfg False cfg ctx st of
                         Some r \<Rightarrow> r | None \<Rightarrow> (ctx, st));
                       (ctx, st) = escalate sha cfg (if strict cfg then [1, 2, 3] else [1, 2]) ctx st
                   in (ctx\<lparr>rq_over_budget := unat (rq_threshold ctx) < rq_est_out ctx\<rparr>, st)
                 else (ctx, st))
          in Some (refresh_evidence sha ctx, st))"

definition publish_prepared :: "bool \<Rightarrow> request_ctx \<Rightarrow> prefix_store \<Rightarrow> request_ctx \<times> prefix_store" where
  "publish_prepared available ctx st =
     (case rq_deferred ctx of
        None \<Rightarrow> (ctx, st)
      | Some pending \<Rightarrow>
          (ctx\<lparr>rq_deferred := Some []\<rparr>,
           if available then fold (\<lambda>(key, entry). store_put key entry) pending st else st))"

end
