(* ===== verification/Ladder.thy ===== *)
theory Ladder
  imports Engine
begin

text \<open>
  The retry ladder and the publication of deferred work (\<open>Engine::reactive\<close>, \<open>prepare_deferred\<close> and
  \<open>publish_prepared\<close> of \<open>request/engine.rs\<close>), and the threshold a request is held to.
\<close>

section \<open>The ladder ends\<close>

declare reactive_loop.simps [simp del]

lemma refresh_simps [simp]:
  "rq_rung (refresh_estimate ctx) = rq_rung ctx" "rq_compacted (refresh_estimate ctx) = rq_compacted ctx"
  "rq_rung (refresh_evidence sha ctx) = rq_rung ctx"
  "rq_compacted (refresh_evidence sha ctx) = rq_compacted ctx"
  by (simp_all add: refresh_estimate_def refresh_evidence_def Let_def case_prod_beta)

lemma compact_chain_rung:
  "compact_chain sha cfg force knobs ctx st = Some (ctx', st') \<Longrightarrow> rq_rung ctx' = rq_rung ctx \<and> rq_compacted ctx'"
  by (auto simp: compact_chain_def compacted_ctx_def remember_def Let_def split: option.splits)

lemma truncate_summary_rung:
  "truncate_summary sha ctx st = Some (ctx', st') \<Longrightarrow> rq_rung ctx' = rq_rung ctx"
  by (auto simp: truncate_summary_def truncated_ctx_def remember_def Let_def split: option.splits if_splits)

lemma reactive_loop_rung:
  "reactive_loop sha cfg ctx st = (b, ctx', st') \<Longrightarrow>
     (if b then rq_rung ctx < rq_rung ctx' \<and> rq_rung ctx' \<le> 3 else 3 \<le> rq_rung ctx')"
proof (induction sha cfg ctx st rule: reactive_loop.induct)
  case (1 sha cfg ctx st)
  define up where "up = ctx\<lparr>rq_rung := rq_rung ctx + 1\<rparr>"
  define tried where "tried = (if rq_rung up < 3
    then compact_chain sha cfg True (rung_cfg cfg (rq_rung up)) up st else truncate_summary sha up st)"
  show ?case
  proof (cases "rq_rung ctx < 3")
    case False
    then show ?thesis using 1(2) by (simp add: reactive_loop.simps [of sha cfg ctx st])
  next
    case True
    have run: "reactive_loop sha cfg ctx st = (case tried of Some (ctx, st) \<Rightarrow> (True, ctx, st)
        | None \<Rightarrow> reactive_loop sha cfg up st)"
      unfolding reactive_loop.simps [of sha cfg ctx st] Let_def up_def [symmetric] tried_def [symmetric]
      using True by simp
    have n: "rq_rung up = rq_rung ctx + 1" by (simp add: up_def)
    show ?thesis
    proof (cases tried)
      case None
      have "if b then rq_rung up < rq_rung ctx' \<and> rq_rung ctx' \<le> 3 else 3 \<le> rq_rung ctx'"
        by (rule 1(1) [OF True up_def tried_def None]) (use run None 1(2) in simp)
      then show ?thesis using n by (auto split: if_splits)
    next
      case (Some r)
      then have b: "b" "r = (ctx', st')" using run 1(2) by (auto split: prod.splits)
      then have "rq_rung ctx' = rq_rung up"
        using Some compact_chain_rung [of sha cfg True _ up st ctx' st'] truncate_summary_rung [of sha up st ctx' st']
        by (auto simp: tried_def split: if_splits)
      then show ?thesis using b n True by simp
    qed
  qed
qed

definition rungs_left :: "request_ctx \<Rightarrow> nat" where
  "rungs_left ctx = (if \<not> rq_compacted ctx \<and> rq_rung ctx = 0 then 1 else 0) + (3 - rq_rung ctx)"

lemma reactive_progress:
  assumes "reactive sha cfg ctx st = (b, ctx', st')"
  shows "if b then rungs_left ctx' < rungs_left ctx else rungs_left ctx' = 0"
proof -
  define first where "first = (if \<not> rq_compacted ctx \<and> rq_rung ctx = 0
    then compact_chain sha cfg True (cfg\<lparr>keep_tail_percent := 0\<rparr>) ctx st else None)"
  have run: "reactive sha cfg ctx st = (case first of Some (ctx, st) \<Rightarrow> (True, ctx, st)
      | None \<Rightarrow> reactive_loop sha cfg ctx st)"
    by (simp add: reactive_def first_def Let_def)
  show ?thesis
  proof (cases first)
    case None
    then show ?thesis using run assms reactive_loop_rung [of sha cfg ctx st b ctx' st']
      by (auto simp: rungs_left_def split: if_splits)
  next
    case (Some r)
    then have "b" "r = (ctx', st')" using run assms by (auto split: prod.splits)
    then show ?thesis using Some compact_chain_rung [of sha cfg True "cfg\<lparr>keep_tail_percent := 0\<rparr>" ctx st ctx' st']
      by (auto simp: first_def rungs_left_def split: if_splits)
  qed
qed

text \<open>The answers of successive calls on one request, each on whatever store it finds.\<close>

fun reactive_answers :: "(ustr \<Rightarrow> ustr) \<Rightarrow> cliff_config \<Rightarrow> request_ctx \<Rightarrow> prefix_store list \<Rightarrow> bool list" where
  "reactive_answers sha cfg ctx [] = []"
| "reactive_answers sha cfg ctx (st # sts) =
     (case reactive sha cfg ctx st of (b, ctx', _) \<Rightarrow> b # reactive_answers sha cfg ctx' sts)"

lemma reactive_answers_exhausted:
  "rungs_left ctx = 0 \<Longrightarrow> reactive_answers sha cfg ctx sts = replicate (length sts) False"
proof (induction sts arbitrary: ctx)
  case (Cons st sts)
  obtain b ctx' st' where r: "reactive sha cfg ctx st = (b, ctx', st')" by (metis prod_cases3)
  then have "\<not> b" "rungs_left ctx' = 0" using reactive_progress [OF r] Cons.prems by (auto split: if_splits)
  then show ?case using Cons.IH r by simp
qed simp

lemma reactive_answers_shape:
  "\<exists>k \<le> rungs_left ctx. k \<le> length sts \<and>
     reactive_answers sha cfg ctx sts = replicate k True @ replicate (length sts - k) False"
proof (induction sts arbitrary: ctx)
  case (Cons st sts)
  obtain b ctx' st' where r: "reactive sha cfg ctx st = (b, ctx', st')" by (metis prod_cases3)
  note p = reactive_progress [OF r]
  show ?case
  proof (cases b)
    case True
    obtain k where "k \<le> rungs_left ctx'" "k \<le> length sts"
      "reactive_answers sha cfg ctx' sts = replicate k True @ replicate (length sts - k) False"
      using Cons.IH by blast
    then show ?thesis using p r True by (intro exI [of _ "Suc k"]) simp
  next
    case False
    then show ?thesis using p r reactive_answers_exhausted [of ctx' sha cfg sts]
      by (intro exI [of _ 0]) simp
  qed
qed simp

text \<open>C12: The retry loop ends: however often the provider refuses a request for its length, at most four
  calls of \<open>reactive\<close> ask for a replay, and once a call gives up every later one does, whatever the
  store holds by then.\<close>

theorem reactive_gives_up:
  "\<exists>k. k \<le> 4 \<and> k \<le> length sts \<and>
     reactive_answers sha cfg ctx sts = replicate k True @ replicate (length sts - k) False"
proof -
  have "rungs_left ctx \<le> 1 + 3" unfolding rungs_left_def by (intro add_mono) auto
  then have "k \<le> 4" if "k \<le> rungs_left ctx" for k using that by linarith
  then show ?thesis using reactive_answers_shape [of ctx sts sha cfg] by blast
qed

section \<open>The threshold of a request\<close>

text \<open>The threshold of a request respects a known capacity, is never below the calibrated one
  otherwise, and leaves room above the head it may not touch: at least half of the calibrated
  threshold, so a large head alone never keeps a request over it.\<close>

theorem threshold_bounds:
  assumes "floor_chars div 4 + unat threshold < 2 ^ 64"
  shows "select_threshold threshold ratio (Some capacity) floor_chars \<le> capacity \<and>
    select_threshold threshold ratio (Some capacity) floor_chars \<le> select_threshold threshold ratio None floor_chars \<and>
    calibrated_threshold threshold ratio \<le> select_threshold threshold ratio None floor_chars \<and>
    floor_chars div 4 + unat (calibrated_threshold threshold ratio) div 2 \<le>
      unat (select_threshold threshold ratio None floor_chars)"
proof -
  let ?c = "calibrated_threshold threshold ratio"
  have "unat ?c \<le> unat threshold" using unat_calibrated_threshold(2) by (simp add: word_le_nat_alt)
  then have "unat (of_nat (floor_chars div 4) :: u64) = floor_chars div 4"
    "unat (?c div 2) = unat ?c div 2" "floor_chars div 4 + unat ?c div 2 < 2 ^ 64"
    using assms by (simp_all add: unat_of_nat_small unat_div)
  then have "unat (sat_add (of_nat (floor_chars div 4)) (?c div 2)) = floor_chars div 4 + unat ?c div 2"
    by (simp add: unat_sat_add)
  then have "floor_chars div 4 + unat ?c div 2 \<le> unat (max ?c (sat_add (of_nat (floor_chars div 4)) (?c div 2)))"
    by (simp add: unat_max)
  then show ?thesis using unat_calibrated_threshold(2) [of capacity ratio]
    by (simp add: select_threshold_def Let_def min.coboundedI2)
qed

theorem threshold_bounds_witness:
  "select_threshold 100000 1500 (Some 90000) 400000 \<le> 90000 \<and>
    select_threshold 100000 1500 (Some 90000) 400000 \<le> select_threshold 100000 1500 None 400000 \<and>
    calibrated_threshold 100000 1500 \<le> select_threshold 100000 1500 None 400000 \<and>
    400000 div 4 + unat (calibrated_threshold 100000 1500) div 2 \<le> unat (select_threshold 100000 1500 None 400000)"
  by (rule threshold_bounds) simp

end
