(* ===== verification/Deferred.thy ===== *)
theory Deferred
  imports Ladder
begin

text \<open>
  Deferred work (\<open>prepare_deferred\<close>, \<open>remember\<close> and \<open>publish_prepared\<close> of \<open>request/engine.rs\<close>): a
  speculative preparation keeps its cache writes to itself, and publishing them later leaves the
  store that publishing at once leaves.
\<close>

section \<open>Deferred work\<close>

definition with_pending :: "(ustr \<times> store_entry) list \<Rightarrow> request_ctx \<Rightarrow> request_ctx" where
  "with_pending p ctx = ctx\<lparr>rq_deferred := Some p\<rparr>"

definition put_all :: "(ustr \<times> store_entry) list \<Rightarrow> prefix_store \<Rightarrow> prefix_store" where
  "put_all p st = fold (\<lambda>(key, entry). store_put key entry) p st"

lemma put_all_snoc: "put_all (p @ [(key, e)]) st = store_put key e (put_all p st)"
  by (simp add: put_all_def)

lemma pending_fields [simp]:
  "rq_msgs (with_pending p ctx) = rq_msgs ctx" "rq_msg_chars (with_pending p ctx) = rq_msg_chars ctx"
  "rq_fixed_chars (with_pending p ctx) = rq_fixed_chars ctx" "rq_dialect (with_pending p ctx) = rq_dialect ctx"
  "rq_chain (with_pending p ctx) = rq_chain ctx" "rq_threshold (with_pending p ctx) = rq_threshold ctx"
  "rq_est_out (with_pending p ctx) = rq_est_out ctx" "rq_compacted (with_pending p ctx) = rq_compacted ctx"
  "rq_base_cut (with_pending p ctx) = rq_base_cut ctx" "rq_base_head (with_pending p ctx) = rq_base_head ctx"
  "rq_evidence (with_pending p ctx) = rq_evidence ctx" "rq_substituted (with_pending p ctx) = rq_substituted ctx"
  "rq_base_threshold (with_pending p ctx) = rq_base_threshold ctx" "rq_policy (with_pending p ctx) = rq_policy ctx"
  "rq_carry (with_pending p ctx) = rq_carry ctx" "rq_rung (with_pending p ctx) = rq_rung ctx"
  "rq_floor_chars (with_pending p ctx) = rq_floor_chars ctx" "rq_deferred (with_pending p ctx) = Some p"
  by (simp_all add: with_pending_def)

lemma pending_sizes [simp]:
  "out_sizes (with_pending p ctx) = out_sizes ctx" "out_messages (with_pending p ctx) = out_messages ctx"
  "tokens_of (with_pending p ctx) ns = tokens_of ctx ns"
  "threshold_chars (with_pending p ctx) = threshold_chars ctx"
  "headroom_chars (with_pending p ctx) = headroom_chars ctx"
  "tail_budget_chars (with_pending p ctx) knobs = tail_budget_chars ctx knobs"
  "carry_budget cfg (with_pending p ctx) = carry_budget cfg ctx"
  "start_replay (with_pending p ctx) = start_replay ctx"
  "summary_budget (with_pending p ctx) = summary_budget ctx"
  unfolding out_sizes_def out_messages_def tokens_of_def threshold_chars_def headroom_chars_def
    tail_budget_chars_def carry_budget_def start_replay_def summary_budget_def pending_fields
  by (rule refl)+

lemma pending_budgets [simp]: "budgets_of cfg knobs (with_pending p ctx) = budgets_of cfg knobs ctx"
  by (simp add: budgets_of_def evidence_budget_of_def)

lemma pending_feed [simp]: "feed_loop sha (with_pending p ctx) knobs b feed chars rp = feed_loop sha ctx knobs b feed chars rp"
  by (induction sha ctx knobs b feed chars rp rule: feed_loop.induct) (simp_all add: Let_def split: option.split)

lemma pending_replay [simp]: "run_replay sha cfg knobs force (with_pending p ctx) = run_replay sha cfg knobs force ctx"
  unfolding run_replay_def pending_fields pending_sizes pending_budgets pending_feed by (rule refl)

lemma pending_entry [simp]: "entry_of (with_pending p ctx) summary = entry_of ctx summary"
  by (simp add: entry_of_def)

lemma pending_estimate [simp]:
  "refresh_estimate (with_pending p ctx) = with_pending p (refresh_estimate ctx)"
  unfolding refresh_estimate_def Let_def pending_sizes pending_fields case_prod_beta
  by (intro request_ctx.equality) (simp_all add: with_pending_def)

lemma pending_evidence [simp]:
  "refresh_evidence sha (with_pending p ctx) = with_pending p (refresh_evidence sha ctx)"
  unfolding refresh_evidence_def Let_def pending_fields
  by (intro request_ctx.equality) (simp_all add: with_pending_def)

lemma pending_compacted [simp]:
  "compacted_ctx sha (with_pending p ctx) rp = with_pending p (compacted_ctx sha ctx rp)"
proof -
  let ?f = "\<lambda>ctx. ctx\<lparr>rq_base_cut := rp_orig_cut rp, rq_base_head := rp_head_len rp, rq_chain_steps := rp_steps rp,
    rq_substituted := Some (rp_working rp, rp_sizes rp), rq_carry := rp_carry rp,
    rq_evidence := rp_evidence rp, rq_modified := True, rq_compacted := True\<rparr>"
  have "?f (with_pending p ctx) = with_pending p (?f ctx)"
    by (intro request_ctx.equality) (simp_all add: with_pending_def)
  then show ?thesis unfolding compacted_ctx_def by (simp only: pending_estimate pending_evidence)
qed

lemma pending_truncated [simp]:
  "truncated_ctx sha (with_pending p ctx) summary dropped = with_pending p (truncated_ctx sha ctx summary dropped)"
proof -
  let ?f = "\<lambda>ctx. ctx\<lparr>rq_substituted := map_option (\<lambda>(ms, ns). (ms[rq_base_head ctx := summary],
      ns[rq_base_head ctx := message_chars summary])) (rq_substituted ctx),
    rq_carry := (if dropped then [] else rq_carry ctx), rq_evidence := [], rq_modified := True\<rparr>"
  have "?f (with_pending p ctx) = with_pending p (?f ctx)"
    by (intro request_ctx.equality) (simp_all add: with_pending_def)
  then show ?thesis unfolding truncated_ctx_def Let_def by (simp only: pending_estimate pending_evidence)
qed

lemma deferred_refresh [simp]:
  "rq_deferred (refresh_estimate ctx) = rq_deferred ctx" "rq_deferred (refresh_evidence sha ctx) = rq_deferred ctx"
  "rq_deferred (compacted_ctx sha ctx rp) = rq_deferred ctx"
  "rq_deferred (truncated_ctx sha ctx summary dropped) = rq_deferred ctx"
  by (simp_all add: refresh_estimate_def refresh_evidence_def compacted_ctx_def truncated_ctx_def Let_def
    case_prod_beta)

text \<open>A step that publishes at once and the same step that keeps its write.\<close>

definition twin_step :: "(request_ctx \<Rightarrow> prefix_store \<Rightarrow> (request_ctx \<times> prefix_store) option) \<Rightarrow> bool" where
  "twin_step f \<longleftrightarrow> (\<forall>ctx p st. rq_deferred ctx = None \<longrightarrow>
     (case f ctx (put_all p st) of
        None \<Rightarrow> f (with_pending p ctx) st = None
      | Some (ctx', st') \<Rightarrow> rq_deferred ctx' = None \<and>
          (\<exists>q. f (with_pending p ctx) st = Some (with_pending q ctx', st) \<and> st' = put_all q st)))"

lemma remember_twin:
  assumes "rq_deferred ctx = None"
  shows "remember ctx key e (put_all p st) = (ctx, put_all (p @ [(key, e)]) st)"
    "remember (with_pending p ctx) key e st = (with_pending (p @ [(key, e)]) ctx, st)"
  using assms by (simp_all add: remember_def put_all_snoc with_pending_def)

lemma compact_chain_twin: "twin_step (compact_chain sha cfg force knobs)"
  unfolding twin_step_def
  by (auto simp: compact_chain_def Let_def remember_twin split: option.split)

lemma truncate_summary_twin: "twin_step (truncate_summary sha)"
  unfolding twin_step_def
  by (auto simp: truncate_summary_def Let_def remember_twin split: option.split)

lemma twin_stepE:
  assumes "twin_step f" "rq_deferred ctx = None"
  obtains "f ctx (put_all p st) = None" "f (with_pending p ctx) st = None"
  | ctx' q where "f ctx (put_all p st) = Some (ctx', put_all q st)"
      "f (with_pending p ctx) st = Some (with_pending q ctx', st)" "rq_deferred ctx' = None"
proof -
  have step: "case f ctx (put_all p st) of None \<Rightarrow> f (with_pending p ctx) st = None
    | Some (ctx', st') \<Rightarrow> rq_deferred ctx' = None \<and>
        (\<exists>q. f (with_pending p ctx) st = Some (with_pending q ctx', st) \<and> st' = put_all q st)"
    using assms unfolding twin_step_def by blast
  show thesis
  proof (cases "f ctx (put_all p st)")
    case None
    then show thesis using step that(1) by simp
  next
    case (Some r)
    then show thesis using step that(2) by (cases r) auto
  qed
qed

lemma pending_rung: "(with_pending p ctx)\<lparr>rq_rung := r\<rparr> = with_pending p (ctx\<lparr>rq_rung := r\<rparr>)"
  by (simp add: with_pending_def)

lemma escalate_twin:
  "rq_deferred ctx = None \<Longrightarrow> \<exists>ctx' q. escalate sha cfg rungs ctx (put_all p st) = (ctx', put_all q st) \<and>
     escalate sha cfg rungs (with_pending p ctx) st = (with_pending q ctx', st) \<and> rq_deferred ctx' = None"
proof (induction rungs arbitrary: ctx p)
  case (Cons rung rungs)
  let ?f = "\<lambda>ctx st. if rung = 3 then truncate_summary sha ctx st
    else compact_chain sha cfg True (rung_cfg cfg rung) ctx st"
  have twin: "twin_step ?f"
    by (cases "rung = 3") (simp_all add: compact_chain_twin truncate_summary_twin)
  show ?case
  proof (cases "rq_est_out ctx \<le> unat (rq_threshold ctx)")
    case True
    then show ?thesis using Cons.prems by auto
  next
    case False
    from twin Cons.prems show ?thesis
    proof (cases rule: twin_stepE [where p = p and st = st])
      case 1
      then show ?thesis using False Cons.IH [OF Cons.prems, of p] by simp
    next
      case (2 ctx' q)
      then show ?thesis using False Cons.IH [of "ctx'\<lparr>rq_rung := rung\<rparr>" q] by (simp add: pending_rung)
    qed
  qed
qed auto

lemma pending_find [simp]: "find_prefix (with_pending p ctx) n st = find_prefix ctx n st"
  by (induction ctx n st rule: find_prefix.induct) (simp_all split: option.split prod.split)

lemma pending_substitute:
  "substitute_longest_prefix (with_pending p ctx) st =
     (case substitute_longest_prefix ctx st of (ctx', st') \<Rightarrow> (with_pending p ctx', st'))"
proof -
  have "substitute_entry (with_pending p ctx) e = with_pending p (substitute_entry ctx e)" for e
    unfolding substitute_entry_def pending_fields
    by (intro request_ctx.equality) (simp_all add: with_pending_def)
  then show ?thesis
    by (simp add: substitute_longest_prefix_def split: option.split prod.split)
qed

lemma substitute_deferred:
  "rq_deferred ctx = None \<Longrightarrow> rq_deferred (fst (substitute_longest_prefix ctx st)) = None"
  by (auto simp: substitute_longest_prefix_def substitute_entry_def split: option.split prod.split)

lemma store_get_lookup: "store_lookup (snd (store_get k s)) = store_lookup s"
  by (auto simp: store_get_def store_lookup_def touch_def fun_eq_iff split: option.split)

lemma find_prefix_lookup: "store_lookup (snd (find_prefix ctx n st)) = store_lookup st"
proof (induction ctx n st rule: find_prefix.induct)
  case (2 ctx i st)
  show ?case using 2 store_get_lookup [of "rq_chain ctx ! i" st]
    by (cases "store_get (rq_chain ctx ! i) st") (auto split: option.split)
qed simp

lemma substitute_lookup: "store_lookup (snd (substitute_longest_prefix ctx st)) = store_lookup st"
  using find_prefix_lookup [of ctx "length (rq_msgs ctx)" st]
  by (auto simp: substitute_longest_prefix_def split: option.split prod.split)

text \<open>The part of a preparation after the substitution.\<close>

definition settle ::
  "(ustr \<Rightarrow> ustr) \<Rightarrow> cliff_config \<Rightarrow> request_ctx \<Rightarrow> prefix_store \<Rightarrow> request_ctx \<times> prefix_store" where
  "settle sha cfg ctx st =
     (if unat (rq_threshold ctx) < rq_est_out ctx then
        let (ctx, st) = (case compact_chain sha cfg False cfg ctx st of Some r \<Rightarrow> r | None \<Rightarrow> (ctx, st));
            (ctx, st) = escalate sha cfg (if strict cfg then [1, 2, 3] else [1, 2]) ctx st
        in (ctx\<lparr>rq_over_budget := unat (rq_threshold ctx) < rq_est_out ctx\<rparr>, st)
      else (ctx, st))"

lemma prepare_policy_settle:
  "prepare_policy sha cfg body d t r cp hc deferred st =
     map_option (\<lambda>msgs.
       let (ctx, st) = substitute_longest_prefix (new_ctx sha cfg body msgs d t r cp hc deferred) st;
           (ctx, st) = settle sha cfg (refresh_estimate ctx) st
       in (refresh_evidence sha ctx, st)) (history_of body d)"
  by (simp add: prepare_policy_def settle_def Let_def case_prod_beta split: option.split)

lemma pending_over: "(with_pending p ctx)\<lparr>rq_over_budget := b\<rparr> = with_pending p (ctx\<lparr>rq_over_budget := b\<rparr>)"
  by (simp add: with_pending_def)

lemma settle_twin:
  assumes "rq_deferred ctx = None"
  shows "\<exists>ctx' q. settle sha cfg ctx st = (ctx', put_all q st) \<and>
    settle sha cfg (with_pending [] ctx) st = (with_pending q ctx', st) \<and> rq_deferred ctx' = None"
proof (cases "unat (rq_threshold ctx) < rq_est_out ctx")
  case False
  then show ?thesis using assms by (intro exI [of _ ctx] exI [of _ "[]"]) (simp add: settle_def put_all_def)
next
  case True
  let ?rungs = "if strict cfg then [1, 2, 3] else [1, 2]"
  have st: "st = put_all [] st" by (simp add: put_all_def)
  obtain ctx1 p where one: "(case compact_chain sha cfg False cfg ctx st of Some r \<Rightarrow> r | None \<Rightarrow> (ctx, st)) =
      (ctx1, put_all p st)"
    "(case compact_chain sha cfg False cfg (with_pending [] ctx) st of Some r \<Rightarrow> r
      | None \<Rightarrow> (with_pending [] ctx, st)) = (with_pending p ctx1, st)" "rq_deferred ctx1 = None"
    using compact_chain_twin assms
    by (cases rule: twin_stepE [where f = "compact_chain sha cfg False cfg" and p = "[]" and st = st])
      (use st that assms in auto)
  obtain ctx2 q where two: "escalate sha cfg ?rungs ctx1 (put_all p st) = (ctx2, put_all q st)"
    "escalate sha cfg ?rungs (with_pending p ctx1) st = (with_pending q ctx2, st)" "rq_deferred ctx2 = None"
    using escalate_twin [OF one(3)] by blast
  show ?thesis using True two(3)
    by (intro exI [of _ "ctx2\<lparr>rq_over_budget := unat (rq_threshold ctx2) < rq_est_out ctx2\<rparr>"] exI [of _ q])
      (simp add: settle_def one two pending_over del: escalate.simps)
qed

text \<open>C11: Deferring is only a delay: preparing a request without publishing and then publishing the
  result leaves exactly the store and the request that preparing it directly leaves, and a deferred
  preparation writes nothing by itself, so dropping it cannot change what later requests see.\<close>

theorem deferred_publication_equivalent:
  "map_option (\<lambda>(ctx, st'). publish_prepared True ctx st')
       (prepare_policy sha cfg body d threshold ratio caller_policy capacity True st) =
     map_option (\<lambda>(ctx, st'). (ctx\<lparr>rq_deferred := Some []\<rparr>, st'))
       (prepare_policy sha cfg body d threshold ratio caller_policy capacity False st) \<and>
   (case prepare_policy sha cfg body d threshold ratio caller_policy capacity True st of
      None \<Rightarrow> True
    | Some (ctx, st') \<Rightarrow> store_lookup st' = store_lookup st)"
proof (cases "history_of body d")
  case None
  then show ?thesis by (simp add: prepare_policy_settle)
next
  case (Some msgs)
  let ?new = "new_ctx sha cfg body msgs d threshold ratio caller_policy capacity"
  have pend: "?new True = with_pending [] (?new False)" and none: "rq_deferred (?new False) = None"
    by (simp_all add: new_ctx_def with_pending_def Let_def)
  obtain ctx st1 where sub: "substitute_longest_prefix (?new False) st = (ctx, st1)" by fastforce
  then have sub': "substitute_longest_prefix (?new True) st = (with_pending [] ctx, st1)"
    unfolding pend pending_substitute by simp
  have "rq_deferred (refresh_estimate ctx) = None" using substitute_deferred [OF none, of st] sub by simp
  then obtain ctx' q where run: "settle sha cfg (refresh_estimate ctx) st1 = (ctx', put_all q st1)"
    "settle sha cfg (with_pending [] (refresh_estimate ctx)) st1 = (with_pending q ctx', st1)"
    using settle_twin [of "refresh_estimate ctx" sha cfg st1] by blast
  have direct: "prepare_policy sha cfg body d threshold ratio caller_policy capacity False st =
      Some (refresh_evidence sha ctx', put_all q st1)"
    using Some sub run(1) by (simp add: prepare_policy_settle)
  have deferred: "prepare_policy sha cfg body d threshold ratio caller_policy capacity True st =
      Some (with_pending q (refresh_evidence sha ctx'), st1)"
    using Some sub' run(2) by (simp add: prepare_policy_settle)
  have "store_lookup st1 = store_lookup st" using substitute_lookup [of "?new False" st] sub by simp
  then show ?thesis unfolding direct deferred
    by (auto simp: publish_prepared_def put_all_def with_pending_def)
qed

end
