(* ===== verification/Summaries.thy ===== *)
theory Summaries
  imports Deferred PairingKept
begin

text \<open>
  The summaries the engine sends: whatever observations a summary carries, the next step recognises
  it as one, and it holds no tool result, so it never answers a call. What a retained image may be is
  kept as an invariant of the evidence reservoir.
\<close>

section \<open>Retained images are images\<close>

definition no_result_block :: "json \<Rightarrow> bool" where
  "no_result_block b \<longleftrightarrow> get_str b (lit ''type'') \<noteq> Some (lit ''tool_result'')"

definition images_ok :: "dialect \<Rightarrow> evidence_entry \<Rightarrow> bool" where
  "images_ok d e \<longleftrightarrow> (d = Anthropic \<longrightarrow> list_all no_result_block (ev_images e))"

lemma map_of_swap_remove:
  "distinct (map fst kvs) \<Longrightarrow> map_of (swap_remove k kvs) k' = (if k' = k then None else map_of kvs k')"
proof (induction k kvs rule: swap_remove.induct)
  case (2 k k1 v1 kvs)
  show ?case
  proof (cases kvs rule: rev_cases)
    case (snoc a p)
    obtain x y where p: "p = (x, y)" by (cases p)
    have "map_of a x = None" "map_of a k1 = None" "x \<noteq> k1" using 2(2) snoc p by (auto simp: map_of_eq_None_iff)
    then show ?thesis using 2 snoc p by (auto simp: map_add_def split: option.split)
  qed (use 2 in auto)
qed simp

lemma get_str_remove_field:
  "json_ok v \<Longrightarrow> k \<noteq> k' \<Longrightarrow> get_str (remove_field k v) k' = get_str v k'"
  by (cases v) (simp_all add: remove_field_def get_str_def json_get_def map_of_swap_remove)

lemma image_part_no_result: "is_image_part p Anthropic \<Longrightarrow> json_ok p \<Longrightarrow> no_result_block (remove_field (lit ''cache_control'') p)"
  unfolding no_result_block_def
  by (subst get_str_remove_field) (auto simp: is_image_part_def str_field_def split: option.splits)

lemma scan_part_images:
  assumes "json_ok p" "list_all no_result_block (ps_images st)"
  shows "list_all no_result_block (ps_images (scan_part Anthropic mb mc st p))"
  using assms image_part_no_result [of p]
  by (auto simp: scan_part_def Let_def split: option.split simp del: lit_Cons)

lemma scan_content_images:
  assumes "json_ok content"
  shows "list_all no_result_block (ps_images (scan_content Anthropic mb mc content))"
proof -
  have "list_all json_ok parts \<Longrightarrow> list_all no_result_block (ps_images st) \<Longrightarrow>
      list_all no_result_block (ps_images (foldl (scan_part Anthropic mb mc) st parts))" for parts st
    by (induction parts arbitrary: st) (simp_all add: scan_part_images)
  then show ?thesis using assms by (cases content) (simp_all add: scan_content_def empty_scan_def)
qed

lemma fitted_images: "json_ok (rr_content r) \<Longrightarrow> images_ok d (fitted_entry sha d cfg m r)"
  using scan_content_images [of "rr_content r"]
  by (auto simp: images_ok_def fitted_entry_def from_result_def Let_def)

section \<open>Results hold well-formed values\<close>

definition contents_ok :: "result_state \<Rightarrow> bool" where
  "contents_ok st \<longleftrightarrow> list_all (\<lambda>r. json_ok (rr_content r)) (snd st)"

lemma json_get_ok: "json_ok v \<Longrightarrow> json_get v k = Some w \<Longrightarrow> json_ok w"
  by (cases v) (auto simp: json_get_def list_all_iff dest: map_of_SomeD)

lemma contents_add [simp]:
  "contents_ok (add_call i name args st) = contents_ok st"
  "contents_ok (add_result i content e st) = (contents_ok st \<and> (case content of Some c \<Rightarrow> json_ok c | None \<Rightarrow> True))"
  by (auto simp: contents_ok_def add_call_def add_result_def split: option.split)

lemma ant_result_block_ok: "json_ok b \<Longrightarrow> contents_ok st \<Longrightarrow> contents_ok (ant_result_block b st)"
  by (auto simp: ant_result_block_def Let_def dest: json_get_ok split: option.split simp del: lit_Cons)

lemma fold_ant_result_ok:
  "list_all json_ok bs \<Longrightarrow> contents_ok st \<Longrightarrow> contents_ok (fold ant_result_block bs st)"
  by (induction bs arbitrary: st) (simp_all add: ant_result_block_ok)

lemma fold_chat_call_ok: "contents_ok (fold chat_result_call calls st) = contents_ok st"
  by (induction calls arbitrary: st) (auto simp: chat_result_call_def split: option.split)

lemma result_step_ok:
  assumes "is_summary d m \<or> json_ok m" "contents_ok st"
  shows "contents_ok (result_step d st m)"
proof (cases "is_summary d m")
  case False
  then have ok: "json_ok m" using assms by simp
  have "list_all json_ok bs" if "Option.bind (json_get m (lit ''content'')) as_array = Some bs" for bs
  proof -
    have "json_get m (lit ''content'') = Some (JArr bs)"
    proof (cases "json_get m (lit ''content'')")
      case (Some v)
      then show ?thesis using that by (cases v) (simp_all add: as_array_def del: lit_Cons)
    qed (use that in \<open>simp del: lit_Cons\<close>)
    from json_get_ok [OF ok this] show ?thesis by simp
  qed
  then show ?thesis using assms(2) False
    by (cases d) (auto simp: result_step_def Let_def fold_ant_result_ok fold_chat_call_ok
      dest: json_get_ok [OF ok] split: option.split simp del: lit_Cons)
qed (use assms in \<open>simp add: result_step_def\<close>)

lemma results_ok:
  assumes "\<forall>m \<in> set messages. is_summary d m \<or> json_ok m"
  shows "list_all (\<lambda>r. json_ok (rr_content r)) (results messages d)"
proof -
  have "contents_ok st \<Longrightarrow> contents_ok (foldl (result_step d) st messages)" for st
    using assms by (induction messages arbitrary: st) (auto simp: result_step_ok)
  from this [of "(Map.empty, [])"] show ?thesis
    by (simp add: results_def run_results_def contents_ok_def)
qed

section \<open>The reservoir keeps images\<close>

lemma bound_entries_ok: "list_all P es \<Longrightarrow> list_all P (bound_entries es b c)"
proof -
  assume "list_all P es"
  moreover obtain k where "bound_entries es b c = drop k es" using bound_entries_suffix by blast
  ultimately show ?thesis by (auto simp: list_all_iff dest: in_set_dropD)
qed

lemma merge_result_ok:
  "json_ok (rr_content r) \<Longrightarrow> list_all (images_ok d) es \<Longrightarrow> list_all (images_ok d) (merge_result sha d cfg m es r)"
  unfolding merge_result_def Let_def
  by (rule bound_entries_ok) (auto simp: fitted_images list_all_iff)

lemma merge_evidence_ok:
  assumes "\<forall>m \<in> set messages. is_summary d m \<or> json_ok m" "list_all (images_ok d) old"
  shows "list_all (images_ok d) (merge_evidence sha old messages d cfg max_chars)"
proof -
  have "list_all (\<lambda>r. json_ok (rr_content r)) rs \<Longrightarrow> list_all (images_ok d) es \<Longrightarrow>
      list_all (images_ok d) (foldl (merge_result sha d cfg max_chars) es rs)" for rs es
    by (induction rs arbitrary: es) (simp_all add: merge_result_ok)
  then show ?thesis using results_ok [OF assms(1)] assms(2)
    by (simp add: merge_evidence_def bound_entries_ok)
qed

section \<open>Summaries as the engine sends them\<close>

definition summary_ok :: "dialect \<Rightarrow> json \<Rightarrow> bool" where
  "summary_ok d s \<longleftrightarrow> is_summary d s \<and> tool_free d s"

lemma summary_role: "is_summary d s \<Longrightarrow> str_field s (lit ''role'') = lit ''user''"
  by (cases d) (simp_all add: is_summary_def ant_is_summary_def chat_is_summary_def resp_is_summary_def
    del: lit_Cons)

lemma summary_not_assistant: "is_summary d s \<Longrightarrow> \<not> is_assistant d s"
  using summary_role [of d s]
  by (cases d) (auto simp: is_assistant_def is_summary_def ant_is_assistant_def chat_is_assistant_def
    resp_is_assistant_def resp_is_summary_def Let_def)

lemma ids_no_result: "list_all no_result_block bs \<Longrightarrow> ids bs ''tool_result'' ''tool_use_id'' = []"
proof -
  assume "list_all no_result_block bs"
  then have "filter (\<lambda>b. get_str b (lit ''type'') = Some (lit ''tool_result'')) bs = []"
    by (auto simp: filter_empty_conv list_all_iff no_result_block_def simp del: lit_Cons)
  then show ?thesis by (simp add: ids_def List.map_filter_def del: lit_Cons)
qed

lemma user_message_ok: "starts_with s SUMMARY_HEADER \<Longrightarrow> summary_ok d (user_message d s)"
  using attach_user_message [of s d "[]"]
  by (cases d) (simp_all add: summary_ok_def attach_images_def tool_free_def user_message_def
    content_blocks_user ids_no_result)

lemma image_blocks_ok:
  "images_ok Anthropic e \<Longrightarrow> list_all no_result_block (image_blocks (lit ''text'') e)"
  by (simp add: image_blocks_def images_ok_def no_result_block_def get_str_def json_get_def as_str_def)

lemma attached_tool_free:
  assumes "list_all (images_ok d) es"
  shows "tool_free d (attach_images (user_message d s) d es)"
proof (cases "d = Anthropic \<and> \<not> list_all (\<lambda>e. ev_images e = []) es")
  case True
  let ?front = "JObj [(lit ''type'', JStr (lit ''text'')), (lit ''text'', JStr s)]"
  have "content_blocks (attach_images (user_message d s) d es) =
      ?front # concat (map (image_blocks (lit ''text'')) es)"
    using True by (simp add: attach_images_def content_blocks_def user_message_def ant_user_message_def
      alter_field_def update_field_def json_get_def get_str_def as_str_def as_array_def Let_def)
  moreover have "list_all no_result_block (?front # concat (map (image_blocks (lit ''text'')) es))"
    using assms True image_blocks_ok
    by (auto simp: list_all_iff no_result_block_def get_str_def json_get_def as_str_def)
  ultimately show ?thesis by (simp add: tool_free_def ids_no_result)
next
  case False
  then show ?thesis
    by (auto simp: tool_free_def attach_images_def user_message_def content_blocks_user ids_no_result)
qed

lemma render_ok:
  assumes "list_all (images_ok d) es"
  shows "summary_ok d (render_evidence (user_message d (summary_body parts)) d es)"
proof -
  have "tool_free d (render_evidence (user_message d (summary_body parts)) d es)"
    using attached_tool_free [OF assms] user_message_ok [OF summary_body_starts, of d parts]
    by (auto simp: render_evidence_def Let_def summary_ok_def)
  then show ?thesis by (simp add: summary_ok_def rendered_summary_recognised)
qed

end
