(* ===== verification/Spliced.thy ===== *)
theory Spliced
  imports Summaries
begin

text \<open>
  What a replay keeps (\<open>Replay\<close> and \<open>compact_chain\<close> of \<open>request/engine.rs\<close>): the working list is the
  head of the history, one summary and the messages fed after the cut, its sizes are those of its
  messages, and the cut lies where a model turn of the original history begins.
\<close>

section \<open>The working list\<close>

definition cut_ok :: "dialect \<Rightarrow> json list \<Rightarrow> nat \<Rightarrow> nat \<Rightarrow> bool" where
  "cut_ok d msgs h c \<longleftrightarrow> h < c \<and> c \<le> length msgs \<and> list_all (\<lambda>m. \<not> is_assistant d m) (take h msgs) \<and>
     (c = length msgs \<or> starts_turn d msgs c)"

definition working_ok :: "dialect \<Rightarrow> json list \<Rightarrow> nat \<Rightarrow> replay \<Rightarrow> bool" where
  "working_ok d msgs k rp \<longleftrightarrow> k \<le> length msgs \<and>
     (if rp_have_summary rp then
        cut_ok d msgs (rp_head_len rp) (rp_orig_cut rp) \<and> rp_orig_cut rp \<le> k \<and>
        (rp_last_summary rp = None \<or> rp_orig_cut rp < length msgs) \<and>
        (\<exists>s. summary_ok d s \<and> rp_last_summary rp \<in> {None, Some s} \<and>
           rp_working rp = take (rp_head_len rp) msgs @ [s] @ drop (rp_orig_cut rp) (take k msgs))
      else rp_working rp = take k msgs \<and> rp_orig_cut rp = 0 \<and> rp_last_summary rp = None)"

definition replay_ok :: "dialect \<Rightarrow> json list \<Rightarrow> nat \<Rightarrow> replay \<Rightarrow> bool" where
  "replay_ok d msgs k rp \<longleftrightarrow> working_ok d msgs k rp \<and> rp_sizes rp = map message_chars (rp_working rp) \<and>
     list_all (images_ok d) (rp_evidence rp) \<and> (rp_steps rp = 0 \<or> rp_have_summary rp)"

lemma turns_from_pos: "0 < turns_from d ms c \<Longrightarrow> c < length ms"
  by (rule ccontr) (simp add: turns_from_def)

lemma cut_inside:
  assumes "compact_within ms d cfg budget carry cb = Some r" "0 < keep_recent cfg"
  shows "cr_cut r < length ms" "starts_turn d ms (cr_cut r)"
proof -
  have "0 < turns_from d ms (cr_cut r)" using compact_within_facts(5) [OF assms(1)] assms(2) by simp
  then show "cr_cut r < length ms" by (rule turns_from_pos)
  then show "starts_turn d ms (cr_cut r)" using compact_within_facts(4) [OF assms(1)] by simp
qed

lemma starts_turn_take: "c < k \<Longrightarrow> c < length ms \<Longrightarrow> starts_turn d (take k ms) c = starts_turn d ms c"
  by (auto simp: starts_turn_def)

text \<open>A compaction of head, summary and tail never cuts inside the head, and its own head stops before
  the old summary.\<close>

lemma recompaction:
  assumes run: "compact_within ms d cfg budget carry cb = Some r" and keep: "0 < keep_recent cfg"
    and ms: "ms = take h msgs @ [s] @ drop c (take k msgs)"
    and ok: "cut_ok d msgs h c" "summary_ok d s" and k: "c \<le> k" "k \<le> length msgs"
  shows "cr_head_len r \<le> h" "h < cr_cut r" "starts_turn d msgs (c + (cr_cut r - (h + 1)))"
    "c + (cr_cut r - (h + 1)) < k"
proof -
  note cut = cut_inside [OF run keep]
  have len: "length ms = h + 1 + (k - c)" using ms ok(1) k by (simp add: cut_ok_def)
  have free: "\<not> is_assistant d (ms ! i)" if "i \<le> h" for i
  proof (cases "i = h")
    case True
    then show ?thesis using ok summary_not_assistant [of d s] unfolding ms
      by (simp add: cut_ok_def nth_append summary_ok_def)
  next
    case False
    then have i: "i < length (take h msgs)" using that ok(1) by (simp add: cut_ok_def)
    then have "ms ! i = take h msgs ! i" unfolding ms by (simp only: nth_append if_True)
    then show ?thesis using ok(1) i by (simp add: cut_ok_def list_all_length)
  qed
  show past: "h < cr_cut r" using free cut(2) by (metis not_less starts_turn_def)
  have h: "h < length msgs" using ok(1) by (simp add: cut_ok_def)
  have tail: "ms ! (h + 1 + i) = msgs ! (c + i)" if "h + 1 + i < length ms" for i
    using that len k h unfolding ms by (simp add: nth_append)
  have ck: "c < k" using past cut(1) len by simp
  then have model: "starts_turn d msgs c" using ok(1) k by (simp add: cut_ok_def)
  obtain n where n: "first_assistant d ms = Some n" "cr_head_len r = trim_head d ms n"
    by (rule compact_within_Some [OF run]) blast
  have "is_assistant d (ms ! (h + 1))" using model tail [of 0] len ck by (simp add: starts_turn_def)
  moreover have "h < n" using free first_assistant_Some(2) [OF n(1)] not_less by blast
  moreover have "\<not> is_assistant d (ms ! i)" if "i < n" for i
    using first_assistant_Some(1,3) [OF n(1)] that nth_mem [of i "take n ms"] by simp
  ultimately have "n = Suc h" by (metis Suc_eq_plus1 Suc_lessI)
  moreover have "is_summary d (ms ! h)" using ok h unfolding ms by (simp add: nth_append summary_ok_def)
  ultimately show "cr_head_len r \<le> h" using n(2) trim_head_le [of d ms h] by simp
  show "starts_turn d msgs (c + (cr_cut r - (h + 1)))"
  proof (cases "cr_cut r = h + 1")
    case False
    then obtain j where j: "cr_cut r = h + 1 + Suc j" using past less_iff_Suc_add [of "h + 1" "cr_cut r"] by auto
    then have "ms ! cr_cut r = msgs ! (c + Suc j)" "ms ! (cr_cut r - 1) = msgs ! (c + j)"
      using tail [of "Suc j"] tail [of j] cut(1) by simp_all
    then show ?thesis using cut(2) j by (simp add: starts_turn_def)
  qed (use model in simp)
  show "c + (cr_cut r - (h + 1)) < k" using past cut(1) len ck by simp
qed

lemma map_update_split:
  "h \<le> length xs \<Longrightarrow> (take h xs @ [a] @ ys)[h := b] = take h xs @ [b] @ ys"
  by (simp add: list_update_append)

lemma working_ok_feed:
  assumes "working_ok d msgs k rp" "k < length msgs"
  shows "working_ok d msgs (Suc k) (rp\<lparr>rp_working := rp_working rp @ [msgs ! k], rp_sizes := ns\<rparr>)"
  using assms by (auto simp: working_ok_def take_Suc_conv_app_nth min_def)

lemma adopt_ok:
  assumes run: "compact_within (rp_working rp) d cfg budget carry cb = Some r" and keep: "0 < keep_recent cfg"
    and ok: "replay_ok d msgs k rp" and json: "list_all json_ok msgs"
  shows "\<exists>rp'. adopt sha rp r (length msgs) d cfg eb = Some rp' \<and> replay_ok d msgs k rp' \<and>
    rp_last_summary rp' \<noteq> None"
proof -
  let ?ms = "rp_working rp" and ?h = "cr_head_len r" and ?c = "cr_cut r"
  define new where "new = (if rp_have_summary rp then rp_orig_cut rp + (?c - (rp_head_len rp + 1)) else ?c)"
  note facts = compact_within_facts [OF run] and cut = cut_inside [OF run keep]
  have w: "working_ok d msgs k rp" and sizes: "rp_sizes rp = map message_chars ?ms"
    and ev: "list_all (images_ok d) (rp_evidence rp)" using ok by (simp_all add: replay_ok_def)
  have k: "k \<le> length msgs" using w by (simp add: working_ok_def)
  have main: "take ?h ?ms = take ?h msgs \<and> drop ?c ?ms = drop new (take k msgs) \<and> new < k \<and> ?h < new \<and>
      starts_turn d msgs new \<and> (rp_have_summary rp \<longrightarrow> rp_head_len rp + 1 \<le> ?c) \<and>
      (\<forall>m \<in> set ?ms. is_summary d m \<or> json_ok m)"
  proof (cases "rp_have_summary rp")
    case False
    then have ms: "?ms = take k msgs" and n: "new = ?c" using w by (simp_all add: working_ok_def new_def)
    have "?c < k" using cut(1) ms k by simp
    then show ?thesis using cut(2) facts(1) json k False
      by (simp add: ms n starts_turn_take min_def list_all_iff) (meson in_set_takeD)
  next
    case True
    then obtain s where s: "summary_ok d s" "cut_ok d msgs (rp_head_len rp) (rp_orig_cut rp)"
      "rp_orig_cut rp \<le> k" and ms: "?ms = take (rp_head_len rp) msgs @ [s] @ drop (rp_orig_cut rp) (take k msgs)"
      using w by (auto simp: working_ok_def)
    note re = recompaction [OF run keep ms s(2,1) s(3) k]
    have hl: "rp_head_len rp < length msgs" "rp_head_len rp < rp_orig_cut rp" using s(2) by (simp_all add: cut_ok_def)
    obtain j where j: "?c = Suc (rp_head_len rp + j)" using re(2) less_iff_Suc_add by auto
    have "take ?h ?ms = take ?h msgs" using re(1) hl unfolding ms by (simp add: min_def)
    moreover have "drop ?c ?ms = drop new (take k msgs)"
      using hl True unfolding ms new_def j by (simp add: add.commute)
    moreover have "\<forall>m \<in> set ?ms. is_summary d m \<or> json_ok m"
      using json s(1) unfolding ms by (auto simp: summary_ok_def list_all_iff dest!: in_set_takeD in_set_dropD)
    ultimately show ?thesis using re hl True by (simp add: new_def)
  qed
  obtain parts where sum: "cr_summary r = user_message d (summary_body parts)" using facts(9) by blast
  define evid where "evid = merge_evidence sha (rp_evidence rp) (slice (?h, ?c) ?ms) d cfg eb"
  define s where "s = render_evidence (cr_summary r) d evid"
  have evid: "list_all (images_ok d) evid" unfolding evid_def
    by (rule merge_evidence_ok [OF _ ev]) (use main in \<open>auto simp: slice_def dest!: in_set_takeD in_set_dropD\<close>)
  then have sok: "summary_ok d s" unfolding s_def sum by (rule render_ok)
  have hlen: "?h \<le> length ?ms" using facts(1) cut(1) by simp
  have msgs': "(cr_messages r)[?h := s] = take ?h msgs @ [s] @ drop new (take k msgs)"
    unfolding facts(8) using main hlen map_update_split by metis
  have sizes': "take ?h (rp_sizes rp) @ [message_chars s] @ drop ?c (rp_sizes rp) =
      map message_chars (take ?h msgs @ [s] @ drop new (take k msgs))"
    using main unfolding sizes take_map drop_map by simp
  have cok: "cut_ok d msgs ?h new"
    using main k facts(3) by (simp add: cut_ok_def list_all_iff) 
  have rng: "1 \<le> new \<and> new \<le> length msgs" using main k by simp
  define rp' where "rp' = \<lparr>rp_working = (cr_messages r)[?h := s],
    rp_sizes = take ?h (rp_sizes rp) @ [message_chars s] @ drop ?c (rp_sizes rp),
    rp_head_len = ?h, rp_orig_cut = new, rp_have_summary = True, rp_last_summary = Some s,
    rp_steps = rp_steps rp + 1, rp_carry = cr_carry r, rp_evidence = evid\<rparr>"
  have "adopt sha rp r (length msgs) d cfg eb = Some rp'"
    unfolding adopt_def Let_def new_def [symmetric] evid_def [symmetric] s_def [symmetric] rp'_def
    using main rng by auto
  moreover have "working_ok d msgs k rp'"
    using cok main k sok msgs' by (auto simp: working_ok_def rp'_def)
  then have "replay_ok d msgs k rp'"
    using evid sizes' msgs' by (simp add: replay_ok_def rp'_def)
  ultimately show ?thesis by (auto simp: rp'_def)
qed

section \<open>The loop\<close>

lemma feed_drop: "k < length ms \<Longrightarrow> drop k (zip ms (map f ms)) = (ms ! k, f (ms ! k)) # drop (Suc k) (zip ms (map f ms))"
  by (simp add: Cons_nth_drop_Suc [symmetric])

text \<open>The loop always ends with a usable replay of the whole history.\<close>

lemma feed_loop_ok:
  assumes "0 < keep_recent knobs" "list_all json_ok (rq_msgs ctx)"
    and "replay_ok (rq_dialect ctx) (rq_msgs ctx) k rp"
  shows "\<exists>rp'. feed_loop sha ctx knobs b (drop k (zip (rq_msgs ctx) (map message_chars (rq_msgs ctx)))) chars rp =
      Some rp' \<and> replay_ok (rq_dialect ctx) (rq_msgs ctx) (length (rq_msgs ctx)) rp'"
  using assms(3)
proof (induction "length (rq_msgs ctx) - k" arbitrary: k chars rp)
  case 0
  then have "k = length (rq_msgs ctx)" by (simp add: replay_ok_def working_ok_def)
  then show ?case using 0 by simp
next
  case (Suc n)
  let ?msgs = "rq_msgs ctx" and ?d = "rq_dialect ctx"
  let ?rest = "drop (Suc k) (zip ?msgs (map message_chars ?msgs))"
  have k: "k < length ?msgs" "n = length ?msgs - Suc k" using Suc.hyps(2) by auto
  define rp1 where "rp1 = rp\<lparr>rp_working := rp_working rp @ [?msgs ! k],
    rp_sizes := rp_sizes rp @ [message_chars (?msgs ! k)]\<rparr>"
  define chars1 where "chars1 = chars + message_chars (?msgs ! k)"
  have ok1: "replay_ok ?d ?msgs (Suc k) rp1"
    using Suc.prems working_ok_feed [OF _ k(1)] by (simp add: replay_ok_def rp1_def)
  note IH = Suc.hyps(1) [OF k(2)]
  have step: "feed_loop sha ctx knobs b ((?msgs ! k, message_chars (?msgs ! k)) # ?rest) chars rp =
      (if threshold_chars ctx < chars1 then
        (case compact_within (rp_working rp1) ?d knobs (sb_budget b) (rp_carry rp1) (sb_carry b) of
           None \<Rightarrow> feed_loop sha ctx knobs b ?rest chars1 rp1
         | Some result \<Rightarrow>
             (case adopt sha rp1 result (length ?msgs) ?d knobs (sb_evidence b) of
                None \<Rightarrow> None
              | Some rp \<Rightarrow> feed_loop sha ctx knobs b ?rest (rq_fixed_chars ctx + sum_list (rp_sizes rp)) rp))
       else feed_loop sha ctx knobs b ?rest chars1 rp1)"
    unfolding feed_loop.simps(2) Let_def rp1_def chars1_def by (rule refl)
  show ?case
  proof (cases "compact_within (rp_working rp1) ?d knobs (sb_budget b) (rp_carry rp1) (sb_carry b)")
    case None
    then show ?thesis using IH [OF ok1] unfolding feed_drop [OF k(1)] step by simp
  next
    case (Some r)
    obtain rp2 where a: "adopt sha rp1 r (length ?msgs) ?d knobs (sb_evidence b) = Some rp2"
      "replay_ok ?d ?msgs (Suc k) rp2"
      using adopt_ok [OF Some assms(1) ok1 assms(2)] by blast
    show ?thesis using IH [OF ok1] IH [OF a(2)] Some a(1) unfolding feed_drop [OF k(1)] step by simp
  qed
qed

end
