(* ===== verification/Served.thy ===== *)
theory Served
  imports Spliced
begin

text \<open>
  A conversation served by the engine (\<open>request/engine.rs\<close>): the requests of an append-only history in
  any order, prepared directly or deferred, retried, published or dropped, against one store. Every
  request in flight sends a head of its history, at most one summary and a suffix that begins where a
  model turn begins, and so keeps the pairing of tool calls and results.
\<close>

section \<open>What is kept of a request and of a stored entry\<close>

definition entry_ok :: "dialect \<Rightarrow> json list \<Rightarrow> store_entry \<Rightarrow> bool" where
  "entry_ok d full e \<longleftrightarrow> cut_ok d full (se_head_len e) (se_cut e) \<and> summary_ok d (se_summary e) \<and>
     list_all (images_ok d) (se_evidence e)"

definition spliced :: "dialect \<Rightarrow> json list \<Rightarrow> nat \<Rightarrow> nat \<Rightarrow> json list \<Rightarrow> bool" where
  "spliced d msgs h c ms \<longleftrightarrow> cut_ok d msgs h c \<and>
     (\<exists>s. summary_ok d s \<and> ms = take h msgs @ [s] @ drop c msgs)"

definition request_ok :: "dialect \<Rightarrow> json list \<Rightarrow> request_ctx \<Rightarrow> bool" where
  "request_ok d full ctx \<longleftrightarrow> rq_dialect ctx = d \<and> (\<exists>n. rq_msgs ctx = take n full) \<and>
     rq_msg_chars ctx = map message_chars (rq_msgs ctx) \<and> list_all (images_ok d) (rq_evidence ctx) \<and>
     (case rq_substituted ctx of
        None \<Rightarrow> rq_base_cut ctx = 0 \<and> \<not> rq_compacted ctx
      | Some (ms, ns) \<Rightarrow> ns = map message_chars ms \<and>
          spliced d (rq_msgs ctx) (rq_base_head ctx) (rq_base_cut ctx) ms) \<and>
     (rq_compacted ctx \<longrightarrow> rq_base_cut ctx < length (rq_msgs ctx)) \<and>
     (case rq_deferred ctx of None \<Rightarrow> True | Some p \<Rightarrow> list_all (\<lambda>(k, e). entry_ok d full e) p)"

definition store_fits :: "dialect \<Rightarrow> json list \<Rightarrow> prefix_store \<Rightarrow> bool" where
  "store_fits d full st \<longleftrightarrow> store_ok st \<and> holds_all (store_lookup st) (\<lambda>k e. entry_ok d full e)"

lemma cut_ok_take: "cut_ok d full h c \<Longrightarrow> c \<le> n \<Longrightarrow> n \<le> length full \<Longrightarrow> cut_ok d (take n full) h c"
proof -
  assume *: "cut_ok d full h c" "c \<le> n" "n \<le> length full"
  then have "take h (take n full) = take h full" by (simp add: cut_ok_def min_def)
  moreover have "c < n \<Longrightarrow> c < length full \<Longrightarrow> starts_turn d (take n full) c = starts_turn d full c"
    by (rule starts_turn_take)
  ultimately show ?thesis using * by (cases "c = n") (auto simp: cut_ok_def)
qed

lemma cut_ok_full: "cut_ok d (take n full) h c \<Longrightarrow> c < length (take n full) \<Longrightarrow> cut_ok d full h c"
proof -
  assume *: "cut_ok d (take n full) h c" "c < length (take n full)"
  then have "take h (take n full) = take h full" by (simp add: cut_ok_def min.absorb1)
  then show ?thesis using * by (auto simp: cut_ok_def starts_turn_take)
qed

lemma out_sizes_exact: "request_ok d full ctx \<Longrightarrow> out_sizes ctx = map message_chars (out_messages ctx)"
  by (auto simp: request_ok_def out_sizes_def out_messages_def split: option.split)

section \<open>Every operation keeps it\<close>

lemma refresh_fields [simp]:
  "rq_msgs (refresh_estimate ctx) = rq_msgs ctx" "rq_msgs (refresh_evidence sha ctx) = rq_msgs ctx"
  "rq_dialect (refresh_estimate ctx) = rq_dialect ctx" "rq_dialect (refresh_evidence sha ctx) = rq_dialect ctx"
  "rq_msg_chars (refresh_estimate ctx) = rq_msg_chars ctx"
  "rq_msg_chars (refresh_evidence sha ctx) = rq_msg_chars ctx"
  "rq_evidence (refresh_estimate ctx) = rq_evidence ctx" "rq_evidence (refresh_evidence sha ctx) = rq_evidence ctx"
  "rq_substituted (refresh_estimate ctx) = rq_substituted ctx"
  "rq_substituted (refresh_evidence sha ctx) = rq_substituted ctx"
  "rq_base_cut (refresh_estimate ctx) = rq_base_cut ctx" "rq_base_cut (refresh_evidence sha ctx) = rq_base_cut ctx"
  "rq_base_head (refresh_estimate ctx) = rq_base_head ctx"
  "rq_base_head (refresh_evidence sha ctx) = rq_base_head ctx"
  "rq_threshold (refresh_estimate ctx) = rq_threshold ctx"
  "rq_threshold (refresh_evidence sha ctx) = rq_threshold ctx"
  "rq_fixed_chars (refresh_estimate ctx) = rq_fixed_chars ctx"
  "rq_fixed_chars (refresh_evidence sha ctx) = rq_fixed_chars ctx"
  "rq_body (refresh_estimate ctx) = rq_body ctx" "rq_body (refresh_evidence sha ctx) = rq_body ctx"
  "rq_est_out (refresh_evidence sha ctx) = rq_est_out ctx"
  "rq_over_budget (refresh_evidence sha ctx) = rq_over_budget ctx"
  by (simp_all add: refresh_estimate_def refresh_evidence_def Let_def case_prod_beta)

lemma request_ok_refresh [simp]:
  "request_ok d full (refresh_estimate ctx) = request_ok d full ctx"
  "request_ok d full (refresh_evidence sha ctx) = request_ok d full ctx"
  unfolding request_ok_def refresh_fields refresh_simps deferred_refresh by (rule refl)+

lemma remember_ok:
  assumes "request_ok d full ctx" "store_fits d full st" "entry_ok d full e"
  shows "request_ok d full (fst (remember ctx k e st))" "store_fits d full (snd (remember ctx k e st))"
  using assms lru.put_ok [of st k e] lru.holds_all_put [of st _ k e]
  by (auto simp: remember_def request_ok_def store_fits_def split: option.splits)

lemma new_ctx_ok:
  "request_ok d full (new_ctx sha cfg body (take n full) d t r cp cap deferred)"
  by (auto simp: request_ok_def new_ctx_def Let_def)

lemma find_prefix_ok:
  assumes "store_fits d full st" "find_prefix ctx n st = (oe, st')" "n \<le> length (rq_msgs ctx)"
  shows "store_fits d full st' \<and> (case oe of None \<Rightarrow> True | Some e \<Rightarrow> entry_ok d full e \<and> se_cut e \<le> n)"
  using assms
proof (induction n arbitrary: st)
  case (Suc i)
  obtain got st1 where g: "store_get (rq_chain ctx ! i) st = (got, st1)" by fastforce
  have fits: "store_fits d full st1"
    using Suc.prems(1) lru.get_ok [of st "rq_chain ctx ! i"] lru.holds_all_get [of st _ "rq_chain ctx ! i"] g
    by (simp add: store_fits_def)
  have "entry_ok d full e" if "got = Some e" for e
    using Suc.prems(1) lru.got [of st "\<lambda>k e. entry_ok d full e"] g that by (auto simp: store_fits_def)
  then show ?case using Suc.IH [OF fits] Suc.prems(2,3) g fits
    by (fastforce split: option.splits if_splits)
qed simp

lemma substitute_entry_ok:
  assumes "request_ok d full ctx" "entry_ok d full e" "se_cut e \<le> length (rq_msgs ctx)" "\<not> rq_compacted ctx"
  shows "request_ok d full (substitute_entry ctx e)"
proof -
  obtain n where n: "rq_msgs ctx = take n full" "n \<le> length full"
    using assms(1) unfolding request_ok_def by (metis nat_le_linear take_all)
  then have "cut_ok d (rq_msgs ctx) (se_head_len e) (se_cut e)"
    using assms(2,3) by (simp add: entry_ok_def cut_ok_take)
  then have "spliced d (rq_msgs ctx) (se_head_len e) (se_cut e)
      (take (se_head_len e) (rq_msgs ctx) @ [se_summary e] @ drop (se_cut e) (rq_msgs ctx))"
    using assms(2) by (auto simp: spliced_def entry_ok_def)
  then show ?thesis using assms by (simp add: request_ok_def substitute_entry_def entry_ok_def take_map drop_map)
qed

lemma substitute_ok:
  assumes "request_ok d full ctx" "store_fits d full st" "\<not> rq_compacted ctx"
    and "substitute_longest_prefix ctx st = (ctx', st')"
  shows "request_ok d full ctx'" "store_fits d full st'"
proof -
  obtain oe st1 where f: "find_prefix ctx (length (rq_msgs ctx)) st = (oe, st1)" by fastforce
  note ok = find_prefix_ok [OF assms(2) f order_refl]
  have "request_ok d full ctx' \<and> store_fits d full st'"
    using ok assms f substitute_entry_ok by (cases oe) (auto simp: substitute_longest_prefix_def)
  then show "request_ok d full ctx'" "store_fits d full st'" by blast+
qed

lemma start_replay_ok:
  assumes "request_ok d full ctx"
  shows "replay_ok d (rq_msgs ctx) (rp_orig_cut (start_replay ctx)) (start_replay ctx)"
    "rp_last_summary (start_replay ctx) = None"
proof -
  show "rp_last_summary (start_replay ctx) = None" by (simp add: start_replay_def)
  show "replay_ok d (rq_msgs ctx) (rp_orig_cut (start_replay ctx)) (start_replay ctx)"
  proof (cases "rq_base_cut ctx")
    case 0
    then show ?thesis by (simp add: start_replay_def replay_ok_def working_ok_def)
  next
    case (Suc c)
    then obtain ms where sub: "rq_substituted ctx = Some (ms, map message_chars ms)"
      and ms: "spliced d (rq_msgs ctx) (rq_base_head ctx) (rq_base_cut ctx) ms"
      using assms by (auto simp: request_ok_def split: option.splits)
    then obtain s where s: "summary_ok d s" "cut_ok d (rq_msgs ctx) (rq_base_head ctx) (rq_base_cut ctx)"
      "ms = take (rq_base_head ctx) (rq_msgs ctx) @ [s] @ drop (rq_base_cut ctx) (rq_msgs ctx)"
      by (auto simp: spliced_def)
    then have "take (rq_base_head ctx + 1) ms = take (rq_base_head ctx) (rq_msgs ctx) @ [s]"
      by (simp add: cut_ok_def min_def)
    then show ?thesis using s sub Suc assms
      by (simp add: start_replay_def replay_ok_def working_ok_def out_messages_def out_sizes_def take_map
        request_ok_def cut_ok_def)
  qed
qed

lemma run_replay_ok:
  assumes "0 < keep_recent knobs" "list_all json_ok full" "request_ok d full ctx"
  shows "\<exists>rp. run_replay sha cfg knobs force ctx = Some rp \<and>
    replay_ok d (rq_msgs ctx) (length (rq_msgs ctx)) rp"
proof -
  have d: "rq_dialect ctx = d" and chars: "rq_msg_chars ctx = map message_chars (rq_msgs ctx)"
    using assms(3) by (simp_all add: request_ok_def)
  have json: "list_all json_ok (rq_msgs ctx)"
    using assms(2,3) by (auto simp: request_ok_def list_all_iff dest!: in_set_takeD)
  note fed = feed_loop_ok [OF assms(1) json, unfolded d]
  obtain rp where rp: "feed_loop sha ctx knobs (budgets_of cfg knobs ctx)
      (drop (rp_orig_cut (start_replay ctx)) (zip (rq_msgs ctx) (rq_msg_chars ctx)))
      (rq_fixed_chars ctx + sum_list (rp_sizes (start_replay ctx))) (start_replay ctx) = Some rp"
    "replay_ok d (rq_msgs ctx) (length (rq_msgs ctx)) rp"
    using fed [OF start_replay_ok(1) [OF assms(3)]] unfolding chars by blast
  have "\<exists>rp'. replay_compact sha d knobs b (length (rq_msgs ctx)) rp = Some rp' \<and>
      replay_ok d (rq_msgs ctx) (length (rq_msgs ctx)) rp'" for b
  proof (cases "compact_within (rp_working rp) d knobs (sb_budget b) (rp_carry rp) (sb_carry b)")
    case (Some r)
    show ?thesis using adopt_ok [OF Some assms(1) rp(2) json, of sha "sb_evidence b"] Some
      by (auto simp: replay_compact_def)
  qed (use rp(2) in \<open>simp add: replay_compact_def\<close>)
  then show ?thesis using rp by (auto simp: run_replay_def Let_def d)
qed

lemma compact_chain_ok:
  assumes "0 < keep_recent knobs" "list_all json_ok full" "request_ok d full ctx" "store_fits d full st"
    and run: "compact_chain sha cfg force knobs ctx st = Some (ctx', st')"
  shows "request_ok d full ctx'" "store_fits d full st'"
proof -
  obtain rp summary where rp: "run_replay sha cfg knobs force ctx = Some rp" "rp_last_summary rp = Some summary"
    and res: "(ctx', st') = remember (compacted_ctx sha ctx rp) (rq_chain ctx ! (rp_orig_cut rp - 1))
      (entry_of (compacted_ctx sha ctx rp) summary) st"
    using run by (auto simp: compact_chain_def Let_def split: option.splits)
  have ok: "replay_ok d (rq_msgs ctx) (length (rq_msgs ctx)) rp"
    using run_replay_ok [OF assms(1-3), of sha cfg force] rp(1) by auto
  have had: "rp_have_summary rp"
    using ok rp(2) by (cases "rp_have_summary rp") (simp_all add: replay_ok_def working_ok_def)
  then have sum: "summary_ok d summary" and cut: "cut_ok d (rq_msgs ctx) (rp_head_len rp) (rp_orig_cut rp)"
    "rp_orig_cut rp < length (rq_msgs ctx)"
    and ms: "rp_working rp = take (rp_head_len rp) (rq_msgs ctx) @ [summary] @ drop (rp_orig_cut rp) (rq_msgs ctx)"
    using ok rp(2) by (auto simp: replay_ok_def working_ok_def)
  obtain n where n: "rq_msgs ctx = take n full" using assms(3) by (auto simp: request_ok_def)
  let ?ctx = "compacted_ctx sha ctx rp"
  have fields: "rq_base_cut ?ctx = rp_orig_cut rp" "rq_base_head ?ctx = rp_head_len rp"
    "rq_evidence ?ctx = rp_evidence rp"
    by (simp_all add: compacted_ctx_def)
  have "request_ok d full ?ctx"
    using assms(3) ok cut sum ms by (auto simp: compacted_ctx_def request_ok_def spliced_def replay_ok_def)
  moreover have "entry_ok d full (entry_of ?ctx summary)"
    using cut_ok_full [of d n full] cut n sum ok by (simp add: entry_ok_def entry_of_def fields replay_ok_def)
  ultimately show "request_ok d full ctx'" "store_fits d full st'"
    using remember_ok [OF _ assms(4)] res by (metis fst_conv, metis snd_conv)
qed

lemma summary_update:
  "spliced d msgs h c ms \<Longrightarrow> summary_ok d s \<Longrightarrow> spliced d msgs h c (ms[h := s])"
  by (auto simp: spliced_def cut_ok_def list_update_append min_def)

lemma truncate_summary_ok:
  assumes "request_ok d full ctx" "store_fits d full st"
    and run: "truncate_summary sha ctx st = Some (ctx', st')"
  shows "request_ok d full ctx'" "store_fits d full st'"
proof -
  let ?h = "rq_base_head ctx" and ?c = "rq_base_cut ctx"
  let ?old = "before_evidence (summary_str (out_messages ctx ! ?h))"
  obtain rest where rest: "strip_prefix ?old SUMMARY_HEADER = Some rest"
    using run unfolding truncate_summary_def Let_def by (auto split: if_splits option.splits)
  define kept where "kept = rev (keep_parts (rev (split_str PART_SEPARATOR (trim rest))) 0 (summary_budget ctx))"
  define dropped where "dropped = (length kept < length (split_str PART_SEPARATOR (trim rest)))"
  define new_text where "new_text = (if kept = [] then SUMMARY_HEADER
    else SUMMARY_HEADER @ [10, 10] @ join PART_SEPARATOR kept)"
  have start: "starts_with new_text SUMMARY_HEADER" by (simp add: new_text_def starts_with_iff)
  have steps: "truncate_summary sha ctx st =
      (if \<not> rq_compacted ctx \<or> ?c = 0 then None
       else if tokens_of ctx (out_sizes ctx) \<le> unat (rq_threshold ctx) then None
       else if length ?old \<le> length new_text \<and> rq_evidence ctx = [] then None
       else if rq_substituted ctx = None then None
       else Some (let ctx1 = truncated_ctx sha ctx (user_message (rq_dialect ctx) new_text) dropped in
         remember ctx1 (rq_chain ctx1 ! (rq_base_cut ctx1 - 1))
           (entry_of ctx1 (user_message (rq_dialect ctx) new_text)) st))"
    unfolding truncate_summary_def Let_def rest option.case kept_def [symmetric] dropped_def [symmetric]
      new_text_def [symmetric] by (rule refl)
  obtain ms ns where sub: "rq_substituted ctx = Some (ms, ns)" and compacted: "rq_compacted ctx"
    and res: "(ctx', st') = (let ctx1 = truncated_ctx sha ctx (user_message (rq_dialect ctx) new_text) dropped in
      remember ctx1 (rq_chain ctx1 ! (rq_base_cut ctx1 - 1))
        (entry_of ctx1 (user_message (rq_dialect ctx) new_text)) st)"
    using run unfolding steps by (cases "rq_substituted ctx") (auto split: if_splits)
  let ?s = "user_message d new_text"
  have d: "rq_dialect ctx = d" using assms(1) by (simp add: request_ok_def)
  have sok: "summary_ok d ?s" using start by (rule user_message_ok)
  have sp: "spliced d (rq_msgs ctx) ?h ?c ms" "ns = map message_chars ms" "?c < length (rq_msgs ctx)"
    using assms(1) sub compacted by (simp_all add: request_ok_def)
  let ?ctx = "truncated_ctx sha ctx ?s dropped"
  have fields: "rq_base_cut ?ctx = ?c" "rq_base_head ?ctx = ?h" "rq_evidence ?ctx = []"
    by (simp_all add: truncated_ctx_def Let_def)
  have "request_ok d full ?ctx"
    using assms(1) summary_update [OF sp(1) sok] sub sp(2)
    by (auto simp: truncated_ctx_def Let_def request_ok_def map_update)
  moreover obtain n where n: "rq_msgs ctx = take n full" using assms(1) by (auto simp: request_ok_def)
  then have "entry_ok d full (entry_of ?ctx ?s)"
    using cut_ok_full [of d n full ?h ?c] sp n sok by (simp add: entry_ok_def entry_of_def fields spliced_def)
  ultimately show "request_ok d full ctx'" "store_fits d full st'"
    using remember_ok [OF _ assms(2)] res unfolding Let_def d by (metis fst_conv, metis snd_conv)
qed

lemma rung_cfg_keeps: "keep_recent (rung_cfg cfg rung) = 1"
  by (simp add: rung_cfg_def Let_def)

lemma request_ok_rung [simp]: "request_ok d full (ctx\<lparr>rq_rung := r\<rparr>) = request_ok d full ctx"
  "request_ok d full (ctx\<lparr>rq_over_budget := b\<rparr>) = request_ok d full ctx"
  by (simp_all add: request_ok_def split: option.split)

lemma escalate_ok:
  assumes "list_all json_ok full"
  shows "request_ok d full ctx \<Longrightarrow> store_fits d full st \<Longrightarrow> escalate sha cfg rungs ctx st = (ctx', st') \<Longrightarrow>
    request_ok d full ctx' \<and> store_fits d full st'"
proof (induction rungs arbitrary: ctx st)
  case (Cons rung rungs)
  define tried where "tried = (if rung = 3 then truncate_summary sha ctx st
    else compact_chain sha cfg True (rung_cfg cfg rung) ctx st)"
  have ok: "request_ok d full c \<and> store_fits d full s" if "tried = Some (c, s)" for c s
    using that truncate_summary_ok [OF Cons.prems(1,2)]
      compact_chain_ok [OF _ assms Cons.prems(1,2), of "rung_cfg cfg rung"]
    by (auto simp: tried_def rung_cfg_keeps split: if_splits)
  have run: "escalate sha cfg (rung # rungs) ctx st =
      (if rq_est_out ctx \<le> unat (rq_threshold ctx) then (ctx, st)
       else case tried of Some (ctx, st) \<Rightarrow> escalate sha cfg rungs (ctx\<lparr>rq_rung := rung\<rparr>) st
         | None \<Rightarrow> escalate sha cfg rungs ctx st)"
    by (simp add: tried_def)
  show ?case
  proof (cases tried)
    case None
    then show ?thesis using run Cons.IH [of ctx st] Cons.prems by (auto split: if_splits)
  next
    case (Some r)
    obtain c s where r: "r = (c, s)" by (cases r)
    then show ?thesis
      using run Cons.IH [of "c\<lparr>rq_rung := rung\<rparr>" s] Cons.prems ok Some by (auto split: if_splits)
  qed
qed simp

lemma settle_ok:
  assumes "0 < keep_recent cfg" "list_all json_ok full" "request_ok d full ctx" "store_fits d full st"
    and "settle sha cfg ctx st = (ctx', st')"
  shows "request_ok d full ctx' \<and> store_fits d full st'"
proof (cases "unat (rq_threshold ctx) < rq_est_out ctx")
  case True
  obtain ctx1 st1 where one: "(case compact_chain sha cfg False cfg ctx st of Some r \<Rightarrow> r | None \<Rightarrow> (ctx, st)) = (ctx1, st1)"
    by fastforce
  have ok1: "request_ok d full ctx1" "store_fits d full st1"
    using one assms(3,4) compact_chain_ok [OF assms(1-4), of sha cfg False ctx1 st1]
    by (auto split: option.splits)
  obtain ctx2 st2 where two: "escalate sha cfg (if strict cfg then [1, 2, 3] else [1, 2]) ctx1 st1 = (ctx2, st2)"
    by fastforce
  show ?thesis using escalate_ok [OF assms(2) ok1 two] assms(5) True one two
    by (auto simp: settle_def simp del: escalate.simps)
qed (use assms in \<open>simp add: settle_def\<close>)

lemma prepare_ok:
  assumes "0 < keep_recent cfg" "list_all json_ok full" "store_fits d full st"
    and "history_of body d = Some (take n full)"
    and "prepare_policy sha cfg body d t r cp cap deferred st = Some (ctx', st')"
  shows "request_ok d full ctx' \<and> store_fits d full st'"
proof -
  let ?new = "new_ctx sha cfg body (take n full) d t r cp cap deferred"
  obtain ctx1 st1 where sub: "substitute_longest_prefix ?new st = (ctx1, st1)" by fastforce
  have "\<not> rq_compacted ?new" by (simp add: new_ctx_def Let_def)
  note ok1 = substitute_ok [OF new_ctx_ok assms(3) this sub]
  obtain ctx2 st2 where set: "settle sha cfg (refresh_estimate ctx1) st1 = (ctx2, st2)" by fastforce
  have "request_ok d full (refresh_estimate ctx1)" using ok1(1) by simp
  note ok2 = settle_ok [OF assms(1,2) this ok1(2) set]
  have "ctx' = refresh_evidence sha ctx2" "st' = st2"
    using assms(4,5) sub set by (simp_all add: prepare_policy_settle)
  then show ?thesis using ok2 by (simp only: request_ok_refresh)
qed

lemma reactive_loop_ok:
  assumes "list_all json_ok full"
  shows "request_ok d full ctx \<Longrightarrow> store_fits d full st \<Longrightarrow> reactive_loop sha cfg ctx st = (b, ctx', st') \<Longrightarrow>
    request_ok d full ctx' \<and> store_fits d full st'"
proof (induction sha cfg ctx st rule: reactive_loop.induct)
  case (1 sha cfg ctx st)
  define up where "up = ctx\<lparr>rq_rung := rq_rung ctx + 1\<rparr>"
  define tried where "tried = (if rq_rung up < 3
    then compact_chain sha cfg True (rung_cfg cfg (rq_rung up)) up st else truncate_summary sha up st)"
  have run: "reactive_loop sha cfg ctx st = (if rq_rung ctx < 3 then
      (case tried of Some (ctx, st) \<Rightarrow> (True, ctx, st) | None \<Rightarrow> reactive_loop sha cfg up st) else (False, ctx, st))"
    unfolding reactive_loop.simps [of sha cfg ctx st] Let_def up_def [symmetric] tried_def [symmetric]
    by (rule refl)
  have up: "request_ok d full up" using 1(2) by (simp add: up_def)
  have ok: "request_ok d full c \<and> store_fits d full s" if "tried = Some (c, s)" for c s
    using that truncate_summary_ok [OF up 1(3)]
      compact_chain_ok [OF _ assms up 1(3), of "rung_cfg cfg (rq_rung up)"]
    by (auto simp: tried_def rung_cfg_keeps split: if_splits)
  show ?case
  proof (cases "rq_rung ctx < 3")
    case False
    then show ?thesis using run 1(2-4) by simp
  next
    case True
    then show ?thesis using run 1(3,4) ok 1(1) [OF True up_def tried_def _ up]
      by (cases tried) (auto split: prod.splits)
  qed
qed

lemma reactive_ok:
  assumes "0 < keep_recent cfg" "list_all json_ok full" "request_ok d full ctx" "store_fits d full st"
    and "reactive sha cfg ctx st = (b, ctx', st')"
  shows "request_ok d full ctx' \<and> store_fits d full st'"
proof -
  define first where "first = (if \<not> rq_compacted ctx \<and> rq_rung ctx = 0
    then compact_chain sha cfg True (cfg\<lparr>keep_tail_percent := 0\<rparr>) ctx st else None)"
  have "reactive sha cfg ctx st = (case first of Some (ctx, st) \<Rightarrow> (True, ctx, st)
      | None \<Rightarrow> reactive_loop sha cfg ctx st)"
    by (simp add: reactive_def first_def Let_def)
  moreover have "request_ok d full c \<and> store_fits d full s" if "first = Some (c, s)" for c s
    using that compact_chain_ok [OF _ assms(2-4), of "cfg\<lparr>keep_tail_percent := 0\<rparr>"] assms(1)
    by (auto simp: first_def split: if_splits)
  moreover have "first = None \<Longrightarrow> reactive_loop sha cfg ctx st = (b, ctx', st')"
    using calculation(1) assms(5) by simp
  ultimately show ?thesis using assms(5) reactive_loop_ok [OF assms(2-4)]
    by (cases first) (auto split: prod.splits)
qed

lemma publish_ok:
  assumes "request_ok d full ctx" "store_fits d full st" "publish_prepared available ctx st = (ctx', st')"
  shows "request_ok d full ctx' \<and> store_fits d full st'"
proof (cases "rq_deferred ctx")
  case (Some p)
  then have "list_all (\<lambda>(k, e). entry_ok d full e) p" using assms(1) by (simp add: request_ok_def)
  then have "store_fits d full (fold (\<lambda>(k, e). store_put k e) p st)"
    using assms(2) lru.puts [of st "\<lambda>k e. entry_ok d full e" p] by (simp add: store_fits_def)
  moreover have "request_ok d full (ctx\<lparr>rq_deferred := Some []\<rparr>)"
    using assms(1) by (simp add: request_ok_def split: option.split_asm)
  ultimately show ?thesis using assms Some by (auto simp: publish_prepared_def)
qed (use assms in \<open>simp add: publish_prepared_def\<close>)

section \<open>The conversation\<close>

text \<open>The requests in flight and the store. A request carries any prefix of the history; several may be
  in flight, and any of them may be retried, published or dropped at any time.\<close>

inductive served ::
  "(ustr \<Rightarrow> ustr) \<Rightarrow> cliff_config \<Rightarrow> dialect \<Rightarrow> json list \<Rightarrow> request_ctx list \<Rightarrow> prefix_store \<Rightarrow> bool"
  for sha cfg d full where
  started: "served sha cfg d full [] (new_store max_entries max_bytes)"
| prepared: "served sha cfg d full ctxs st \<Longrightarrow> history_of body d = Some (take n full) \<Longrightarrow>
    prepare_policy sha cfg body d threshold ratio caller_policy capacity deferred st = Some (ctx, st') \<Longrightarrow>
    served sha cfg d full (ctx # ctxs) st'"
| retried: "served sha cfg d full (ctxs @ ctx # rest) st \<Longrightarrow> reactive sha cfg ctx st = (b, ctx', st') \<Longrightarrow>
    served sha cfg d full (ctxs @ ctx' # rest) st'"
| published: "served sha cfg d full (ctxs @ ctx # rest) st \<Longrightarrow>
    publish_prepared available ctx st = (ctx', st') \<Longrightarrow> served sha cfg d full (ctxs @ ctx' # rest) st'"
| dropped: "served sha cfg d full (ctxs @ ctx # rest) st \<Longrightarrow> served sha cfg d full (ctxs @ rest) st"

lemma served_ok:
  assumes "served sha cfg d full ctxs st" "0 < keep_recent cfg" "list_all json_ok full"
  shows "list_all (request_ok d full) ctxs \<and> store_fits d full st"
  using assms(1)
proof (induction rule: served.induct)
  case (started max_entries max_bytes)
  then show ?case using reachable_store_inv [OF reachable_store.created, of max_entries max_bytes]
    by (simp add: store_fits_def holds_all_def store_lookup_def new_store_def)
next
  case (prepared ctxs st body n threshold ratio caller_policy capacity deferred ctx st')
  then show ?case using prepare_ok [OF assms(2,3) _ prepared(2,3)] by simp
next
  case (retried ctxs ctx rest st b ctx' st')
  then show ?case using reactive_ok [OF assms(2,3) _ _ retried(2)] by simp
next
  case (published ctxs ctx rest st available ctx' st')
  then show ?case using publish_ok [OF _ _ published(2)] by simp
qed simp

text \<open>C7: Whatever the order of requests, retries, publications and drops in a conversation, every
  request in flight is the history itself or a head without model turns, one summary that the next
  step will recognise, and a suffix of the history that begins at a model turn. In particular no
  message of the history is lost other than those the summary stands for.\<close>

theorem served_requests_spliced:
  assumes "served sha cfg d full ctxs st" "0 < keep_recent cfg" "list_all json_ok full" "ctx \<in> set ctxs"
  shows "rq_msgs ctx = out_messages ctx \<or>
    (\<exists>h c s. out_messages ctx = take h (rq_msgs ctx) @ [s] @ drop c (rq_msgs ctx) \<and>
      h < c \<and> c \<le> length (rq_msgs ctx) \<and> is_summary d s \<and>
      list_all (\<lambda>m. \<not> is_assistant d m) (take h (rq_msgs ctx)) \<and>
      (c = length (rq_msgs ctx) \<or> starts_turn d (rq_msgs ctx) c))"
proof -
  have "request_ok d full ctx" using served_ok [OF assms(1-3)] assms(4) by (simp add: list_all_iff)
  then show ?thesis
    by (auto simp: request_ok_def out_messages_def spliced_def cut_ok_def summary_ok_def split: option.splits)
qed

lemma spliced_pairing:
  assumes d: "d \<noteq> Responses" and ok: "spliced d msgs h c ms" and intact: "pairing_intact msgs d"
  shows "pairing_intact ms d"
proof -
  obtain s where s: "summary_ok d s" "cut_ok d msgs h c" and ms: "ms = take h msgs @ [s] @ drop c msgs"
    using ok by (auto simp: spliced_def)
  have role: "str_field s (lit ''role'') = lit ''user''" and free: "tool_free d s"
    using s(1) summary_role by (auto simp: summary_ok_def simp del: lit_Cons)
  have head: "\<forall>m \<in> set (take h msgs). \<not> is_assistant d m" using s(2) by (simp add: cut_ok_def list_all_iff)
  have cut: "c = length msgs \<or> c < length msgs \<and> 0 < c \<and> is_assistant d (msgs ! c) \<and>
      \<not> is_assistant d (msgs ! (c - 1))"
    using s(2) by (auto simp: cut_ok_def starts_turn_def)
  show ?thesis
  proof (cases d)
    case Anthropic
    then show ?thesis using ant_pairing_kept [OF _ _ _ role, of msgs h c] intact head cut free ms
      by (simp add: pairing_intact_def)
  next
    case ChatCompletions
    then show ?thesis using chat_pairing_kept [OF _ _ _ role, of msgs h c] intact head cut ms
      by (auto simp: pairing_intact_def)
  qed (use d in simp)
qed

text \<open>C2: No request of such a conversation breaks the pairing of tool calls and results: on the
  Anthropic and Chat Completions dialects, when the history of a request is intact, so is the
  request sent, through substituted prefixes, replayed compactions, retries and truncated
  summaries.\<close>

theorem served_requests_paired:
  assumes "served sha cfg d full ctxs st" "0 < keep_recent cfg" "list_all json_ok full" "ctx \<in> set ctxs"
    and "d \<noteq> Responses" "pairing_intact (rq_msgs ctx) d"
  shows "pairing_intact (out_messages ctx) d"
proof -
  have "request_ok d full ctx" using served_ok [OF assms(1-3)] assms(4) by (simp add: list_all_iff)
  then show ?thesis using spliced_pairing [OF assms(5) _ assms(6)] assms(6)
    by (auto simp: request_ok_def out_messages_def split: option.splits)
qed

end
