(* ===== verification/Measured.thy ===== *)
theory Measured
  imports Served
begin

text \<open>
  The estimate the engine decides on is the estimate of the request it sends: the sizes kept per
  message add up to the billable size of the outgoing body (\<open>billable_chars\<close> of \<open>request/mod.rs\<close>,
  \<open>refresh_estimate\<close> and \<open>outgoing_body\<close> of \<open>request/engine.rs\<close>).
\<close>

section \<open>Billable sizes add up\<close>

definition ascii_payloads :: "json \<Rightarrow> bool" where
  "ascii_payloads v \<longleftrightarrow> list_all (list_all (\<lambda>c. c < 128)) (payloads v)"

definition payload_len :: "ustr list \<Rightarrow> nat" where
  "payload_len ps = sum_list (map str_len ps)"

definition payload_price :: "ustr list \<Rightarrow> nat" where
  "payload_price ps = sum_list (map (\<lambda>p. tokens_for_payload p * 4) ps)"

lemma payload_sums [simp]:
  "payload_len [] = 0" "payload_len (a @ b) = payload_len a + payload_len b"
  "payload_price [] = 0" "payload_price (a @ b) = payload_price a + payload_price b"
  by (simp_all add: payload_len_def payload_price_def)

lemma fold_bill_payload:
  "payload_len ps \<le> n \<Longrightarrow> fold bill_payload ps n + payload_len ps = n + payload_price ps"
proof (induction ps arbitrary: n)
  case (Cons p ps)
  then have "payload_len ps \<le> bill_payload p n" "str_len p \<le> n"
    by (simp_all add: payload_len_def bill_payload_def)
  then show ?case using Cons.IH [of "bill_payload p n"]
    by (simp add: payload_len_def payload_price_def bill_payload_def)
qed simp

lemma string_chars_ge: "length s \<le> string_chars s"
  by (induction s) auto

lemma json_chars_field: "json_get v k = Some w \<Longrightarrow> json_chars w \<le> json_chars v"
proof -
  assume "json_get v k = Some w"
  then obtain kvs where v: "v = JObj kvs" "map_of kvs k = Some w"
    by (cases v) (auto simp: json_get_def)
  then have "(k, w) \<in> set kvs" by (simp add: map_of_SomeD)
  then have "string_chars k + 2 + json_chars w \<in> set (map (\<lambda>(k, v). string_chars k + 2 + json_chars v) kvs)"
    by force
  from member_le_sum_list [OF this] show ?thesis unfolding v(1) by simp
qed

lemma get_str_chars: "get_str v k = Some s \<Longrightarrow> length s \<le> json_chars v"
proof -
  assume "get_str v k = Some s"
  then have "json_get v k = Some (JStr s)"
  proof (cases "json_get v k")
    case (Some w)
    then show ?thesis using \<open>get_str v k = Some s\<close> by (cases w) (simp_all add: get_str_def as_str_def)
  qed (simp add: get_str_def)
  from json_chars_field [OF this] show ?thesis using string_chars_ge [of s] by simp
qed

lemma image_payload_chars: "image_payload v = Some p \<Longrightarrow> length p \<le> json_chars v"
proof -
  assume p: "image_payload v = Some p"
  then consider source where "json_get v (lit ''source'') = Some source" "get_str source (lit ''data'') = Some p"
    | w where "json_get v (lit ''image_url'') = Some w" "w = JStr p \<or> get_str w (lit ''url'') = Some p"
    by (auto simp: image_payload_def bind_eq_Some_conv simp del: lit_Cons
      split: option.splits if_splits json.splits)
  then show ?thesis
  proof cases
    case 1
    then show ?thesis using get_str_chars [OF 1(2)] json_chars_field [OF 1(1)] by simp
  next
    case 2
    have "length p \<le> json_chars w"
      using 2(2) get_str_chars [of w "lit ''url''" p] string_chars_ge [of p] by auto
    then show ?thesis using json_chars_field [OF 2(1)] by simp
  qed
qed

lemma payload_len_le: "ascii_payloads v \<Longrightarrow> payload_len (payloads v) \<le> json_chars v"
proof (induction v rule: payloads.induct)
  case (1 kvs)
  show ?case
  proof (cases "image_payload (JObj kvs)")
    case (Some p)
    then have "str_len p = length p" using 1 by (simp add: ascii_payloads_def str_len_ascii)
    then show ?thesis using Some image_payload_chars [OF Some] by (simp add: payload_len_def)
  next
    case None
    have "payload_len (concat (map (\<lambda>(k, v). payloads v) xs)) \<le>
        sum_list (map (\<lambda>(k, v). string_chars k + 2 + json_chars v) xs)" if "set xs \<subseteq> set kvs" for xs
      using that
    proof (induction xs)
      case (Cons x xs)
      obtain k v where x: "x = (k, v)" by (cases x)
      have "ascii_payloads v" using Cons.prems 1(2) None x by (auto simp: ascii_payloads_def list_all_iff)
      then have "payload_len (payloads v) \<le> json_chars v" using 1(1) [OF None, of "(k, v)" k v] Cons.prems x by auto
      then show ?case using Cons x by simp
    qed simp
    from this [of kvs] show ?thesis using None by simp
  qed
next
  case (2 vs)
  have "payload_len (concat (map payloads xs)) \<le> sum_list (map json_chars xs)" if "set xs \<subseteq> set vs" for xs
    using that
  proof (induction xs)
    case (Cons x xs)
    then have "ascii_payloads x" using 2(2) by (auto simp: ascii_payloads_def list_all_iff)
    then show ?case using Cons 2(1) [of x] by simp
  qed simp
  from this [of vs] show ?case by simp
qed simp_all

lemma billable_exact:
  "ascii_payloads v \<Longrightarrow> billable_chars v + payload_len (payloads v) = json_chars v + payload_price (payloads v)"
  unfolding billable_chars_def by (rule fold_bill_payload) (rule payload_len_le)

lemma map_of_obj_insert: "map_of (obj_insert k v kvs) = (map_of kvs)(k \<mapsto> v)"
  by (induction k v kvs rule: obj_insert.induct) auto

definition field_payloads :: "json_map \<Rightarrow> ustr list" where
  "field_payloads kvs = concat (map (\<lambda>(k, v). payloads v) kvs)"

definition field_chars :: "json_map \<Rightarrow> nat" where
  "field_chars kvs = sum_list (map (\<lambda>(k, v). string_chars k + 2 + json_chars v) kvs)"

lemma insert_messages:
  assumes "map_of kvs k = Some (JArr [])"
  shows "length (obj_insert k (JArr ms) kvs) = length kvs"
    "field_chars (obj_insert k (JArr ms) kvs) + 2 = field_chars kvs + json_chars (JArr ms)"
    "payload_len (field_payloads (obj_insert k (JArr ms) kvs)) =
      payload_len (field_payloads kvs) + payload_len (concat (map payloads ms))"
    "payload_price (field_payloads (obj_insert k (JArr ms) kvs)) =
      payload_price (field_payloads kvs) + payload_price (concat (map payloads ms))"
    "set (field_payloads kvs) \<union> set (concat (map payloads ms)) \<subseteq> set (field_payloads (obj_insert k (JArr ms) kvs))"
  using assms
  by (induction k "JArr ms" kvs rule: obj_insert.induct)
    (auto simp: field_chars_def field_payloads_def split: if_splits)

lemma billable_messages:
  assumes "list_all ascii_payloads ms"
  shows "sum_list (map message_chars ms) + payload_len (concat (map payloads ms)) =
    sum_list (map json_chars ms) + 2 * length ms + payload_price (concat (map payloads ms))"
  using assms
proof (induction ms)
  case (Cons m ms)
  then show ?case using billable_exact [of m] by (simp add: message_chars_def)
qed simp

text \<open>The size of a body with its messages is the size without them plus what each message counts for.\<close>

lemma billable_body:
  assumes "map_of body k = Some (JArr [])" "image_payload (JObj body) = None" "ms \<noteq> []"
    and key: "k \<notin> {lit ''type'', lit ''source'', lit ''image_url''}"
    and ascii: "ascii_payloads (JObj (obj_insert k (JArr ms) body))"
  shows "billable_chars (JObj (obj_insert k (JArr ms) body)) + 2 =
    billable_chars (JObj body) + sum_list (map message_chars ms)"
proof -
  let ?out = "obj_insert k (JArr ms) body"
  note ins = insert_messages [OF assms(1), of ms]
  have none: "image_payload (JObj ?out) = None"
  proof -
    have same: "json_get (JObj ?out) x = json_get (JObj body) x" if "x \<noteq> k" for x
      using that by (simp add: json_get_def map_of_obj_insert)
    have "lit ''type'' \<noteq> k" "lit ''source'' \<noteq> k" "lit ''image_url'' \<noteq> k" using key by auto
    note this [THEN same]
    then show ?thesis using assms(2) unfolding image_payload_def get_str_def by (simp only:)
  qed
  have pay: "payloads (JObj ?out) = field_payloads ?out" "payloads (JObj body) = field_payloads body"
    using none assms(2) by (simp_all add: field_payloads_def)
  have chars: "json_chars (JObj kvs) = 2 + field_chars kvs + 2 * (length kvs - 1)" for kvs
    by (simp add: field_chars_def)
  have "ascii_payloads (JObj body)" "list_all ascii_payloads ms"
    using ascii ins(5) unfolding ascii_payloads_def pay by (auto simp: list_all_iff)
  note exact = billable_exact [OF ascii] billable_exact [OF this(1)] billable_messages [OF this(2)]
  have "length ms = Suc (length ms - 1)" using assms(3) by simp
  then show ?thesis using exact ins(2) unfolding pay chars ins(1,3,4) by simp
qed

section \<open>What a request keeps\<close>

definition measured :: "dialect \<Rightarrow> request_ctx \<Rightarrow> bool" where
  "measured d ctx \<longleftrightarrow> rq_fixed_chars ctx = billable_chars (JObj (rq_body ctx)) \<and>
     map_of (rq_body ctx) (messages_key d) = Some (JArr []) \<and> rq_msgs ctx \<noteq> []"

text \<open>The fields no operation on a request changes.\<close>

definition kept :: "request_ctx \<Rightarrow> json_map \<times> json list \<times> nat \<times> nat" where
  "kept ctx = (rq_body ctx, rq_msgs ctx, rq_fixed_chars ctx, rq_est_fixed ctx)"

lemma measured_kept: "kept a = kept b \<Longrightarrow> measured d a = measured d b"
  by (simp add: kept_def measured_def)

definition fresh :: "request_ctx \<Rightarrow> bool" where
  "fresh ctx \<longleftrightarrow> rq_est_out ctx = tokens_of ctx (out_sizes ctx) \<and>
     rq_over_budget ctx = (unat (rq_threshold ctx) < rq_est_out ctx)"

lemma refresh_out [simp]:
  "out_sizes (refresh_estimate ctx) = out_sizes ctx" "out_sizes (refresh_evidence sha ctx) = out_sizes ctx"
  "tokens_of (refresh_estimate ctx) ns = tokens_of ctx ns" "tokens_of (refresh_evidence sha ctx) ns = tokens_of ctx ns"
  unfolding out_sizes_def tokens_of_def refresh_fields by (rule refl)+

lemma fresh_refresh: "fresh (refresh_estimate ctx)" "fresh (refresh_evidence sha ctx) = fresh ctx"
proof -
  show "fresh (refresh_estimate ctx)" unfolding fresh_def refresh_out refresh_fields
    by (simp add: refresh_estimate_def Let_def case_prod_beta)
  show "fresh (refresh_evidence sha ctx) = fresh ctx" unfolding fresh_def refresh_out refresh_fields by (rule refl)
qed

lemma kept_refresh [simp]: "kept (refresh_estimate ctx) = kept ctx" "kept (refresh_evidence sha ctx) = kept ctx"
  by (simp_all add: kept_def) (simp_all add: refresh_estimate_def refresh_evidence_def Let_def case_prod_beta)

lemma fresh_update [simp]:
  "fresh (ctx\<lparr>rq_rung := r\<rparr>) = fresh ctx" "fresh (ctx\<lparr>rq_deferred := p\<rparr>) = fresh ctx"
  by (simp_all add: fresh_def out_sizes_def tokens_of_def split: option.split)

lemma kept_update [simp]:
  "kept (ctx\<lparr>rq_rung := r\<rparr>) = kept ctx" "kept (ctx\<lparr>rq_deferred := p\<rparr>) = kept ctx"
  "kept (ctx\<lparr>rq_over_budget := b\<rparr>) = kept ctx"
  by (simp_all add: kept_def)

lemma remember_measured:
  "kept (fst (remember ctx k e st)) = kept ctx" "fresh (fst (remember ctx k e st)) = fresh ctx"
  by (simp_all add: remember_def split: option.split)

lemma compacted_measured: "fresh (compacted_ctx sha ctx rp)" "kept (compacted_ctx sha ctx rp) = kept ctx"
  by (simp_all add: compacted_ctx_def fresh_refresh) (simp add: kept_def)

lemma truncated_measured:
  "fresh (truncated_ctx sha ctx s b)" "kept (truncated_ctx sha ctx s b) = kept ctx"
  by (simp_all add: truncated_ctx_def Let_def fresh_refresh) (simp add: kept_def)

lemma step_measured:
  "compact_chain sha cfg force knobs ctx st = Some (ctx', st') \<Longrightarrow> fresh ctx' \<and> kept ctx' = kept ctx"
  "truncate_summary sha ctx st = Some (ctx', st') \<Longrightarrow> fresh ctx' \<and> kept ctx' = kept ctx"
proof -
  have rem: "fresh ctx1 \<and> kept ctx1 = kept ctx \<Longrightarrow> remember ctx1 k e st = (ctx', st') \<Longrightarrow>
      fresh ctx' \<and> kept ctx' = kept ctx" for ctx1 k e
    using remember_measured(1) [of ctx1 k e st] remember_measured(2) [of ctx1 k e st] by simp
  show "compact_chain sha cfg force knobs ctx st = Some (ctx', st') \<Longrightarrow> fresh ctx' \<and> kept ctx' = kept ctx"
    by (auto simp: compact_chain_def Let_def compacted_measured split: option.splits dest!: rem [rotated])
  show "truncate_summary sha ctx st = Some (ctx', st') \<Longrightarrow> fresh ctx' \<and> kept ctx' = kept ctx"
    unfolding truncate_summary_def Let_def
    by (auto simp: truncated_measured split: option.splits if_splits dest!: rem [rotated])
qed

lemma escalate_measured:
  "fresh ctx \<Longrightarrow> escalate sha cfg rungs ctx st = (ctx', st') \<Longrightarrow> fresh ctx' \<and> kept ctx' = kept ctx"
proof (induction rungs arbitrary: ctx st)
  case (Cons rung rungs)
  define tried where "tried = (if rung = 3 then truncate_summary sha ctx st
    else compact_chain sha cfg True (rung_cfg cfg rung) ctx st)"
  have run: "escalate sha cfg (rung # rungs) ctx st =
      (if rq_est_out ctx \<le> unat (rq_threshold ctx) then (ctx, st)
       else case tried of Some (ctx, st) \<Rightarrow> escalate sha cfg rungs (ctx\<lparr>rq_rung := rung\<rparr>) st
         | None \<Rightarrow> escalate sha cfg rungs ctx st)"
    by (simp add: tried_def)
  have ok: "fresh c \<and> kept c = kept ctx" if "tried = Some (c, s)" for c s
    using that step_measured by (auto simp: tried_def split: if_splits)
  show ?case
  proof (cases tried)
    case None
    then show ?thesis using run Cons by (auto split: if_splits)
  next
    case (Some r)
    obtain c s where r: "r = (c, s)" by (cases r)
    then show ?thesis using run Cons.IH [of "c\<lparr>rq_rung := rung\<rparr>" s] Cons.prems ok Some by (auto split: if_splits)
  qed
qed simp

lemma settle_measured:
  assumes "fresh ctx" "settle sha cfg ctx st = (ctx', st')"
  shows "fresh ctx' \<and> kept ctx' = kept ctx"
proof (cases "unat (rq_threshold ctx) < rq_est_out ctx")
  case True
  obtain ctx1 st1 where one: "(case compact_chain sha cfg False cfg ctx st of Some r \<Rightarrow> r | None \<Rightarrow> (ctx, st)) = (ctx1, st1)"
    by fastforce
  have ok1: "fresh ctx1 \<and> kept ctx1 = kept ctx"
    using one assms(1) step_measured(1) [of sha cfg False cfg ctx st ctx1 st1] by (auto split: option.splits)
  obtain ctx2 st2 where two: "escalate sha cfg (if strict cfg then [1, 2, 3] else [1, 2]) ctx1 st1 = (ctx2, st2)"
    by fastforce
  have ok2: "fresh ctx2 \<and> kept ctx2 = kept ctx"
    using escalate_measured [OF _ two] ok1 by auto
  then have "ctx2\<lparr>rq_over_budget := unat (rq_threshold ctx2) < rq_est_out ctx2\<rparr> = ctx2"
    by (intro request_ctx.equality) (simp_all add: fresh_def)
  then show ?thesis using ok2 assms(2) True one two by (auto simp: settle_def simp del: escalate.simps)
qed (use assms in \<open>simp add: settle_def\<close>)

lemma messages_key_cases: "messages_key d \<in> {lit ''messages'', lit ''input''}"
  by (simp add: messages_key_def split: dialect.split)

lemma prepare_kept:
  assumes "prepare_policy sha cfg body d t r cp cap deferred st = Some (ctx', st')"
    and msgs: "history_of body d = Some msgs"
  shows "fresh ctx'" "kept ctx' = kept (new_ctx sha cfg body msgs d t r cp cap deferred)"
proof -
  let ?new = "new_ctx sha cfg body msgs d t r cp cap deferred"
  obtain ctx1 st1 where sub: "substitute_longest_prefix ?new st = (ctx1, st1)" by fastforce
  then have one: "kept ctx1 = kept ?new"
    by (auto simp: substitute_longest_prefix_def substitute_entry_def kept_def split: option.splits prod.splits)
  obtain ctx2 st2 where set: "settle sha cfg (refresh_estimate ctx1) st1 = (ctx2, st2)" by fastforce
  have two: "fresh ctx2 \<and> kept ctx2 = kept ctx1"
    using settle_measured [OF fresh_refresh(1) set] by simp
  have "ctx' = refresh_evidence sha ctx2" using assms sub set by (simp add: prepare_policy_settle)
  then show "fresh ctx'" "kept ctx' = kept ?new" using one two by (simp_all add: fresh_refresh)
qed

lemma prepare_measured:
  assumes "prepare_policy sha cfg body d t r cp cap deferred st = Some (ctx', st')"
  shows "fresh ctx' \<and> measured d ctx'"
proof -
  obtain msgs where msgs: "history_of body d = Some msgs" using assms by (auto simp: prepare_policy_settle)
  then have body: "map_of body (messages_key d) \<noteq> None" "msgs \<noteq> []"
    by (auto simp: history_of_def split: option.splits json.splits if_splits)
  have "map_of (update_field k f kvs) k = map_option f (map_of kvs k)" for k f kvs
    by (induction kvs) (auto simp: update_field_def)
  then have new: "measured d (new_ctx sha cfg body msgs d t r cp cap deferred)"
    using body by (simp add: measured_def new_ctx_def Let_def)
  show ?thesis using prepare_kept [OF assms msgs] new measured_kept by metis
qed

lemma reactive_loop_measured:
  "fresh ctx \<Longrightarrow> reactive_loop sha cfg ctx st = (b, ctx', st') \<Longrightarrow> fresh ctx' \<and> kept ctx' = kept ctx"
proof (induction sha cfg ctx st rule: reactive_loop.induct)
  case (1 sha cfg ctx st)
  define up where "up = ctx\<lparr>rq_rung := rq_rung ctx + 1\<rparr>"
  define tried where "tried = (if rq_rung up < 3
    then compact_chain sha cfg True (rung_cfg cfg (rq_rung up)) up st else truncate_summary sha up st)"
  have run: "reactive_loop sha cfg ctx st = (if rq_rung ctx < 3 then
      (case tried of Some (ctx, st) \<Rightarrow> (True, ctx, st) | None \<Rightarrow> reactive_loop sha cfg up st) else (False, ctx, st))"
    unfolding reactive_loop.simps [of sha cfg ctx st] Let_def up_def [symmetric] tried_def [symmetric]
    by (rule refl)
  have up: "fresh up" "kept up = kept ctx" using 1(2) by (simp_all add: up_def)
  have ok: "fresh c \<and> kept c = kept up" if "tried = Some (c, s)" for c s
    using that step_measured by (auto simp: tried_def split: if_splits)
  show ?case
  proof (cases "rq_rung ctx < 3")
    case False
    then show ?thesis using run 1(2,3) by simp
  next
    case True
    then show ?thesis using run 1(3) ok up 1(1) [OF True up_def tried_def _ up(1)]
      by (cases tried) (auto split: prod.splits)
  qed
qed

lemma reactive_measured:
  assumes "fresh ctx" "reactive sha cfg ctx st = (b, ctx', st')"
  shows "fresh ctx' \<and> kept ctx' = kept ctx"
proof -
  define first where "first = (if \<not> rq_compacted ctx \<and> rq_rung ctx = 0
    then compact_chain sha cfg True (cfg\<lparr>keep_tail_percent := 0\<rparr>) ctx st else None)"
  have run: "reactive sha cfg ctx st = (case first of Some (ctx, st) \<Rightarrow> (True, ctx, st)
      | None \<Rightarrow> reactive_loop sha cfg ctx st)"
    by (simp add: reactive_def first_def Let_def)
  show ?thesis
  proof (cases first)
    case None
    then have "reactive_loop sha cfg ctx st = (b, ctx', st')" using run assms(2) by simp
    from reactive_loop_measured [OF assms(1) this] show ?thesis .
  next
    case (Some r)
    then have "r = (ctx', st')" using run assms(2) by (auto split: prod.splits)
    then show ?thesis using Some step_measured(1) by (auto simp: first_def split: if_splits)
  qed
qed

lemma served_measured:
  assumes "served sha cfg d full ctxs st"
  shows "list_all (\<lambda>ctx. fresh ctx \<and> measured d ctx) ctxs"
  using assms
proof (induction rule: served.induct)
  case (prepared ctxs st body n threshold ratio caller_policy capacity deferred ctx st')
  then show ?case using prepare_measured [OF prepared(3)] by simp
next
  case (retried ctxs ctx rest st b ctx' st')
  then have "fresh ctx" "measured d ctx" by simp_all
  moreover have "fresh ctx' \<and> kept ctx' = kept ctx" by (rule reactive_measured [OF \<open>fresh ctx\<close> retried(2)])
  ultimately show ?case using retried measured_kept [of ctx' ctx] by simp
next
  case (published ctxs ctx rest st available ctx' st')
  then have "fresh ctx'" "kept ctx' = kept ctx" by (auto simp: publish_prepared_def split: option.splits)
  then show ?case using published measured_kept [of ctx' ctx] by simp
qed simp_all

text \<open>C9: The engine decides on the size of what it sends: for every request in flight the estimate is
  that of the outgoing body itself, as its serialization is billed (two characters more, for the
  separators are counted per message), and the request is flagged as over budget exactly when that
  estimate exceeds its threshold. This needs image payloads of ASCII characters, as base64 is, and a
  body that is not itself an image.\<close>

theorem served_estimate_exact:
  assumes "served sha cfg d full ctxs st" "0 < keep_recent cfg" "list_all json_ok full" "ctx \<in> set ctxs"
    and "image_payload (JObj (rq_body ctx)) = None" "ascii_payloads (outgoing_body ctx)"
  shows "rq_est_out ctx = (billable_chars (outgoing_body ctx) + 2) div 4 \<and>
    rq_over_budget ctx = (unat (rq_threshold ctx) < (billable_chars (outgoing_body ctx) + 2) div 4)"
proof -
  have ok: "request_ok d full ctx" using served_ok [OF assms(1-3)] assms(4) by (simp add: list_all_iff)
  have m: "fresh ctx" "measured d ctx" using served_measured [OF assms(1)] assms(4) by (simp_all add: list_all_iff)
  have d: "rq_dialect ctx = d" using ok by (simp add: request_ok_def)
  have key: "messages_key d \<notin> {lit ''type'', lit ''source'', lit ''image_url''}"
    using messages_key_cases [of d] by auto
  have ne: "out_messages ctx \<noteq> []" using ok m(2)
    by (auto simp: request_ok_def measured_def out_messages_def spliced_def split: option.splits)
  have body: "outgoing_body ctx = JObj (obj_insert (messages_key d) (JArr (out_messages ctx)) (rq_body ctx))"
    by (simp add: outgoing_body_def d)
  have "map_of (rq_body ctx) (messages_key d) = Some (JArr [])" using m(2) by (simp add: measured_def)
  from billable_body [OF this assms(5) ne key] assms(6)
  have "billable_chars (outgoing_body ctx) + 2 = rq_fixed_chars ctx + sum_list (out_sizes ctx)"
    using m(2) out_sizes_exact [OF ok] unfolding body by (simp add: measured_def)
  then show ?thesis using m(1) by (simp add: fresh_def tokens_of_def)
qed

end
