(* ===== verification/Conversation.thy ===== *)
theory Conversation
  imports Measured
begin

text \<open>
  A concrete conversation: the engine passes a short Chat Completions history through unchanged, the
  provider refuses it, and the retry compacts it. The properties of a conversation apply to it.
\<close>

section \<open>Steps that change nothing\<close>

lemma find_prefix_empty: "find_prefix ctx n (new_store a b) = (None, new_store a b)"
  by (induction n) (simp_all add: store_get_def new_store_def)

text \<open>While the running size stays within the threshold the replay only collects the messages.\<close>

lemma feed_loop_quiet:
  "chars + sum_list (map snd feed) \<le> threshold_chars ctx \<Longrightarrow>
     feed_loop sha ctx knobs b feed chars rp =
       Some (rp\<lparr>rp_working := rp_working rp @ map fst feed, rp_sizes := rp_sizes rp @ map snd feed\<rparr>)"
proof (induction feed arbitrary: chars rp)
  case (Cons x feed)
  obtain m n where x: "x = (m, n)" by (cases x)
  then have "\<not> threshold_chars ctx < chars + n" "chars + n + sum_list (map snd feed) \<le> threshold_chars ctx"
    using Cons.prems by simp_all
  then show ?case using Cons.IH [of "chars + n"] x by (simp add: Let_def)
qed simp

lemma forced_compaction:
  assumes "request_ok d full ctx" "list_all json_ok full" "0 < keep_recent knobs" "rq_base_cut ctx = 0"
    and small: "rq_fixed_chars ctx + sum_list (rq_msg_chars ctx) \<le> threshold_chars ctx"
    and some: "\<And>budget carry_budget. compact_within (rq_msgs ctx) d knobs budget [] carry_budget \<noteq> None"
  shows "\<exists>ctx' st'. compact_chain sha cfg True knobs ctx st = Some (ctx', st') \<and> rq_msgs ctx' = rq_msgs ctx"
proof -
  have d: "rq_dialect ctx = d" and chars: "rq_msg_chars ctx = map message_chars (rq_msgs ctx)"
    and json: "list_all json_ok (rq_msgs ctx)"
    using assms(1,2) by (auto simp: request_ok_def list_all_iff dest!: in_set_takeD)
  let ?b = "budgets_of cfg knobs ctx" and ?n = "length (rq_msgs ctx)"
  define rp where "rp = (start_replay ctx)\<lparr>rp_working := rq_msgs ctx, rp_sizes := rq_msg_chars ctx\<rparr>"
  have start: "start_replay ctx = \<lparr>rp_working = [], rp_sizes = [], rp_head_len = 0, rp_orig_cut = 0,
      rp_have_summary = False, rp_last_summary = None, rp_steps = 0, rp_carry = [], rp_evidence = []\<rparr>"
    using assms(4) by (simp add: start_replay_def)
  have len: "length (rq_msgs ctx) = length (rq_msg_chars ctx)" using chars by simp
  have fed: "feed_loop sha ctx knobs ?b (zip (rq_msgs ctx) (rq_msg_chars ctx)) (rq_fixed_chars ctx) (start_replay ctx) = Some rp"
    by (subst feed_loop_quiet) (use small len in \<open>simp_all add: rp_def start\<close>)
  have ok: "replay_ok d (rq_msgs ctx) ?n rp"
    by (simp add: replay_ok_def working_ok_def rp_def start chars)
  obtain r where r: "compact_within (rp_working rp) d knobs (sb_budget ?b) (rp_carry rp) (sb_carry ?b) = Some r"
    using some [of "sb_budget ?b" "sb_carry ?b"] by (auto simp: rp_def start)
  obtain rp' where a: "adopt sha rp r ?n d knobs (sb_evidence ?b) = Some rp'" "rp_last_summary rp' \<noteq> None"
    using adopt_ok [OF r assms(3) ok json] by blast
  have "rp_steps rp = 0" by (simp add: rp_def start)
  then have "run_replay sha cfg knobs True ctx = Some rp'"
    using fed r a(1) by (simp add: run_replay_def Let_def replay_compact_def d start)
  then show ?thesis using a(2)
    by (auto simp: compact_chain_def compacted_ctx_def remember_def Let_def split: option.split)
qed

section \<open>The conversation\<close>

definition chat_body :: json_map where
  "chat_body = [(lit ''messages'', JArr chat_history)]"

lemma chat_history_ok: "list_all json_ok chat_history" "list_all is_object chat_history" "chat_history \<noteq> []"
  by (simp_all add: chat_history_def said_def is_object_def)

lemma chat_history_intact: "pairing_intact chat_history ChatCompletions"
  by (simp add: pairing_intact_def chat_history_def field_defs tool_call_ids_def List.map_filter_def)

lemma chat_history_chars: "sum_list (map message_chars chat_history) \<le> 400"
  by (simp add: chat_history_def said_def message_chars_def billable_chars_def image_payload_def
    get_str_def json_get_def as_str_def)

lemma chat_history_payloads: "payloads (JObj [(lit ''messages'', JArr chat_history)]) = []"
  by (simp add: chat_history_def said_def image_payload_def get_str_def json_get_def as_str_def)

lemma chat_history_compacts:
  assumes "keep_recent cfg = 1"
  shows "compact_within chat_history ChatCompletions cfg budget carry cb \<noteq> None"
proof -
  let ?turns = "[(0, 2), (2, 4), (4, 5)] :: range list" and ?body = "drop 1 chat_history"
  let ?parts = "map (turn_summary ChatCompletions cfg ?body) (take (length ?turns - keep_recent cfg) ?turns)"
  let ?sect = "carry_section (bound_carry carry cb)"
  have le: "length ?parts \<le> length ?turns" by simp
  define split where "split = choose_split ChatCompletions ?body ?turns ?parts ?sect budget"
  have "split \<le> 2" "split < 2 \<Longrightarrow> 2 \<le> fst (?turns ! split)"
    using choose_split_spec [OF le split_def] assms by simp_all
  then have "split = 1 \<or> split = 2" by (cases split) auto
  then have cut: "cut_of ?body ?turns 1 split \<in> {3, 5}" by (auto simp: cut_of_def)
  show ?thesis
    using compact_within_None_iff [OF chat_history_cut(1) chat_history_cut(2) [symmetric] refl
      chat_history_cut(3) [symmetric] refl refl, of cfg budget carry cb] assms cut
    unfolding split_def by (auto simp: chat_history_def)
qed

definition chat_ctx :: request_ctx where
  "chat_ctx = refresh_estimate
     (new_ctx (\<lambda>s. s) keep_one chat_body chat_history ChatCompletions 1000 1000 [] None False)"

lemma chat_ctx_fields:
  "rq_msgs chat_ctx = chat_history" "rq_body chat_ctx = [(lit ''messages'', JArr [])]"
  "out_messages chat_ctx = chat_history" "rq_base_cut chat_ctx = 0" "rq_dialect chat_ctx = ChatCompletions"
  "rq_msg_chars chat_ctx = map message_chars chat_history" "\<not> rq_compacted chat_ctx" "rq_rung chat_ctx = 0"
  by (simp_all add: chat_ctx_def new_ctx_def Let_def chat_body_def messages_key_def update_field_def out_messages_def)

lemma chat_threshold: "1000 \<le> unat (rq_threshold chat_ctx)"
proof -
  have "calibrated_threshold 1000 1000 = 1000"
    by (simp add: calibrated_threshold_def Let_def MIN_RATIO_PERMILLE_def MAX_RATIO_PERMILLE_def)
  then have "1000 \<le> select_threshold 1000 1000 None n" for n by (simp add: select_threshold_def Let_def)
  then have "1000 \<le> rq_threshold chat_ctx"
    by (simp add: chat_ctx_def new_ctx_def Let_def MIN_RATIO_PERMILLE_def MAX_RATIO_PERMILLE_def)
  then show ?thesis by (simp add: word_le_nat_alt)
qed

lemma chat_fixed: "rq_fixed_chars chat_ctx \<le> 100"
  by (simp add: chat_ctx_def new_ctx_def Let_def chat_body_def messages_key_def update_field_def
    billable_chars_def image_payload_def get_str_def json_get_def as_str_def)

lemma chat_prepared:
  "prepare_policy (\<lambda>s. s) keep_one chat_body ChatCompletions 1000 1000 [] None False (new_store 0 0) =
     Some (chat_ctx, new_store 0 0)"
proof -
  have hist: "history_of chat_body ChatCompletions = Some chat_history"
    using chat_history_ok by (simp add: history_of_def chat_body_def messages_key_def)
  have "fresh chat_ctx" unfolding chat_ctx_def by (rule fresh_refresh)
  then have "rq_est_out chat_ctx = (rq_fixed_chars chat_ctx + sum_list (map message_chars chat_history)) div 4"
    by (simp add: fresh_def tokens_of_def out_sizes_def chat_ctx_fields(6) chat_ctx_def new_ctx_def Let_def)
  also have "\<dots> \<le> 500 div 4" using chat_fixed chat_history_chars by (intro div_le_mono) simp
  finally have small: "\<not> unat (rq_threshold chat_ctx) < rq_est_out chat_ctx" using chat_threshold by simp
  have "settle (\<lambda>s. s) keep_one chat_ctx st = (chat_ctx, st)" for st using small by (simp add: settle_def)
  moreover have "refresh_evidence (\<lambda>s. s) chat_ctx = chat_ctx" by (simp add: refresh_evidence_def chat_ctx_fields)
  ultimately show ?thesis
    unfolding prepare_policy_settle hist option.map Let_def substitute_longest_prefix_def find_prefix_empty
      prod.case option.case chat_ctx_def [symmetric] by simp
qed

lemma chat_served: "served (\<lambda>s. s) keep_one ChatCompletions chat_history [chat_ctx] (new_store 0 0)"
proof (rule served.prepared [OF served.started _ chat_prepared])
  show "history_of chat_body ChatCompletions = Some (take 6 chat_history)"
    using chat_history_ok by (simp add: history_of_def chat_body_def messages_key_def chat_history_def)
qed

lemma chat_retried:
  "\<exists>ctx st. served (\<lambda>s. s) keep_one ChatCompletions chat_history [ctx] st \<and> rq_compacted ctx \<and>
     rq_msgs ctx = chat_history"
proof -
  let ?knobs = "keep_one\<lparr>keep_tail_percent := 0\<rparr>" and ?st = "new_store 0 0"
  have keep: "keep_recent ?knobs = 1" by (simp add: keep_one_keeps)
  have ok: "request_ok ChatCompletions chat_history chat_ctx"
    using served_ok [OF chat_served] chat_history_ok(1) by (simp add: keep_one_keeps)
  have "unat (rq_threshold chat_ctx) < 2 ^ LENGTH(64)" by (rule unsigned_less)
  then have "unat (rq_threshold chat_ctx) \<le> threshold_chars chat_ctx"
    by (simp add: threshold_chars_def unat_sat_mul)
  then have "rq_fixed_chars chat_ctx + sum_list (rq_msg_chars chat_ctx) \<le> threshold_chars chat_ctx"
    using chat_fixed chat_history_chars chat_threshold by (simp add: chat_ctx_fields)
  then obtain ctx' st' where run: "compact_chain (\<lambda>s. s) keep_one True ?knobs chat_ctx ?st = Some (ctx', st')"
    "rq_msgs ctx' = chat_history"
    using forced_compaction [OF ok chat_history_ok(1), of ?knobs "\<lambda>s. s" keep_one ?st]
      chat_history_compacts [OF keep] keep by (auto simp: chat_ctx_fields)
  then have "reactive (\<lambda>s. s) keep_one chat_ctx ?st = (True, ctx', st')"
    by (simp add: reactive_def chat_ctx_fields)
  from served.retried [of _ _ _ _ "[]" chat_ctx "[]" ?st, OF _ this] chat_served
  have "served (\<lambda>s. s) keep_one ChatCompletions chat_history [ctx'] st'" by simp
  then show ?thesis using compact_chain_rung [OF run(1)] run(2) by blast
qed

theorem served_requests_spliced_witness:
  "\<exists>ctx st. served (\<lambda>s. s) keep_one ChatCompletions chat_history [ctx] st \<and> rq_compacted ctx \<and>
     (rq_msgs ctx = out_messages ctx \<or>
      (\<exists>h c s. out_messages ctx = take h (rq_msgs ctx) @ [s] @ drop c (rq_msgs ctx) \<and>
        h < c \<and> c \<le> length (rq_msgs ctx) \<and> is_summary ChatCompletions s \<and>
        list_all (\<lambda>m. \<not> is_assistant ChatCompletions m) (take h (rq_msgs ctx)) \<and>
        (c = length (rq_msgs ctx) \<or> starts_turn ChatCompletions (rq_msgs ctx) c)))"
proof -
  obtain ctx st where s: "served (\<lambda>s. s) keep_one ChatCompletions chat_history [ctx] st" "rq_compacted ctx"
    using chat_retried by blast
  from served_requests_spliced [OF s(1) _ chat_history_ok(1), of ctx] s show ?thesis
    by (auto simp: keep_one_keeps)
qed

theorem served_requests_paired_witness:
  "\<exists>ctx st. served (\<lambda>s. s) keep_one ChatCompletions chat_history [ctx] st \<and> rq_compacted ctx \<and>
     pairing_intact (out_messages ctx) ChatCompletions"
proof -
  obtain ctx st where s: "served (\<lambda>s. s) keep_one ChatCompletions chat_history [ctx] st" "rq_compacted ctx"
    "rq_msgs ctx = chat_history"
    using chat_retried by blast
  from served_requests_paired [OF s(1) _ chat_history_ok(1), of ctx] s chat_history_intact show ?thesis
    by (auto simp: keep_one_keeps)
qed

theorem served_estimate_exact_witness:
  "rq_est_out chat_ctx = (billable_chars (outgoing_body chat_ctx) + 2) div 4 \<and>
     rq_over_budget chat_ctx = (unat (rq_threshold chat_ctx) < (billable_chars (outgoing_body chat_ctx) + 2) div 4)"
proof (rule served_estimate_exact [OF chat_served _ chat_history_ok(1)])
  show "image_payload (JObj (rq_body chat_ctx)) = None"
    by (simp add: chat_ctx_fields image_payload_def get_str_def json_get_def)
  show "ascii_payloads (outgoing_body chat_ctx)"
    using chat_history_payloads by (simp add: outgoing_body_def chat_ctx_fields messages_key_def ascii_payloads_def)
qed (simp_all add: keep_one_keeps)

end
