(* ===== verification/Forked.thy ===== *)
theory Forked
  imports Conversation
begin

text \<open>
  A history that forks at a stored cut (\<open>Replay::adopt\<close> of \<open>request/engine.rs\<close>). The stored summary is
  then followed by a user message instead of a model turn, so the next compaction takes summary and
  message into its head, and the head length it reports counts the working list, not the history.
\<close>

definition asks :: "string \<Rightarrow> json" where "asks w = said ''user'' w"
definition says :: "string \<Rightarrow> json" where "says w = said ''assistant'' w"

definition forked_history :: "json list" where
  "forked_history = [asks ''a'', says ''b'', asks ''c'', asks ''d'', asks ''e'', says ''f'', asks ''g'', says ''h'']"

definition stored_summary :: json where
  "stored_summary = user_message ChatCompletions (SUMMARY_HEADER @ [10, 10] @ lit ''b, c and d'')"

definition forked_working :: "json list" where
  "forked_working = [asks ''a'', stored_summary] @ drop 4 forked_history"

definition forked_replay :: replay where
  "forked_replay = \<lparr>rp_working = forked_working, rp_sizes = map message_chars forked_working, rp_head_len = 1,
     rp_orig_cut = 4, rp_have_summary = True, rp_last_summary = None, rp_steps = 0, rp_carry = [], rp_evidence = []\<rparr>"

lemma said_kinds:
  "\<not> is_assistant ChatCompletions (asks w)" "is_assistant ChatCompletions (says w)"
  "\<not> is_assistant ChatCompletions (user_message ChatCompletions s)"
  by (simp_all add: asks_def says_def history_defs user_message_def chat_user_message_def)

lemma asks_no_summary: "\<not> starts_with (lit w) SUMMARY_HEADER \<Longrightarrow> \<not> is_summary ChatCompletions (asks w)"
  by (simp add: asks_def history_defs chat_content_text_def)

lemma forked_cut:
  "first_assistant ChatCompletions forked_working = Some 3"
  "trim_head ChatCompletions forked_working 3 = 3"
  "group_turns ChatCompletions (drop 3 forked_working) = [(0, 2), (2, 3)]"
proof -
  have w: "forked_working = [asks ''a'', stored_summary, asks ''e'', says ''f'', asks ''g'', says ''h'']"
    by (simp add: forked_working_def forked_history_def)
  show "first_assistant ChatCompletions forked_working = Some 3"
    unfolding w by (simp add: first_assistant_def said_kinds stored_summary_def)
  have "\<not> is_summary ChatCompletions (asks ''e'')"
    by (rule asks_no_summary) (simp add: starts_with_def SUMMARY_HEADER_def)
  then show "trim_head ChatCompletions forked_working 3 = 3"
    unfolding w by (simp add: numeral_3_eq_3 trim_from_head_def)
  show "group_turns ChatCompletions (drop 3 forked_working) = [(0, 2), (2, 3)]"
    unfolding w by (simp add: group_turns_def group_by_starts_def starts_turn_def upt_rec said_kinds numeral_3_eq_3)
qed

text \<open>What the recompaction of the forked history reports and summarises.\<close>

lemma forked_compaction:
  assumes "compact_within forked_working ChatCompletions keep_one 0 [] 0 = Some r"
  shows "cr_head_len r = 3" "cr_cut r = 5" "cr_summary r = user_message ChatCompletions
    (summary_body (concat (map (\<lambda>m. summarize ChatCompletions m keep_one) [says ''f'', asks ''g''])))"
proof -
  obtain n body turns turn_parts sect split where "first_assistant ChatCompletions forked_working = Some n"
    and h: "cr_head_len r = trim_head ChatCompletions forked_working n"
    and body: "body = drop (cr_head_len r) forked_working" and turns: "turns = group_turns ChatCompletions body"
    and parts: "turn_parts = map (turn_summary ChatCompletions keep_one body) (take (length turns - keep_recent keep_one) turns)"
    and sect: "sect = carry_section (bound_carry [] 0)"
    and split: "split = choose_split ChatCompletions body turns turn_parts sect 0"
    and sum: "cr_summary r = user_message ChatCompletions (summary_body (opt_list sect @ concat (take split turn_parts)))"
    and cut: "cr_cut r = cr_head_len r + (if split < length turns then fst (turns ! split) else length body)"
    by (rule compact_within_Some [OF assms]) blast
  then show "cr_head_len r = 3" using forked_cut by simp
  then have t: "turns = [(0, 2), (2, 3)]" and b: "body = [says ''f'', asks ''g'', says ''h'']"
    using turns body forked_cut by (simp_all add: forked_working_def forked_history_def numeral_3_eq_3)
  then have p: "turn_parts = [turn_summary ChatCompletions keep_one body (0, 2)]" "split = 1"
    using parts split keep_one_keeps by (simp_all add: choose_split_def)
  then show "cr_cut r = 5" using cut t \<open>cr_head_len r = 3\<close> by simp
  have "opt_list sect = []" using sect by (simp add: bound_carry_def carry_section_def)
  then show "cr_summary r = user_message ChatCompletions
      (summary_body (concat (map (\<lambda>m. summarize ChatCompletions m keep_one) [says ''f'', asks ''g''])))"
    using sum p b by (simp add: turn_summary_def slice_def numeral_2_eq_2)
qed

definition no_budgets :: step_budgets where
  "no_budgets = \<lparr>sb_budget = 0, sb_carry = 0, sb_evidence = 0\<rparr>"

text \<open>C38: When a client forks its history right after a stored cut, so that a user message follows the
  stored summary, the next compaction counts that summary as part of the head and reports a head
  length of the working list. The entry stored with it is later applied to the original history: the
  request then sends the first three messages, a summary of the last turn only, and the tail. The
  messages \<open>d\<close> and \<open>e\<close> are neither sent nor summarised.\<close>

theorem forked_history_loses_messages:
  "\<exists>rp s. replay_compact sha ChatCompletions keep_one no_budgets (length forked_history) forked_replay = Some rp \<and>
     rp_last_summary rp = Some s \<and> rp_head_len rp = 3 \<and> rp_orig_cut rp = 7 \<and>
     s = user_message ChatCompletions
       (summary_body (concat (map (\<lambda>m. summarize ChatCompletions m keep_one) [says ''f'', asks ''g'']))) \<and>
     out_messages (substitute_entry (ctx\<lparr>rq_msgs := forked_history\<rparr>) (entry_of (compacted_ctx sha ctx rp) s)) =
       [asks ''a'', says ''b'', asks ''c'', s, says ''h'']"
proof -
  have "compact_within forked_working ChatCompletions keep_one 0 [] 0 \<noteq> None"
    using compact_plain [OF forked_cut, of keep_one 2] keep_one_keeps by (auto simp: compact_def)
  then obtain r where r: "compact_within forked_working ChatCompletions keep_one 0 [] 0 = Some r" by blast
  note facts = forked_compaction [OF r]
  define s where "s = cr_summary r"
  have len: "length forked_history = 8" by (simp add: forked_history_def)
  obtain rp where rp: "adopt sha forked_replay r 8 ChatCompletions keep_one 0 = Some rp"
    "rp_head_len rp = 3" "rp_orig_cut rp = 7" "rp_last_summary rp = Some s"
    using facts(1,2) by (simp add: adopt_def forked_replay_def merge_evidence_def render_evidence_def s_def Let_def)
  have "replay_compact sha ChatCompletions keep_one no_budgets (length forked_history) forked_replay = Some rp"
    using r rp(1) len by (simp add: replay_compact_def no_budgets_def forked_replay_def)
  moreover have "out_messages (substitute_entry c (entry_of (compacted_ctx sha ctx rp) s)) =
      take 3 (rq_msgs c) @ [s] @ drop 7 (rq_msgs c)" for c
    using rp(2,3) by (simp add: substitute_entry_def out_messages_def entry_of_def compacted_ctx_def)
  ultimately show ?thesis using rp facts(3)
    by (intro exI [of _ rp] exI [of _ s]) (simp add: s_def forked_history_def numeral_3_eq_3)
qed

end
