(* ===== verification/Replay.thy ===== *)
theory Replay
  imports Conversation
begin

text \<open>
  The offline replay (\<open>request/replay.rs\<close>): the histories recorded in transcripts of Claude Code and
  Codex, and the run of every request of a history through a fresh engine with the report on it.
  \<open>parse\<close> stands for \<open>serde_json::from_slice\<close> and \<open>from_str\<close>, \<open>None\<close> on an error. The sums the source
  keeps in 64 bits are natural numbers; a conversion it saturates is written out.
\<close>

section \<open>Recorded histories\<close>

definition record_lines :: "ustr \<Rightarrow> ustr list" where
  "record_lines raw = split_where (\<lambda>c. c = 10) raw"

record claude_state =
  ch_history :: "json list"
  ch_usage :: "u64 option list"
  ch_last_id :: "ustr option"
  ch_subagent :: "bool option"

text \<open>The record of a line that carries a message: its role, content, identifier and usage.\<close>

definition push_message :: "ustr \<Rightarrow> json \<Rightarrow> claude_state \<Rightarrow> claude_state" where
  "push_message kind message st =
     (let role = (case get_str message (lit ''role'') of Some r \<Rightarrow> r | None \<Rightarrow> kind);
          content = or_default JNull (json_get message (lit ''content''));
          i = get_str message (lit ''id'');
          same = (role = lit ''assistant'' \<and> i \<noteq> None \<and> i = ch_last_id st)
      in case (if same \<and> ch_history st \<noteq> [] then Option.bind (json_get (last (ch_history st)) (lit ''content'')) as_array
               else None, as_array content) of
           (Some previous, Some blocks) \<Rightarrow>
             st\<lparr>ch_history := butlast (ch_history st) @
               [alter_field (lit ''content'') (\<lambda>_. JArr (previous @ blocks)) (last (ch_history st))]\<rparr>
         | _ \<Rightarrow>
             st\<lparr>ch_last_id := (if role = lit ''assistant'' then i else None),
               ch_history := ch_history st @ [JObj [(lit ''role'', JStr role), (lit ''content'', content)]],
               ch_usage := ch_usage st @ [if role = lit ''assistant''
                 then Option.bind (json_get message (lit ''usage'')) (reported_input_tokens Anthropic) else None]\<rparr>)"

definition claude_record :: "claude_state \<Rightarrow> json \<Rightarrow> claude_state" where
  "claude_record st record' =
     (let kind = str_field record' (lit ''type'');
          sidechain = (Option.bind (json_get record' (lit ''isSidechain'')) as_bool = Some True);
          conversational = (kind = lit ''user'' \<or> kind = lit ''assistant'');
          st = (if conversational \<and> ch_subagent st = None then st\<lparr>ch_subagent := Some sidechain\<rparr> else st)
      in if kind = lit ''system'' \<and> get_str record' (lit ''subtype'') = Some (lit ''compact_boundary'')
         then st\<lparr>ch_history := [], ch_usage := [], ch_last_id := None\<rparr>
         else if \<not> conversational \<or> sidechain \<noteq> (ch_subagent st = Some True) then st
         else case json_get record' (lit ''message'') of
                None \<Rightarrow> st
              | Some message \<Rightarrow> push_message kind message st)"

definition claude_history_with_usage :: "(ustr \<Rightarrow> json option) \<Rightarrow> ustr \<Rightarrow> json list \<times> u64 option list" where
  "claude_history_with_usage parse raw =
     (let st = foldl claude_record \<lparr>ch_history = [], ch_usage = [], ch_last_id = None, ch_subagent = None\<rparr>
            (List.map_filter parse (record_lines raw))
      in (ch_history st, ch_usage st))"

definition claude_history :: "(ustr \<Rightarrow> json option) \<Rightarrow> ustr \<Rightarrow> json list" where
  "claude_history parse raw = fst (claude_history_with_usage parse raw)"

definition codex_record :: "json list \<Rightarrow> json \<Rightarrow> json list" where
  "codex_record history record' =
     (case json_get record' (lit ''payload'') of
        None \<Rightarrow> history
      | Some payload \<Rightarrow>
          if get_str record' (lit ''type'') = Some (lit ''response_item'') then history @ [payload]
          else if get_str record' (lit ''type'') = Some (lit ''compacted'') then
            (case Option.bind (json_get payload (lit ''replacement_history'')) as_array of
               Some items \<Rightarrow> items | None \<Rightarrow> [])
          else history)"

definition codex_history :: "(ustr \<Rightarrow> json option) \<Rightarrow> ustr \<Rightarrow> json list" where
  "codex_history parse raw = foldl codex_record [] (List.map_filter parse (record_lines raw))"

section \<open>The report\<close>

record compaction_note =
  cn_request :: nat
  cn_est_before :: nat
  cn_est_after :: nat
  cn_messages_before :: nat
  cn_messages_after :: nat
  cn_head :: nat
  cn_summary :: nat
  cn_tail :: nat
  cn_carry :: nat
  cn_reported :: "u64 option"

record replay_report =
  rep_dialect :: ustr
  rep_requests :: nat
  rep_compacted :: nat
  rep_reused :: nat
  rep_over_after :: nat
  rep_raised :: nat
  rep_peak_in :: nat
  rep_peak_out :: nat
  rep_last_in :: nat
  rep_last_out :: nat
  rep_total_in :: nat
  rep_total_out :: nat
  rep_violations :: nat
  rep_source_violations :: nat
  rep_first_violation :: "nat option"
  rep_compactions :: "compaction_note list"
  rep_cache_read :: nat
  rep_cache_write :: nat
  rep_repeated :: nat
  rep_covered :: nat
  rep_back_to_back :: nat
  rep_min_gap :: "nat option"
  rep_calibrate :: bool
  rep_usage_requests :: nat
  rep_samples :: nat
  rep_last_ratio :: nat
  rep_ratio_min :: "nat option"
  rep_ratio_median :: "nat option"
  rep_ratio_max :: "nat option"
  rep_peak_reported :: nat
  rep_reported_over :: nat

definition empty_report :: "dialect \<Rightarrow> bool \<Rightarrow> replay_report" where
  "empty_report d calibrate =
     \<lparr>rep_dialect = dialect_name d, rep_requests = 0, rep_compacted = 0, rep_reused = 0, rep_over_after = 0,
      rep_raised = 0, rep_peak_in = 0, rep_peak_out = 0, rep_last_in = 0, rep_last_out = 0, rep_total_in = 0,
      rep_total_out = 0, rep_violations = 0, rep_source_violations = 0, rep_first_violation = None,
      rep_compactions = [], rep_cache_read = 0, rep_cache_write = 0, rep_repeated = 0, rep_covered = 0,
      rep_back_to_back = 0, rep_min_gap = None, rep_calibrate = calibrate, rep_usage_requests = 0,
      rep_samples = 0, rep_last_ratio = MIN_RATIO_PERMILLE, rep_ratio_min = None, rep_ratio_median = None,
      rep_ratio_max = None, rep_peak_reported = 0, rep_reported_over = 0\<rparr>"

type_synonym earlier_calls = "ustr \<Rightarrow> ustr list option"

record replay_run =
  ru_store :: prefix_store
  ru_calibration :: calibration
  ru_ratios :: "nat list"
  ru_calls :: "tool_call list"
  ru_earlier :: earlier_calls
  ru_previous :: "(json list \<times> nat) option"
  ru_last :: "nat option"
  ru_report :: replay_report

section \<open>One request\<close>

definition add_earlier :: "tool_call \<Rightarrow> earlier_calls \<Rightarrow> earlier_calls" where
  "add_earlier call m = m(tc_key call \<mapsto> (case m (tc_key call) of Some is \<Rightarrow> is | None \<Rightarrow> []) @ [tc_id call])"

definition earlier_step :: "nat \<Rightarrow> replay_run \<Rightarrow> replay_run" where
  "earlier_step e ru =
     ru\<lparr>ru_earlier := fold add_earlier (takeWhile (\<lambda>c. tc_msg c < e) (ru_calls ru)) (ru_earlier ru),
       ru_calls := dropWhile (\<lambda>c. tc_msg c < e) (ru_calls ru)\<rparr>"

text \<open>A repeat of the response, checked against what the request sent.\<close>

definition repeat_call :: "ustr list \<Rightarrow> replay_run \<Rightarrow> tool_call \<Rightarrow> replay_run" where
  "repeat_call answered ru call =
     (let ru = (case ru_earlier ru (tc_key call) of
           None \<Rightarrow> ru
         | Some is \<Rightarrow> ru\<lparr>ru_report := (ru_report ru)\<lparr>rep_repeated := rep_repeated (ru_report ru) + 1,
             rep_covered := rep_covered (ru_report ru) + (if list_ex (\<lambda>i. i \<in> set answered) is then 1 else 0)\<rparr>\<rparr>)
      in ru\<lparr>ru_earlier := add_earlier call (ru_earlier ru)\<rparr>)"

definition repeats_step :: "dialect \<Rightarrow> json list \<Rightarrow> nat \<Rightarrow> replay_run \<Rightarrow> replay_run" where
  "repeats_step d outgoing response_end ru =
     (let calls = takeWhile (\<lambda>c. tc_msg c < response_end) (ru_calls ru);
          ru = ru\<lparr>ru_calls := dropWhile (\<lambda>c. tc_msg c < response_end) (ru_calls ru)\<rparr>
      in foldl (repeat_call (result_ids outgoing d)) ru calls)"

definition u64_cap :: "nat \<Rightarrow> nat" where "u64_cap n = min n (2 ^ 64 - 1)"

definition reported_step :: "u64 \<Rightarrow> request_ctx \<Rightarrow> u64 option \<Rightarrow> replay_run \<Rightarrow> replay_run" where
  "reported_step threshold ctx reported ru =
     (case reported of
        None \<Rightarrow> ru
      | Some r \<Rightarrow>
          let rep = (ru_report ru)\<lparr>rep_usage_requests := rep_usage_requests (ru_report ru) + 1\<rparr>;
              ratio = u64_cap (unat r * 1000 div rq_est_in ctx);
              out = u64_cap (rq_est_out ctx * ratio div 1000);
              ru = (if 0 < rq_est_in ctx
                then ru\<lparr>ru_ratios := ru_ratios ru @ [ratio],
                  ru_report := rep\<lparr>rep_peak_reported := max (rep_peak_reported rep) out,
                    rep_reported_over := rep_reported_over rep + (if unat threshold < out then 1 else 0)\<rparr>\<rparr>
                else ru\<lparr>ru_report := rep\<rparr>)
          in ru\<lparr>ru_calibration := fst (observe (ru_calibration ru) (of_nat (rq_est_in ctx)) r)\<rparr>)"

definition cache_read :: "(json list \<times> nat) option \<Rightarrow> request_ctx \<Rightarrow> nat" where
  "cache_read previous ctx =
     (let sent = out_messages ctx in
      case previous of
        Some (prefix, est) \<Rightarrow>
          if length prefix \<le> length sent \<and> take (length prefix) sent = prefix then est
          else min (rq_est_fixed ctx) (rq_est_out ctx)
      | None \<Rightarrow> min (rq_est_fixed ctx) (rq_est_out ctx))"

definition totals_step :: "request_ctx \<Rightarrow> replay_run \<Rightarrow> replay_run" where
  "totals_step ctx ru =
     (let read = cache_read (ru_previous ru) ctx;
          rep = ru_report ru
      in ru\<lparr>ru_previous := Some (out_messages ctx, rq_est_out ctx),
           ru_report := rep\<lparr>rep_cache_read := rep_cache_read rep + read,
             rep_cache_write := rep_cache_write rep + (rq_est_out ctx - read),
             rep_peak_in := max (rep_peak_in rep) (rq_est_in ctx),
             rep_peak_out := max (rep_peak_out rep) (rq_est_out ctx),
             rep_last_in := rq_est_in ctx, rep_last_out := rq_est_out ctx,
             rep_total_in := rep_total_in rep + rq_est_in ctx,
             rep_total_out := rep_total_out rep + rq_est_out ctx,
             rep_over_after := rep_over_after rep +
               (if unat (rq_threshold ctx) < rq_est_out ctx then 1 else 0),
             rep_raised := rep_raised rep + (if rq_calibrated ctx < rq_threshold ctx then 1 else 0)\<rparr>\<rparr>)"

definition compaction_of :: "nat \<Rightarrow> request_ctx \<Rightarrow> u64 option \<Rightarrow> compaction_note" where
  "compaction_of index ctx reported =
     \<lparr>cn_request = index, cn_est_before = rq_est_in ctx, cn_est_after = rq_est_out ctx,
      cn_messages_before = length (rq_msgs ctx), cn_messages_after = length (out_messages ctx),
      cn_head = rq_est_head ctx, cn_summary = rq_est_summary ctx, cn_tail = rq_est_tail ctx,
      cn_carry = rq_carry_chars ctx, cn_reported = reported\<rparr>"

definition compaction_step :: "nat \<Rightarrow> request_ctx \<Rightarrow> u64 option \<Rightarrow> replay_run \<Rightarrow> replay_run" where
  "compaction_step index ctx reported ru =
     (let rep = ru_report ru in
      if rq_compacted ctx then
        let rep = (case ru_last ru of
              None \<Rightarrow> rep
            | Some last' \<Rightarrow>
                rep\<lparr>rep_back_to_back := rep_back_to_back rep + (if index - last' = 1 then 1 else 0),
                  rep_min_gap := Some (case rep_min_gap rep of
                    None \<Rightarrow> index - last' | Some g \<Rightarrow> min g (index - last'))\<rparr>)
        in ru\<lparr>ru_last := Some index,
             ru_report := rep\<lparr>rep_compacted := rep_compacted rep + 1,
               rep_compactions := rep_compactions rep @ [compaction_of index ctx reported]\<rparr>\<rparr>
      else if rq_matched ctx then ru\<lparr>ru_report := rep\<lparr>rep_reused := rep_reused rep + 1\<rparr>\<rparr>
      else ru)"

definition pairing_step :: "dialect \<Rightarrow> json list \<Rightarrow> nat \<Rightarrow> request_ctx \<Rightarrow> replay_run \<Rightarrow> replay_run" where
  "pairing_step d recorded index ctx ru =
     (let rep = ru_report ru in
      if \<not> pairing_intact recorded d
      then ru\<lparr>ru_report := rep\<lparr>rep_source_violations := rep_source_violations rep + 1\<rparr>\<rparr>
      else if rq_modified ctx \<and> \<not> pairing_intact (out_messages ctx) d
      then ru\<lparr>ru_report := rep\<lparr>rep_violations := rep_violations rep + 1,
        rep_first_violation := Some (case rep_first_violation rep of Some i \<Rightarrow> i | None \<Rightarrow> index)\<rparr>\<rparr>
      else ru)"

text \<open>\<open>Engine::prepare_calibrated\<close>: no caller policy and no known capacity, published at once.\<close>

definition prepare_calibrated ::
  "(ustr \<Rightarrow> ustr) \<Rightarrow> cliff_config \<Rightarrow> json_map \<Rightarrow> dialect \<Rightarrow> u64 \<Rightarrow> nat \<Rightarrow> prefix_store \<Rightarrow>
     (request_ctx \<times> prefix_store) option" where
  "prepare_calibrated sha cfg body d threshold ratio st =
     prepare_policy sha cfg body d threshold ratio [] None False st"

definition replay_body :: "dialect \<Rightarrow> nat \<Rightarrow> json list \<Rightarrow> json_map" where
  "replay_body d fixed_tokens recorded =
     [(lit ''model'', JStr (lit ''replay'')),
      ((case d of Anthropic \<Rightarrow> lit ''system'' | Responses \<Rightarrow> lit ''instructions''
         | ChatCompletions \<Rightarrow> lit ''tools''), JStr (replicate (u64_cap (fixed_tokens * 4)) 120)),
      (messages_key d, JArr recorded)]"

definition prepared_step ::
  "cliff_config \<Rightarrow> dialect \<Rightarrow> json list \<Rightarrow> u64 option list \<Rightarrow> nat \<Rightarrow> nat \<Rightarrow> request_ctx \<Rightarrow> replay_run \<Rightarrow> replay_run" where
  "prepared_step cfg d history usage index e ctx ru =
     (let rep = ru_report ru;
          ru = ru\<lparr>ru_report := rep\<lparr>rep_requests := rep_requests rep + 1, rep_last_ratio := rq_ratio ctx\<rparr>\<rparr>;
          reported = (if e < length usage then usage ! e else None)
      in pairing_step d (take e history) index ctx
           (compaction_step index ctx reported
             (totals_step ctx (reported_step (threshold_tokens cfg) ctx reported ru))))"

definition replay_step ::
  "(ustr \<Rightarrow> ustr) \<Rightarrow> cliff_config \<Rightarrow> dialect \<Rightarrow> json list \<Rightarrow> u64 option list \<Rightarrow> nat \<Rightarrow> bool \<Rightarrow>
     replay_run \<Rightarrow> nat \<times> nat \<times> nat \<Rightarrow> replay_run" where
  "replay_step sha cfg d history usage fixed_tokens calibrate ru point =
     (case point of (index, e, response_end) \<Rightarrow>
        let ru = earlier_step e ru;
            ratio = (if calibrate then ratio_permille (ru_calibration ru) else MIN_RATIO_PERMILLE)
        in case prepare_calibrated sha cfg (replay_body d fixed_tokens (take e history)) d (threshold_tokens cfg)
                ratio (ru_store ru) of
             None \<Rightarrow> repeats_step d (take e history) response_end ru
           | Some (ctx, st) \<Rightarrow>
               prepared_step cfg d history usage index e ctx
                 (repeats_step d (out_messages ctx) response_end (ru\<lparr>ru_store := st\<rparr>)))"

definition replay_points :: "json list \<Rightarrow> dialect \<Rightarrow> (nat \<times> nat \<times> nat) list" where
  "replay_points history d =
     (let points = request_points history d in
      if points = [] then [] else zip [0..<length points] (zip points (tl points @ [length history])))"

definition start_run :: "(ustr \<Rightarrow> json option) \<Rightarrow> json list \<Rightarrow> dialect \<Rightarrow> bool \<Rightarrow> replay_run" where
  "start_run parse history d calibrate =
     \<lparr>ru_store = default_store, ru_calibration = no_calibration, ru_ratios = [],
      ru_calls = tool_calls parse history d, ru_earlier = Map.empty, ru_previous = None, ru_last = None,
      ru_report = empty_report d calibrate\<rparr>"

definition finish_report :: "replay_run \<Rightarrow> replay_report" where
  "finish_report ru =
     (let ratios = sort (ru_ratios ru)
      in (ru_report ru)\<lparr>rep_samples := cal_samples (ru_calibration ru),
           rep_ratio_min := (if ratios = [] then None else Some (hd ratios)),
           rep_ratio_median := (if ratios = [] then None else Some (ratios ! (length ratios div 2))),
           rep_ratio_max := (if ratios = [] then None else Some (last ratios))\<rparr>)"

definition replay_calibrated ::
  "(ustr \<Rightarrow> ustr) \<Rightarrow> (ustr \<Rightarrow> json option) \<Rightarrow> json list \<Rightarrow> u64 option list \<Rightarrow> dialect \<Rightarrow> cliff_config \<Rightarrow> nat \<Rightarrow>
     bool \<Rightarrow> replay_report" where
  "replay_calibrated sha parse history usage d cfg fixed_tokens calibrate =
     finish_report (foldl (replay_step sha cfg d history usage fixed_tokens calibrate)
       (start_run parse history d calibrate) (replay_points history d))"

definition replay_history ::
  "(ustr \<Rightarrow> ustr) \<Rightarrow> (ustr \<Rightarrow> json option) \<Rightarrow> json list \<Rightarrow> dialect \<Rightarrow> cliff_config \<Rightarrow> nat \<Rightarrow> replay_report" where
  "replay_history sha parse history d cfg fixed_tokens =
     replay_calibrated sha parse history [] d cfg fixed_tokens False"

end
