(* ===== verification/Replayed.thy ===== *)
theory Replayed
  imports Replay
begin

text \<open>
  What the replay of a recording reports (\<open>request/replay.rs\<close>): its accounts add up, and on the
  dialects whose pairing a compaction keeps it never finds a request the engine broke.
\<close>

section \<open>The steps that only count\<close>

lemma repeat_call_keeps:
  "ru_store (repeat_call a ru c) = ru_store ru" "ru_previous (repeat_call a ru c) = ru_previous ru"
  "ru_calibration (repeat_call a ru c) = ru_calibration ru"
  "\<exists>n m. n \<le> m \<and> ru_report (repeat_call a ru c) =
     (ru_report ru)\<lparr>rep_repeated := rep_repeated (ru_report ru) + m, rep_covered := rep_covered (ru_report ru) + n\<rparr>"
proof -
  show "ru_store (repeat_call a ru c) = ru_store ru" "ru_previous (repeat_call a ru c) = ru_previous ru"
    "ru_calibration (repeat_call a ru c) = ru_calibration ru"
    by (simp_all add: repeat_call_def Let_def split: option.split)
  show "\<exists>n m. n \<le> m \<and> ru_report (repeat_call a ru c) =
     (ru_report ru)\<lparr>rep_repeated := rep_repeated (ru_report ru) + m, rep_covered := rep_covered (ru_report ru) + n\<rparr>"
  proof (cases "ru_earlier ru (tc_key c)")
    case None
    then show ?thesis by (intro exI [of _ 0]) (simp add: repeat_call_def)
  next
    case (Some ids)
    then show ?thesis
      by (intro exI [of _ "if list_ex (\<lambda>i. i \<in> set a) ids then 1 else 0"] exI [of _ 1])
        (simp add: repeat_call_def Let_def)
  qed
qed

text \<open>What is kept of a run: the store fits the history, the previous request was measured on the same
  fixed fields, and the counters of the report agree.\<close>

definition report_ok :: "replay_report \<Rightarrow> bool" where
  "report_ok rep \<longleftrightarrow> rep_cache_read rep + rep_cache_write rep = rep_total_out rep \<and>
     length (rep_compactions rep) = rep_compacted rep \<and>
     rep_compacted rep + rep_reused rep \<le> rep_requests rep \<and> rep_covered rep \<le> rep_repeated rep"

definition run_ok :: "dialect \<Rightarrow> json list \<Rightarrow> nat \<Rightarrow> replay_run \<Rightarrow> bool" where
  "run_ok d history fixed ru \<longleftrightarrow> store_fits d history (ru_store ru) \<and> report_ok (ru_report ru) \<and>
     (case ru_previous ru of None \<Rightarrow> True | Some (ms, est) \<Rightarrow> est = (fixed + sum_list (map message_chars ms)) div 4)"

definition unbroken :: "replay_run \<Rightarrow> bool" where
  "unbroken ru \<longleftrightarrow> rep_violations (ru_report ru) = 0 \<and> rep_first_violation (ru_report ru) = None"

lemma repeat_call_ok:
  "run_ok d h f (repeat_call a ru c) = run_ok d h f ru" if "run_ok d h f ru"
  using that repeat_call_keeps [of a ru c] by (auto simp: run_ok_def report_ok_def)

lemma repeat_call_unbroken [simp]: "unbroken (repeat_call a ru c) = unbroken ru"
  using repeat_call_keeps(4) [of a ru c] by (auto simp: unbroken_def)

lemma repeats_step_ok:
  "run_ok d h f ru \<Longrightarrow> run_ok d h f (repeats_step d ms e ru)"
  "unbroken (repeats_step d ms e ru) = unbroken ru"
proof -
  have fold: "run_ok d h f ru \<Longrightarrow> run_ok d h f (foldl (repeat_call a) ru cs)"
    "unbroken (foldl (repeat_call a) ru cs) = unbroken ru" for a cs ru
    by (induction cs arbitrary: ru) (simp_all add: repeat_call_ok)
  show "run_ok d h f ru \<Longrightarrow> run_ok d h f (repeats_step d ms e ru)"
    unfolding repeats_step_def Let_def by (rule fold(1)) (simp add: run_ok_def)
  show "unbroken (repeats_step d ms e ru) = unbroken ru"
    unfolding repeats_step_def Let_def fold(2) by (simp add: unbroken_def)
qed

lemma earlier_step_ok [simp]:
  "run_ok d h f (earlier_step e ru) = run_ok d h f ru" "unbroken (earlier_step e ru) = unbroken ru"
  "ru_store (earlier_step e ru) = ru_store ru"
  by (simp_all add: earlier_step_def run_ok_def unbroken_def)

lemma reported_step_ok:
  "run_ok d h f (reported_step t ctx r ru) = run_ok d h f ru" "unbroken (reported_step t ctx r ru) = unbroken ru"
  by (auto simp: reported_step_def run_ok_def report_ok_def unbroken_def Let_def split: option.split)

lemma compaction_step_unbroken [simp]: "unbroken (compaction_step i ctx r ru) = unbroken ru"
  by (auto simp: compaction_step_def unbroken_def Let_def split: option.split)

lemma pairing_step_ok: "run_ok d h f (pairing_step d' ms i ctx ru) = run_ok d h f ru"
  by (auto simp: pairing_step_def run_ok_def report_ok_def Let_def)

text \<open>A compaction or a reuse is counted once, for a request counted before.\<close>

lemma compaction_step_ok:
  assumes "run_ok d h f ru" "rep_compacted (ru_report ru) + rep_reused (ru_report ru) < rep_requests (ru_report ru)"
  shows "run_ok d h f (compaction_step i ctx r ru)"
  using assms by (auto simp: compaction_step_def run_ok_def report_ok_def Let_def split: option.split)

section \<open>One request\<close>

text \<open>A prefix read from the cache is never larger than the request.\<close>

lemma cache_read_le:
  assumes prev: "case previous of None \<Rightarrow> True | Some (ms, est) \<Rightarrow> est = (f + sum_list (map message_chars ms)) div 4"
    and out: "rq_est_out ctx = (f + sum_list (map message_chars (out_messages ctx))) div 4"
  shows "cache_read previous ctx \<le> rq_est_out ctx"
proof (cases previous)
  case (Some p)
  obtain ms est where p: "p = (ms, est)" by (cases p)
  show ?thesis
  proof (cases "length ms \<le> length (out_messages ctx) \<and> take (length ms) (out_messages ctx) = ms")
    case True
    then obtain rest where rest: "out_messages ctx = ms @ rest" by (metis append_take_drop_id)
    have "est \<le> rq_est_out ctx" using prev Some p unfolding out rest by (simp add: div_le_mono)
    then show ?thesis using True Some p by (simp add: cache_read_def Let_def)
  qed (use Some p in \<open>auto simp: cache_read_def Let_def\<close>)
qed (simp add: cache_read_def)

lemma totals_step_ok:
  assumes "run_ok d h f ru" "rq_est_out ctx = (f + sum_list (map message_chars (out_messages ctx))) div 4"
  shows "run_ok d h f (totals_step ctx ru)"
    "rep_compacted (ru_report (totals_step ctx ru)) = rep_compacted (ru_report ru)"
    "rep_reused (ru_report (totals_step ctx ru)) = rep_reused (ru_report ru)"
    "rep_requests (ru_report (totals_step ctx ru)) = rep_requests (ru_report ru)"
    "unbroken (totals_step ctx ru) = unbroken ru"
  using assms cache_read_le [where previous = "ru_previous ru" and f = f and ctx = ctx]
  by (auto simp: totals_step_def run_ok_def report_ok_def unbroken_def Let_def split: option.splits)

lemma reported_step_counts:
  "rep_compacted (ru_report (reported_step t ctx r ru)) = rep_compacted (ru_report ru)"
  "rep_reused (ru_report (reported_step t ctx r ru)) = rep_reused (ru_report ru)"
  "rep_requests (ru_report (reported_step t ctx r ru)) = rep_requests (ru_report ru)"
  by (auto simp: reported_step_def Let_def split: option.split)

lemma prepared_step_ok:
  assumes "run_ok d h f ru" "rq_est_out ctx = (f + sum_list (map message_chars (out_messages ctx))) div 4"
  shows "run_ok d h f (prepared_step cfg d h usage i e ctx ru)"
proof -
  define counted where "counted = ru\<lparr>ru_report := (ru_report ru)\<lparr>rep_requests := rep_requests (ru_report ru) + 1,
    rep_last_ratio := rq_ratio ctx\<rparr>\<rparr>"
  define reported where "reported = (if e < length usage then usage ! e else None)"
  let ?used = "reported_step (threshold_tokens cfg) ctx reported counted"
  have counted: "run_ok d h f counted"
    "rep_compacted (ru_report counted) + rep_reused (ru_report counted) < rep_requests (ru_report counted)"
    using assms(1) by (auto simp: counted_def run_ok_def report_ok_def)
  have "run_ok d h f ?used" using counted(1) by (simp add: reported_step_ok)
  note totals = totals_step_ok [OF this assms(2)]
  have "run_ok d h f (compaction_step i ctx reported (totals_step ctx ?used))"
    using counted(2) by (intro compaction_step_ok totals(1)) (simp add: totals reported_step_counts)
  then show ?thesis
    unfolding prepared_step_def Let_def counted_def [symmetric] reported_def [symmetric] by (simp add: pairing_step_ok)
qed

lemma prepared_step_unbroken:
  assumes "unbroken ru" "pairing_intact (take e h) d \<Longrightarrow> pairing_intact (out_messages ctx) d"
  shows "unbroken (prepared_step cfg d h usage i e ctx ru)"
proof -
  define counted where "counted = ru\<lparr>ru_report := (ru_report ru)\<lparr>rep_requests := rep_requests (ru_report ru) + 1,
    rep_last_ratio := rq_ratio ctx\<rparr>\<rparr>"
  have "unbroken counted" using assms(1) by (simp add: counted_def unbroken_def)
  moreover have "unbroken (totals_step ctx r) = unbroken r" for r
    by (simp add: totals_step_def unbroken_def Let_def)
  ultimately have "unbroken (compaction_step i ctx r (totals_step ctx (reported_step t ctx r counted)))" for r t
    by (simp add: reported_step_ok)
  then show ?thesis using assms(2)
    unfolding prepared_step_def Let_def counted_def [symmetric] pairing_step_def by (auto simp: unbroken_def)
qed

section \<open>The run\<close>

definition replay_fixed :: "dialect \<Rightarrow> nat \<Rightarrow> nat" where
  "replay_fixed d fixed_tokens = billable_chars (JObj (replay_body d fixed_tokens []))"

lemma replay_body_key:
  "history_of (replay_body d n recorded) d = Some msgs \<Longrightarrow> msgs = recorded"
  "update_field (messages_key d) (\<lambda>_. JArr []) (replay_body d n recorded) = replay_body d n []"
  by (cases d; simp add: history_of_def replay_body_def messages_key_def update_field_def split: if_splits)+

lemma prepare_calibrated_ok:
  assumes "0 < keep_recent cfg" "list_all json_ok history" "store_fits d history st"
    and run: "prepare_calibrated sha cfg (replay_body d n (take e history)) d t r st = Some (ctx, st')"
  shows "store_fits d history st'" "rq_msgs ctx = take e history"
    "rq_est_out ctx = (replay_fixed d n + sum_list (map message_chars (out_messages ctx))) div 4"
    "d \<noteq> Responses \<Longrightarrow> pairing_intact (take e history) d \<Longrightarrow> pairing_intact (out_messages ctx) d"
proof -
  note run' = run [unfolded prepare_calibrated_def]
  obtain msgs where "history_of (replay_body d n (take e history)) d = Some msgs"
    using run' by (auto simp: prepare_policy_settle)
  then have hist: "history_of (replay_body d n (take e history)) d = Some (take e history)"
    using replay_body_key(1) by metis
  note ok = prepare_ok [OF assms(1-3) hist run']
  show "store_fits d history st'" using ok by blast
  note kept = prepare_kept [OF run' hist]
  have fields: "rq_msgs ctx = take e history" "rq_fixed_chars ctx = replay_fixed d n"
    using kept(2) replay_body_key(2) by (simp_all add: kept_def new_ctx_def Let_def replay_fixed_def)
  show "rq_msgs ctx = take e history" by (rule fields(1))
  show "rq_est_out ctx = (replay_fixed d n + sum_list (map message_chars (out_messages ctx))) div 4"
    using kept(1) fields(2) out_sizes_exact ok by (auto simp: fresh_def tokens_of_def)
  show "pairing_intact (out_messages ctx) d" if "d \<noteq> Responses" "pairing_intact (take e history) d"
    using ok spliced_pairing [OF that(1) _ that(2)] that(2) fields(1)
    by (auto simp: request_ok_def out_messages_def split: option.splits)
qed

lemma replay_step_ok:
  assumes "0 < keep_recent cfg" "list_all json_ok history" "run_ok d history (replay_fixed d n) ru"
  shows "run_ok d history (replay_fixed d n) (replay_step sha cfg d history usage n calibrate ru point)"
    "d \<noteq> Responses \<Longrightarrow> unbroken ru \<Longrightarrow> unbroken (replay_step sha cfg d history usage n calibrate ru point)"
proof -
  obtain i e stop where point: "point = (i, e, stop)" by (cases point)
  define ru1 where "ru1 = earlier_step e ru"
  define ratio where "ratio = (if calibrate then ratio_permille (ru_calibration ru1) else MIN_RATIO_PERMILLE)"
  define tried where "tried = prepare_calibrated sha cfg (replay_body d n (take e history)) d (threshold_tokens cfg)
    ratio (ru_store ru1)"
  have step: "replay_step sha cfg d history usage n calibrate ru point =
      (case tried of
         None \<Rightarrow> repeats_step d (take e history) stop ru1
       | Some (ctx, st) \<Rightarrow> prepared_step cfg d history usage i e ctx
           (repeats_step d (out_messages ctx) stop (ru1\<lparr>ru_store := st\<rparr>)))"
    unfolding replay_step_def point prod.case Let_def ru1_def [symmetric] ratio_def [symmetric]
      tried_def [symmetric] by (rule refl)
  have ok1: "run_ok d history (replay_fixed d n) ru1" "unbroken ru1 = unbroken ru"
    using assms(3) by (simp_all add: ru1_def)
  then have fits: "store_fits d history (ru_store ru1)" by (simp add: run_ok_def)
  note prep = prepare_calibrated_ok [OF assms(1,2) fits]
  have store: "run_ok d history (replay_fixed d n) (ru1\<lparr>ru_store := st\<rparr>)" "unbroken (ru1\<lparr>ru_store := st\<rparr>) = unbroken ru1"
    if "store_fits d history st" for st
    using ok1(1) that by (simp_all add: run_ok_def unbroken_def)
  show "run_ok d history (replay_fixed d n) (replay_step sha cfg d history usage n calibrate ru point)"
  proof (cases tried)
    case None
    then show ?thesis unfolding step using ok1(1) by (simp add: repeats_step_ok)
  next
    case (Some r)
    obtain ctx st where r: "r = (ctx, st)" by (cases r)
    note p = prep [OF Some [unfolded tried_def r]]
    show ?thesis using prepared_step_ok [OF repeats_step_ok(1) [OF store(1) [OF p(1)]] p(3)]
      unfolding step Some r by simp
  qed
  show "unbroken (replay_step sha cfg d history usage n calibrate ru point)" if d: "d \<noteq> Responses" "unbroken ru"
  proof (cases tried)
    case None
    then show ?thesis unfolding step using ok1(2) d(2) by (simp add: repeats_step_ok)
  next
    case (Some r)
    obtain ctx st where r: "r = (ctx, st)" by (cases r)
    note p = prep [OF Some [unfolded tried_def r]]
    show ?thesis using prepared_step_unbroken [OF _ p(4) [OF d(1)]] store(2) [OF p(1)] ok1(2) d(2)
      unfolding step Some r by (simp add: repeats_step_ok)
  qed
qed

lemma replay_run_ok:
  assumes "0 < keep_recent cfg" "list_all json_ok history"
  shows "run_ok d history (replay_fixed d n)
      (foldl (replay_step sha cfg d history usage n calibrate) (start_run parse history d calibrate) points)"
    "d \<noteq> Responses \<Longrightarrow> unbroken
      (foldl (replay_step sha cfg d history usage n calibrate) (start_run parse history d calibrate) points)"
proof -
  let ?start = "start_run parse history d calibrate"
  have start: "run_ok d history (replay_fixed d n) ?start" "unbroken ?start"
    using reachable_store_inv [OF reachable_store.created, of 4096 "64 * 1024 * 1024"]
    by (simp_all add: run_ok_def start_run_def store_fits_def holds_all_def store_lookup_def default_store_def
      new_store_def report_ok_def empty_report_def unbroken_def)
  have "run_ok d history (replay_fixed d n) ru \<Longrightarrow> run_ok d history (replay_fixed d n)
      (foldl (replay_step sha cfg d history usage n calibrate) ru points)" for ru
    by (induction points arbitrary: ru) (simp_all add: replay_step_ok [OF assms])
  then show "run_ok d history (replay_fixed d n)
      (foldl (replay_step sha cfg d history usage n calibrate) ?start points)" using start(1) by blast
  have "run_ok d history (replay_fixed d n) ru \<Longrightarrow> unbroken ru \<Longrightarrow> d \<noteq> Responses \<Longrightarrow>
      unbroken (foldl (replay_step sha cfg d history usage n calibrate) ru points)" for ru
    by (induction points arbitrary: ru) (simp_all add: replay_step_ok [OF assms])
  then show "d \<noteq> Responses \<Longrightarrow> unbroken
      (foldl (replay_step sha cfg d history usage n calibrate) ?start points)" using start by blast
qed

text \<open>C13: A replay of a recorded Anthropic or Chat Completions session never reports a request the engine
  broke: whatever the recording, its tool calls, the usage in it and the calibration, the count of
  violations stays zero, and a recorded history that was unpaired already is counted on its own.\<close>

theorem replay_finds_no_violation:
  assumes "0 < keep_recent cfg" "list_all json_ok history" "d \<noteq> Responses"
  shows "rep_violations (replay_calibrated sha parse history usage d cfg fixed_tokens calibrate) = 0 \<and>
    rep_first_violation (replay_calibrated sha parse history usage d cfg fixed_tokens calibrate) = None"
  using replay_run_ok(2) [OF assms]
  by (simp add: replay_calibrated_def finish_report_def unbroken_def Let_def)

text \<open>C40: The report adds up: on every dialect the estimated cache reads and writes together are the
  estimated input of the requests sent, so no prefix is counted as larger than the request that
  reuses it; each compaction counted has its note, compactions and reused prefixes are distinct
  requests, and no more repeated reads are covered than there are.\<close>

theorem replay_report_adds_up:
  assumes "0 < keep_recent cfg" "list_all json_ok history"
  shows "let rep = replay_calibrated sha parse history usage d cfg fixed_tokens calibrate in
    rep_cache_read rep + rep_cache_write rep = rep_total_out rep \<and>
    length (rep_compactions rep) = rep_compacted rep \<and>
    rep_compacted rep + rep_reused rep \<le> rep_requests rep \<and> rep_covered rep \<le> rep_repeated rep"
  using replay_run_ok(1) [OF assms]
  by (simp add: replay_calibrated_def finish_report_def run_ok_def report_ok_def Let_def)

theorem replay_finds_no_violation_witness:
  "rep_violations (replay_calibrated (\<lambda>s. s) (\<lambda>s. None) chat_history [] ChatCompletions keep_one 1000 True) = 0 \<and>
   rep_first_violation (replay_calibrated (\<lambda>s. s) (\<lambda>s. None) chat_history [] ChatCompletions keep_one 1000 True) = None"
  by (rule replay_finds_no_violation [OF _ chat_history_ok(1)]) (simp_all add: keep_one_keeps)

theorem replay_report_adds_up_witness:
  "let rep = replay_calibrated (\<lambda>s. s) (\<lambda>s. None) chat_history [] Responses keep_one 1000 False in
    rep_cache_read rep + rep_cache_write rep = rep_total_out rep \<and>
    length (rep_compactions rep) = rep_compacted rep \<and>
    rep_compacted rep + rep_reused rep \<le> rep_requests rep \<and> rep_covered rep \<le> rep_repeated rep"
  by (rule replay_report_adds_up [OF _ chat_history_ok(1)]) (simp add: keep_one_keeps)

end
