(* ===== verification/Payload.thy ===== *)
theory Payload
  imports Evidence Plan
begin

text \<open>
  The payloads of transcript records (\<open>crates/gobstopper-adapters/src/payload.rs\<close>): the text of a
  content value, which content may be elided and how, the fingerprint of a group of payloads, the
  reading of a record, and the bounds on edits. \<open>parse\<close> stands for the reader of \<open>serde_json\<close>.
  \<open>Tree v\<close> is what a complete text denotes, with every field as written, also a repeated one;
  \<open>Broken dup\<close> is a text that stops being JSON, \<open>dup\<close> when a repeated key comes before that point.
\<close>

declare lit_Cons [simp del]

section \<open>Readings\<close>

datatype reading = Tree json | Broken bool

text \<open>The category of a decoding error: \<open>Data\<close> is the duplicate key, \<open>Malformed\<close> any other.\<close>

datatype decode_error = Data | Malformed

fun unique_keys :: "json \<Rightarrow> bool" where
  "unique_keys (JArr vs) = list_all unique_keys vs"
| "unique_keys (JObj kvs) = (distinct (map fst kvs) \<and> list_all (\<lambda>(k, v). unique_keys v) kvs)"
| "unique_keys _ = True"

definition decode_record :: "(ustr \<Rightarrow> reading) \<Rightarrow> ustr \<Rightarrow> decode_error + json" where
  "decode_record parse raw =
     (case parse raw of
        Broken dup \<Rightarrow> Inl (if dup then Data else Malformed)
      | Tree v \<Rightarrow> if unique_keys v then Inr v else Inl Data)"

text \<open>\<open>decode_record(line).ok()\<close>\<close>

definition decode_ok :: "(ustr \<Rightarrow> reading) \<Rightarrow> ustr \<Rightarrow> json option" where
  "decode_ok parse raw = (case decode_record parse raw of Inr v \<Rightarrow> Some v | Inl _ \<Rightarrow> None)"

section \<open>Content\<close>

definition has_type :: "json \<Rightarrow> string \<Rightarrow> bool" where
  "has_type v t \<longleftrightarrow> get_str v (lit ''type'') = Some (lit t)"

definition text_block :: "json \<Rightarrow> bool" where
  "text_block b \<longleftrightarrow> has_type b ''text'' \<or> has_type b ''input_text'' \<or> has_type b ''output_text''"

definition block_texts :: "json list \<Rightarrow> ustr list" where
  "block_texts bs = List.map_filter (\<lambda>b. get_str b (lit ''text'')) (filter text_block bs)"

definition payload_text :: "json \<Rightarrow> ustr" where
  "payload_text v =
     (case v of JStr s \<Rightarrow> s | JArr bs \<Rightarrow> concat (block_texts bs) | _ \<Rightarrow> [])"

definition text_bytes :: "json \<Rightarrow> u64" where
  "text_bytes v =
     (case v of
        JStr s \<Rightarrow> of_nat (str_len s)
      | JArr bs \<Rightarrow> fold (\<lambda>s acc. sat_add acc (of_nat (str_len s))) (block_texts bs) 0
      | _ \<Rightarrow> 0)"

text \<open>A string field, whatever its text; an object with no key besides the given ones.\<close>

definition string_field :: "json \<Rightarrow> ustr \<Rightarrow> bool" where
  "string_field v k \<longleftrightarrow> (case json_get v k of Some x \<Rightarrow> is_string x | None \<Rightarrow> False)"

definition only_keys :: "string list \<Rightarrow> json \<Rightarrow> bool" where
  "only_keys ks v \<longleftrightarrow> (case v of JObj kvs \<Rightarrow> list_all (\<lambda>(k, _). k \<in> set (map lit ks)) kvs | _ \<Rightarrow> False)"

definition plain_block :: "json \<Rightarrow> bool" where
  "plain_block b \<longleftrightarrow> text_block b \<and> string_field b (lit ''text'') \<and> only_keys [''type'', ''text''] b"

definition supported_content :: "json \<Rightarrow> bool" where
  "supported_content v \<longleftrightarrow>
     (case v of JStr _ \<Rightarrow> True | JArr bs \<Rightarrow> bs \<noteq> [] \<and> list_all plain_block bs | _ \<Rightarrow> False)"

definition eligible_bytes :: "json \<Rightarrow> u64" where
  "eligible_bytes v =
     (let bytes = (if supported_content v then text_bytes v else 0) in if bytes > 256 then bytes else 0)"

section \<open>Fingerprints\<close>

text \<open>The bytes hashed: for every value its serialized length as eight big-endian bytes, then its
  UTF-8 text. \<open>sha\<close> stands for the hexadecimal SHA-256 digest of a list of bytes.\<close>

definition be_u64 :: "u64 \<Rightarrow> nat list" where
  "be_u64 n = map (\<lambda>i. unat n div 256 ^ (7 - i) mod 256) [0..<8]"

definition hashed_bytes :: "json list \<Rightarrow> nat list" where
  "hashed_bytes vs =
     concat (map (\<lambda>v. be_u64 (of_nat (str_len (json_text v))) @ utf8_bytes (json_text v)) vs)"

definition fingerprint :: "(nat list \<Rightarrow> ustr) \<Rightarrow> json list \<Rightarrow> ustr option" where
  "fingerprint sha vs = (if vs \<noteq> [] then Some (sha (hashed_bytes vs)) else None)"

section \<open>Elision\<close>

text \<open>The first text block takes the stub, the others the empty text.\<close>

fun stub_blocks :: "ustr \<Rightarrow> json list \<Rightarrow> json list" where
  "stub_blocks r [] = []"
| "stub_blocks r (b # bs) =
     (if text_block b \<and> string_field b (lit ''text'')
      then alter_field (lit ''text'') (\<lambda>_. JStr r) b # stub_blocks [] bs
      else b # stub_blocks r bs)"

definition stubbed :: "ustr \<Rightarrow> json \<Rightarrow> json" where
  "stubbed stub v = (case v of JStr _ \<Rightarrow> JStr stub | JArr bs \<Rightarrow> JArr (stub_blocks stub bs) | _ \<Rightarrow> v)"

text \<open>The value after the call, and the bytes it returns.\<close>

definition elide :: "ustr \<Rightarrow> json \<Rightarrow> json \<times> u64" where
  "elide stub v =
     (let old = eligible_bytes v
      in if old = 0 \<or> of_nat (str_len stub) \<ge> old then (v, 0)
         else case v of
                JStr _ \<Rightarrow> if str_len (json_text (stubbed stub v)) \<ge> str_len (json_text v) then (v, 0)
                          else (stubbed stub v, old)
              | JArr _ \<Rightarrow> if str_len (json_text (stubbed stub v)) \<ge> str_len (json_text v) then (v, 0)
                          else (stubbed stub v, old)
              | _ \<Rightarrow> (v, 0))"

text \<open>\<open>str::replace\<close> and the stub of an item.\<close>

definition replace_str :: "string \<Rightarrow> ustr \<Rightarrow> ustr \<Rightarrow> ustr" where
  "replace_str p r s = join r (split_str (lit p) s)"

definition stub_for :: "ustr \<Rightarrow> u64 \<Rightarrow> ustr \<Rightarrow> ustr" where
  "stub_for template bytes k =
     replace_str ''{kind}'' k (replace_str ''{bytes}'' (dec (unat bytes)) template)"

section \<open>Bounds on edits\<close>

definition check_digest_bounds :: "digest_block \<Rightarrow> unit rresult" where
  "check_digest_bounds d =
     (if sum_list (map str_len (digest_strings d)) > MAX_DIGEST_BYTES
      then Inl ''digest exceeds transform bounds'' else Inr ())"

definition transform_edit_bounds :: "edit \<Rightarrow> unit rresult" where
  "transform_edit_bounds e =
     (case e of
        Elide ls stub per \<Rightarrow>
          if length ls > MAX_ITEMS \<or> str_len stub > MAX_DIGEST_BYTES \<or> length per > MAX_ITEMS \<or>
             list_ex (\<lambda>(_, s). str_len s > MAX_DIGEST_BYTES) per
          then Inl ''elision exceeds transform bounds'' else Inr ()
      | InjectDigest d \<Rightarrow> check_digest_bounds d
      | _ \<Rightarrow> Inr ())"

fun transform_bounds :: "edit list \<Rightarrow> unit rresult" where
  "transform_bounds [] = Inr ()"
| "transform_bounds (e # es) = (case transform_edit_bounds e of Inl m \<Rightarrow> Inl m | Inr _ \<Rightarrow> transform_bounds es)"

definition check_edit_bounds :: "edit list \<Rightarrow> unit rresult" where
  "check_edit_bounds es =
     (if length es > MAX_EDITS then Inl ''too many transform edits'' else transform_bounds es)"

end
