(* ===== verification/Verify.thy ===== *)
theory Verify
  imports Payload
begin

text \<open>
  The structural checks of a transcript (\<open>crates/gobstopper-adapters/src/verify.rs\<close>): the reading of
  the lines, the parent links and tool pairing of a Claude Code file on its live branch
  (\<open>live_branch\<close> of \<open>claude.rs\<close>), and the pairing of a Codex file in its newest window
  (\<open>record_call_id\<close>, \<open>supported_item\<close> of \<open>codex.rs\<close>). \<open>limit\<close> stands for \<open>max_transcript_bytes()\<close>.
\<close>

section \<open>Findings\<close>

datatype severity = Error | Warning

record verify_finding =
  severity :: severity
  f_line :: "nat option"
  f_code :: string
  f_message :: string

definition v_error :: "nat option \<Rightarrow> string \<Rightarrow> string \<Rightarrow> verify_finding" where
  "v_error l c m = \<lparr>severity = Error, f_line = l, f_code = c, f_message = m\<rparr>"

definition v_warning :: "nat option \<Rightarrow> string \<Rightarrow> string \<Rightarrow> verify_finding" where
  "v_warning l c m = \<lparr>severity = Warning, f_line = l, f_code = c, f_message = m\<rparr>"

text \<open>A file: text, or a number of bytes that are not UTF-8.\<close>

datatype source_bytes = Utf8 ustr | NotUtf8 nat

fun source_len :: "source_bytes \<Rightarrow> nat" where
  "source_len (Utf8 s) = str_len s"
| "source_len (NotUtf8 n) = n"

section \<open>Identifiers and fields\<close>

definition bounded_id :: "ustr \<Rightarrow> bool" where
  "bounded_id s \<longleftrightarrow> s \<noteq> [] \<and> str_len s \<le> 256 \<and> \<not> list_ex is_control s"

definition valid_link_id :: "json \<Rightarrow> bool" where
  "valid_link_id v \<longleftrightarrow> (case as_str v of Some s \<Rightarrow> bounded_id s | None \<Rightarrow> False)"

definition path2 :: "json \<Rightarrow> string \<Rightarrow> string \<Rightarrow> json option" where
  "path2 v a b = Option.bind (json_get v (lit a)) (\<lambda>x. json_get x (lit b))"

text \<open>The last value a function gives on a list, as \<open>iter().rev().find_map\<close> does.\<close>

definition last_some :: "('a \<Rightarrow> 'b option) \<Rightarrow> 'a list \<Rightarrow> 'b option" where
  "last_some f xs = (case rev (List.map_filter f xs) of [] \<Rightarrow> None | x # _ \<Rightarrow> Some x)"

section \<open>The live branch\<close>

type_synonym claude_link = "nat \<times> ustr \<times> ustr option"

fun index_links :: "claude_link list \<Rightarrow> (ustr \<rightharpoonup> nat \<times> ustr option) \<Rightarrow> (ustr \<rightharpoonup> nat \<times> ustr option) option" where
  "index_links [] m = Some m"
| "index_links ((l, i, p) # ls) m =
     (if i = [] \<or> m i \<noteq> None then None else index_links ls (m(i \<mapsto> (l, p))))"

text \<open>The walk from a leaf: every parent must stand on an earlier line, so the walk ends.\<close>

function live_walk :: "(ustr \<rightharpoonup> nat \<times> ustr option) \<Rightarrow> nat list \<Rightarrow> ustr \<Rightarrow> nat list" where
  "live_walk m live u =
     (case m u of
        None \<Rightarrow> []
      | Some (l, parent) \<Rightarrow>
          if l \<in> set live then []
          else (case parent of
                  None \<Rightarrow> l # live
                | Some p \<Rightarrow>
                    (case m p of
                       None \<Rightarrow> []
                     | Some (pl, _) \<Rightarrow> if l \<le> pl then [] else live_walk m (l # live) p)))"
  by pat_completeness auto
termination
  by (relation "measure (\<lambda>(m, _, u). case m u of Some (l, _) \<Rightarrow> Suc l | None \<Rightarrow> 0)") auto

declare live_walk.simps [simp del]

definition live_branch :: "claude_link list \<Rightarrow> ustr \<Rightarrow> nat list" where
  "live_branch links leaf =
     (case index_links links Map.empty of None \<Rightarrow> [] | Some m \<Rightarrow> live_walk m [] leaf)"

section \<open>Claude Code\<close>

record claude_scan =
  cs_seen :: "ustr list"
  cs_uses :: "(ustr \<times> nat) list"
  cs_results :: "(ustr \<times> nat) list"
  cs_findings :: "verify_finding list"

definition link_findings :: "nat \<Rightarrow> json \<Rightarrow> verify_finding list" where
  "link_findings i r =
     (case json_get r (lit ''uuid'') of
        None \<Rightarrow> []
      | Some u \<Rightarrow>
          (if valid_link_id u then []
           else [v_error (Some i) ''invalid_uuid'' ''uuid must be a bounded nonempty string'']) @
          (case json_get r (lit ''parentUuid'') of
             None \<Rightarrow> []
           | Some p \<Rightarrow> if p = JNull \<or> valid_link_id p then []
               else [v_error (Some i) ''invalid_parent_uuid''
                       ''parentUuid must be null or a bounded nonempty string'']))"

definition head_findings :: "nat \<Rightarrow> json \<Rightarrow> verify_finding list" where
  "head_findings i r =
     (if has_type r ''last-prompt'' \<and>
         (case get_str r (lit ''leafUuid'') of Some s \<Rightarrow> s = [] | None \<Rightarrow> True)
      then [v_error (Some i) ''invalid_chain_head'' ''last-prompt requires a nonempty leafUuid'']
      else [])"

definition chain_findings :: "nat \<Rightarrow> json \<Rightarrow> ustr list \<Rightarrow> verify_finding list" where
  "chain_findings i r seen =
     (case get_str r (lit ''uuid'') of
        None \<Rightarrow> []
      | Some u \<Rightarrow>
          (case get_str r (lit ''parentUuid'') of
             None \<Rightarrow> []
           | Some p \<Rightarrow> if p \<in> set seen then []
               else [v_error (Some i) ''broken_parent_chain''
                       ''parentUuid does not match any uuid on an earlier line'']) @
          (if u \<in> set seen
           then [v_error (Some i) ''duplicate_uuid'' ''uuid already appears on an earlier record'']
           else []))"

definition role_is :: "json \<Rightarrow> string \<Rightarrow> bool" where
  "role_is r k \<longleftrightarrow> has_type r k \<and> Option.bind (path2 r ''message'' ''role'') as_str = Some (lit k)"

text \<open>The identifiers of the blocks of one kind, and of a record when it has the right role.\<close>

definition block_ids :: "string \<Rightarrow> string \<Rightarrow> json list \<Rightarrow> ustr list" where
  "block_ids k field bs =
     List.map_filter (\<lambda>b. if has_type b k then get_str b (lit field) else None) bs"

definition record_blocks :: "json \<Rightarrow> json list" where
  "record_blocks r =
     (case Option.bind (path2 r ''message'' ''content'') as_array of Some bs \<Rightarrow> bs | None \<Rightarrow> [])"

definition record_uses :: "json \<Rightarrow> ustr list" where
  "record_uses r = (if role_is r ''assistant'' then block_ids ''tool_use'' ''id'' (record_blocks r) else [])"

definition record_results :: "json \<Rightarrow> ustr list" where
  "record_results r =
     (if role_is r ''user'' then block_ids ''tool_result'' ''tool_use_id'' (record_blocks r) else [])"

definition claude_step :: "nat \<times> json option \<Rightarrow> claude_scan \<Rightarrow> claude_scan" where
  "claude_step e st =
     (case e of
        (_, None) \<Rightarrow> st
      | (i, Some r) \<Rightarrow>
          \<lparr>cs_seen = (case get_str r (lit ''uuid'') of None \<Rightarrow> cs_seen st | Some u \<Rightarrow> List.insert u (cs_seen st)),
           cs_uses = cs_uses st @ map (\<lambda>u. (u, i)) (record_uses r),
           cs_results = cs_results st @ map (\<lambda>u. (u, i)) (record_results r),
           cs_findings = cs_findings st @ link_findings i r @ head_findings i r @
             chain_findings i r (cs_seen st)\<rparr>)"

definition claude_scanned :: "json option list \<Rightarrow> claude_scan" where
  "claude_scanned records =
     fold claude_step (enumerate 0 records) \<lparr>cs_seen = [], cs_uses = [], cs_results = [], cs_findings = []\<rparr>"

definition record_link :: "nat \<times> json option \<Rightarrow> claude_link option" where
  "record_link e =
     (case e of
        (_, None) \<Rightarrow> None
      | (i, Some r) \<Rightarrow>
          map_option (\<lambda>u. (i, u, get_str r (lit ''parentUuid''))) (get_str r (lit ''uuid'')))"

definition record_links :: "json option list \<Rightarrow> claude_link list" where
  "record_links records = List.map_filter record_link (enumerate 0 records)"

definition prompt_leaf :: "nat \<times> json option \<Rightarrow> (nat \<times> ustr) option" where
  "prompt_leaf e =
     (case e of
        (_, None) \<Rightarrow> None
      | (i, Some r) \<Rightarrow> if has_type r ''last-prompt''
                        then map_option (Pair i) (get_str r (lit ''leafUuid'')) else None)"

definition explicit_leaf :: "json option list \<Rightarrow> (nat \<times> ustr) option" where
  "explicit_leaf records = last_some prompt_leaf (enumerate 0 records)"

definition message_uuid :: "json option \<Rightarrow> ustr option" where
  "message_uuid e =
     (case e of
        None \<Rightarrow> None
      | Some r \<Rightarrow> if has_type r ''user'' \<or> has_type r ''assistant'' \<or> has_type r ''attachment''
                   then get_str r (lit ''uuid'') else None)"

definition live_leaf :: "json option list \<Rightarrow> ustr option" where
  "live_leaf records =
     (case explicit_leaf records of Some (_, u) \<Rightarrow> Some u | None \<Rightarrow> last_some message_uuid records)"

text \<open>The calls and results that count: those on the live branch, or all when there is none.\<close>

definition live_only :: "nat list \<Rightarrow> (ustr \<times> nat) list \<Rightarrow> (ustr \<times> nat) list" where
  "live_only live xs = (if live = [] then xs else filter (\<lambda>(_, l). l \<in> set live) xs)"

definition live_lines :: "json option list \<Rightarrow> nat list" where
  "live_lines records =
     (case live_leaf records of None \<Rightarrow> [] | Some leaf \<Rightarrow> live_branch (record_links records) leaf)"

fun repeated_uses :: "ustr list \<Rightarrow> (ustr \<times> nat) list \<Rightarrow> verify_finding list" where
  "repeated_uses seen [] = []"
| "repeated_uses seen ((u, l) # us) =
     (if u \<in> set seen
      then [v_error (Some l) ''duplicate_tool_call_id'' ''tool call ID is duplicated in effective context'']
      else []) @ repeated_uses (u # seen) us"

definition unanswered :: "(ustr \<times> nat) list \<Rightarrow> (ustr \<times> nat) list \<Rightarrow> verify_finding list" where
  "unanswered uses answers =
     concat (map (\<lambda>(u, l).
       (case map_of (rev answers) u of
          Some rl \<Rightarrow> if rl > l then [] else
            [v_error (Some l) ''orphaned_tool_use''
               ''tool_use block has no matching tool_result in a later record'']
        | None \<Rightarrow>
            [v_error (Some l) ''orphaned_tool_use''
               ''tool_use block has no matching tool_result in a later record''])) uses)"

definition unasked :: "(ustr \<times> nat) list \<Rightarrow> (ustr \<times> nat) list \<Rightarrow> verify_finding list" where
  "unasked uses answers =
     concat (map (\<lambda>(u, l).
       (case map_of (rev uses) u of
          Some ul \<Rightarrow> if ul < l then [] else
            [v_warning (Some l) ''orphaned_tool_result''
               ''tool_result block has no matching tool_use in an earlier record'']
        | None \<Rightarrow>
            [v_warning (Some l) ''orphaned_tool_result''
               ''tool_result block has no matching tool_use in an earlier record''])) answers)"

definition verify_claude :: "json option list \<Rightarrow> verify_finding list" where
  "verify_claude records =
     (let st = claude_scanned records;
          live = live_lines records;
          uses = live_only live (cs_uses st);
          answers = live_only live (cs_results st)
      in cs_findings st @
         (case explicit_leaf records of
            Some (l, u) \<Rightarrow> if u \<in> set (cs_seen st) then []
              else [v_error (Some l) ''missing_chain_head'' ''last-prompt names an absent leafUuid'']
          | None \<Rightarrow> []) @
         repeated_uses [] uses @ unanswered uses answers @ unasked uses answers)"

section \<open>Codex\<close>

definition call_id_field :: "json \<Rightarrow> json option" where
  "call_id_field p =
     (case json_get p (lit ''call_id'') of Some v \<Rightarrow> Some v | None \<Rightarrow>
     (case json_get p (lit ''tool_call_id'') of Some v \<Rightarrow> Some v | None \<Rightarrow> json_get p (lit ''id'')))"

definition record_call_id :: "json \<Rightarrow> ustr option" where
  "record_call_id p =
     (case Option.bind (call_id_field p) as_str of
        Some s \<Rightarrow> if bounded_id s then Some s else None | None \<Rightarrow> None)"

definition supported_output_keys :: "json \<Rightarrow> bool" where
  "supported_output_keys p \<longleftrightarrow>
     only_keys [''type'', ''output'', ''call_id'', ''tool_call_id'', ''id'',
       ''internal_chat_message_metadata_passthrough''] p"

definition is_call :: "json \<Rightarrow> bool" where
  "is_call p \<longleftrightarrow> has_type p ''function_call'' \<or> has_type p ''custom_tool_call'' \<or> has_type p ''local_shell_call''"

definition is_call_output :: "json \<Rightarrow> bool" where
  "is_call_output p \<longleftrightarrow> has_type p ''function_call_output'' \<or> has_type p ''custom_tool_call_output''"

definition role_in :: "string list \<Rightarrow> json \<Rightarrow> bool" where
  "role_in rs p \<longleftrightarrow> (case get_str p (lit ''role'') of Some r \<Rightarrow> r \<in> set (map lit rs) | None \<Rightarrow> False)"

definition supported_item :: "json \<Rightarrow> bool" where
  "supported_item p \<longleftrightarrow>
     (if has_type p ''message'' then
        role_in [''user'', ''assistant'', ''system'', ''developer''] p \<and>
        (case json_get p (lit ''content'') of
           Some v \<Rightarrow> as_array v = Some [] \<or> supported_content v | None \<Rightarrow> False)
      else if is_call p then record_call_id p \<noteq> None
      else if has_type p ''function_call_output'' then
        record_call_id p \<noteq> None \<and> supported_output_keys p \<and> string_field p (lit ''output'')
      else if has_type p ''custom_tool_call_output'' then
        record_call_id p \<noteq> None \<and> supported_output_keys p \<and>
        (case json_get p (lit ''output'') of
           Some v \<Rightarrow> supported_content v \<and>
             (case as_array v of Some bs \<Rightarrow> list_all (\<lambda>b. has_type b ''input_text'') bs | None \<Rightarrow> False)
         | None \<Rightarrow> False)
      else has_type p ''reasoning'' \<or> has_type p ''agent_message'')"

record codex_scan =
  xs_ordinal :: "u64 option"
  xs_effective :: "(nat \<times> json) list"
  xs_findings :: "verify_finding list"
  xs_stopped :: bool

definition ordinal_step :: "nat \<Rightarrow> json \<Rightarrow> codex_scan \<Rightarrow> codex_scan" where
  "ordinal_step i r st =
     (case json_get r (lit ''ordinal'') of
        None \<Rightarrow> st
      | Some v \<Rightarrow>
          (case as_u64 v of
             Some n \<Rightarrow>
               st\<lparr>xs_ordinal := Some n,
                  xs_findings := xs_findings st @
                    (if (case xs_ordinal st of Some m \<Rightarrow> n < m | None \<Rightarrow> False)
                     then [v_warning (Some i) ''non_monotonic_ordinal''
                             ''ordinal is lower than the previous ordinal-bearing record''] else [])\<rparr>
           | None \<Rightarrow>
               st\<lparr>xs_findings := xs_findings st @
                    [v_error (Some i) ''invalid_ordinal'' ''ordinal must be a nonnegative u64 integer'']\<rparr>))"

definition window_step :: "nat \<Rightarrow> json \<Rightarrow> codex_scan \<Rightarrow> codex_scan" where
  "window_step i r st =
     (if has_type r ''compacted'' then
        (case Option.bind (path2 r ''payload'' ''replacement_history'') as_array of
           Some hist \<Rightarrow>
             if length hist > MAX_ITEMS
             then st\<lparr>xs_effective := [],
                     xs_findings := xs_findings st @ [v_error (Some i) ''transcript_limit''
                       ''replacement history exceeds item limit'']\<rparr>
             else st\<lparr>xs_effective := map (Pair i) hist\<rparr>
         | None \<Rightarrow>
             st\<lparr>xs_effective := [],
                xs_findings := xs_findings st @ [v_error (Some i) ''malformed_compacted''
                  ''compacted record lacks a replacement_history array'']\<rparr>)
      else if has_type r ''response_item'' then
        (case json_get r (lit ''payload'') of
           Some p \<Rightarrow>
             if is_object p then st\<lparr>xs_effective := xs_effective st @ [(i, p)]\<rparr>
             else st\<lparr>xs_findings := xs_findings st @ [v_error (Some i) ''invalid_response_item''
                       ''response_item payload must be an object'']\<rparr>
         | None \<Rightarrow>
             st\<lparr>xs_findings := xs_findings st @ [v_error (Some i) ''invalid_response_item''
                  ''response_item payload must be an object'']\<rparr>)
      else st)"

text \<open>The loop over the records; it returns early when the window exceeds the item limit.\<close>

definition codex_step :: "nat \<times> json option \<Rightarrow> codex_scan \<Rightarrow> codex_scan" where
  "codex_step e st =
     (case e of
        (_, None) \<Rightarrow> st
      | (i, Some r) \<Rightarrow>
          if xs_stopped st then st
          else let st = window_step i r (ordinal_step i r st)
               in if length (xs_effective st) > MAX_ITEMS
                  then st\<lparr>xs_stopped := True,
                          xs_findings := xs_findings st @ [v_error (Some i) ''transcript_limit''
                            ''effective context exceeds item limit'']\<rparr>
                  else st)"

definition codex_scanned :: "json option list \<Rightarrow> codex_scan" where
  "codex_scanned records =
     fold codex_step (enumerate 0 records)
       \<lparr>xs_ordinal = None, xs_effective = [], xs_findings = [], xs_stopped = False\<rparr>"

text \<open>The pairing loop. \<open>pr_calls\<close> is the map from call identifiers to position and line.\<close>

record pair_scan =
  pr_calls :: "(ustr \<times> nat \<times> nat) list"
  pr_answered :: "ustr list"
  pr_outputs :: "ustr list"
  pr_findings :: "verify_finding list"

definition supported_step :: "nat \<Rightarrow> json \<Rightarrow> pair_scan \<Rightarrow> pair_scan" where
  "supported_step l p st =
     (if supported_item p then st
      else st\<lparr>pr_findings := pr_findings st @ [v_warning (Some l) ''unsupported_response_item''
                ''response item is outside the frozen supported shape'']\<rparr>)"

definition call_step :: "nat \<Rightarrow> nat \<Rightarrow> ustr \<Rightarrow> pair_scan \<Rightarrow> pair_scan" where
  "call_step pos l u st =
     st\<lparr>pr_answered := removeAll u (pr_answered st),
        pr_calls := (u, pos, l) # filter (\<lambda>(k, _). k \<noteq> u) (pr_calls st),
        pr_findings := pr_findings st @
          (if map_of (pr_calls st) u \<noteq> None
           then [v_error (Some l) ''duplicate_tool_call_id''
                   ''tool call ID is duplicated in effective context''] else [])\<rparr>"

definition output_step :: "nat \<Rightarrow> nat \<Rightarrow> ustr \<Rightarrow> pair_scan \<Rightarrow> pair_scan" where
  "output_step pos l u st =
     (let preceded = (case map_of (pr_calls st) u of Some (call, _) \<Rightarrow> call < pos | None \<Rightarrow> False)
      in st\<lparr>pr_answered := (if preceded then List.insert u (pr_answered st) else pr_answered st),
            pr_outputs := List.insert u (pr_outputs st),
            pr_findings := pr_findings st @
              (if preceded then [] else [v_warning (Some l) ''orphaned_tool_result''
                 ''tool output has no preceding call in effective context'']) @
              (if u \<in> set (pr_outputs st) then [v_warning (Some l) ''duplicate_tool_result''
                 ''tool result ID is duplicated in effective context''] else [])\<rparr>)"

definition pair_step :: "nat \<times> nat \<times> json \<Rightarrow> pair_scan \<Rightarrow> pair_scan" where
  "pair_step e st =
     (case e of (pos, l, p) \<Rightarrow>
        let st = supported_step l p st
        in (case record_call_id p of
              None \<Rightarrow> st
            | Some u \<Rightarrow> if is_call p then call_step pos l u st
                        else if is_call_output p then output_step pos l u st else st))"

definition paired_scan :: "(nat \<times> json) list \<Rightarrow> pair_scan" where
  "paired_scan effective =
     fold pair_step (enumerate 0 effective)
       \<lparr>pr_calls = [], pr_answered = [], pr_outputs = [], pr_findings = []\<rparr>"

definition verify_codex :: "json option list \<Rightarrow> verify_finding list" where
  "verify_codex records =
     (let st = codex_scanned records
      in if xs_stopped st then xs_findings st
         else let pr = paired_scan (xs_effective st)
              in xs_findings st @ pr_findings pr @
                 concat (map (\<lambda>(u, _, l). if u \<in> set (pr_answered pr) then [] else
                   [v_warning (Some l) ''unpaired_tool_call''
                      ''tool call has no matching later output in effective context''])
                   (sort_key fst (pr_calls pr))))"

section \<open>A file\<close>

record line_scan =
  ls_findings :: "verify_finding list"
  ls_records :: "json option list"
  ls_bad :: "nat list"

definition line_step :: "(ustr \<Rightarrow> reading) \<Rightarrow> nat \<times> ustr \<Rightarrow> line_scan \<Rightarrow> line_scan" where
  "line_step parse e st =
     (case e of (i, line) \<Rightarrow>
        if trim line = []
        then st\<lparr>ls_findings := ls_findings st @ [v_warning (Some i) ''blank_line'' ''line is blank whitespace''],
                ls_records := ls_records st @ [None]\<rparr>
        else case decode_record parse line of
               Inr v \<Rightarrow>
                 st\<lparr>ls_findings := ls_findings st @
                      (if is_object v \<and> string_field v (lit ''type'') then []
                       else [v_error (Some i) ''invalid_record'' ''record must be an object with a string type'']),
                    ls_records := ls_records st @ [Some v]\<rparr>
             | Inl Data \<Rightarrow>
                 st\<lparr>ls_findings := ls_findings st @
                      [v_error (Some i) ''ambiguous_json'' ''record contains duplicate JSON keys''],
                    ls_records := ls_records st @ [None]\<rparr>
             | Inl Malformed \<Rightarrow> st\<lparr>ls_records := ls_records st @ [None], ls_bad := ls_bad st @ [i]\<rparr>)"

definition scan_lines :: "(ustr \<Rightarrow> reading) \<Rightarrow> ustr list \<Rightarrow> line_scan" where
  "scan_lines parse ls =
     fold (line_step parse) (enumerate 0 ls) \<lparr>ls_findings = [], ls_records = [], ls_bad = []\<rparr>"

definition bad_line_findings :: "nat \<Rightarrow> nat list \<Rightarrow> verify_finding list" where
  "bad_line_findings n bad =
     (if length bad = 1 \<and> hd bad = n - 1
      then [v_warning (Some (hd bad)) ''partial_tail''
              ''final line is not valid JSON (possible torn write at tail of live session)'']
      else map (\<lambda>i. v_error (Some i) ''invalid_json'' ''line is not valid JSON'') bad)"

definition line_order :: "verify_finding \<Rightarrow> nat" where
  "line_order f = (case f_line f of Some l \<Rightarrow> l | None \<Rightarrow> 2 ^ 64 - 1)"

definition verify_lines :: "provider \<Rightarrow> (ustr \<Rightarrow> reading) \<Rightarrow> ustr list \<Rightarrow> verify_finding list" where
  "verify_lines p parse ls =
     (let st = scan_lines parse ls
      in sort_key line_order
           (ls_findings st @ bad_line_findings (length ls) (ls_bad st) @
            (case p of ClaudeCode \<Rightarrow> verify_claude (ls_records st) | Codex \<Rightarrow> verify_codex (ls_records st))))"

definition verify :: "provider \<Rightarrow> (ustr \<Rightarrow> reading) \<Rightarrow> nat \<Rightarrow> source_bytes \<Rightarrow> verify_finding list" where
  "verify p parse limit bytes =
     (if source_len bytes > limit
      then [v_error None ''transcript_limit'' ''transcript exceeds byte limit'']
      else case bytes of
             NotUtf8 _ \<Rightarrow> [v_error None ''invalid_utf8'' ''transcript contains invalid UTF-8'']
           | Utf8 s \<Rightarrow>
               let ls = take (MAX_ITEMS + 1) (lines s)
               in if length ls > MAX_ITEMS
                  then [v_error None ''transcript_limit'' ''transcript exceeds record limit'']
                  else if ls = [] then [v_warning None ''empty'' ''file is empty'']
                  else verify_lines p parse ls)"

end
