(* ===== verification/Load.thy ===== *)
theory Load
  imports Verify
begin

text \<open>
  Loading a session file into a transcript (\<open>load_bytes\<close> of \<open>crates/gobstopper-adapters/src/claude.rs\<close>
  and \<open>codex.rs\<close>): the usage accounting of the records, the live branch or window, and the items
  with what may be elided of each. The file is its text; \<open>limit\<close> stands for
  \<open>max_transcript_bytes()\<close>, \<open>sha\<close> for SHA-256 of a list of bytes.
\<close>

section \<open>Shared pieces\<close>

definition field_or_null :: "json \<Rightarrow> string \<Rightarrow> json" where
  "field_or_null v k = or_default JNull (json_get v (lit k))"

definition prompt_summary :: "json \<Rightarrow> ustr option" where
  "prompt_summary v =
     (case json_get v (lit ''content'') of
        None \<Rightarrow> None
      | Some c \<Rightarrow> let t = payload_text c in if t = [] then None else Some (take 200 t))"

text \<open>The call of a result: the name of its tool and a short label.\<close>

type_synonym call_metas = "(ustr \<times> ustr \<times> ustr) list"

definition put_call :: "ustr \<Rightarrow> ustr \<times> ustr \<Rightarrow> call_metas \<Rightarrow> call_metas" where
  "put_call i meta m = (i, meta) # filter (\<lambda>(k, _). k \<noteq> i) m"

definition call_args :: "ustr \<Rightarrow> ustr" where
  "call_args s = (if length s > 80 then take 80 s @ lit ''...'' else s)"

definition plain_text :: "json \<Rightarrow> ustr" where
  "plain_text v = (case v of JStr s \<Rightarrow> s | _ \<Rightarrow> json_text v)"

definition meta_of :: "ustr \<Rightarrow> ustr \<Rightarrow> ustr \<times> ustr" where
  "meta_of name args = (name, name @ lit ''('' @ call_args args @ lit '')'')"

definition text_tail :: "nat \<Rightarrow> ustr \<Rightarrow> ustr" where
  "text_tail n s = (if length s \<le> n then s else lit ''...'' @ drop (length s - n) s)"

definition label_for :: "call_metas \<Rightarrow> ustr \<Rightarrow> ustr" where
  "label_for calls i = (case map_of calls i of Some (_, l) \<Rightarrow> l | None \<Rightarrow> lit ''?'')"

text \<open>An item that is not available any more.\<close>

definition withdrawn :: "transcript_item \<Rightarrow> transcript_item" where
  "withdrawn it = it\<lparr>est_tokens := 0, elidable_bytes := None, elidable_parts := 0,
     tool_use_ids := [], payload_sha256 := None\<rparr>"

section \<open>Claude Code records\<close>

definition value_len :: "json \<Rightarrow> nat" where
  "value_len v = (case v of JStr s \<Rightarrow> str_len s | _ \<Rightarrow> str_len (json_text v))"

definition result_block :: "json \<Rightarrow> bool" where
  "result_block b \<longleftrightarrow>
     (case json_get b (lit ''tool_use_id'') of Some v \<Rightarrow> valid_link_id v | None \<Rightarrow> False) \<and>
     (case json_get b (lit ''content'') of Some c \<Rightarrow> supported_content c | None \<Rightarrow> False) \<and>
     only_keys [''type'', ''tool_use_id'', ''content'', ''is_error''] b \<and>
     (case json_get b (lit ''is_error'') of Some e \<Rightarrow> as_bool e \<noteq> None | None \<Rightarrow> True)"

definition supported_block :: "json \<Rightarrow> bool" where
  "supported_block b \<longleftrightarrow>
     (if has_type b ''text'' then supported_content (JArr [b])
      else has_type b ''tool_result'' \<and> result_block b)"

definition supported_result_message :: "json \<Rightarrow> bool" where
  "supported_result_message m \<longleftrightarrow>
     get_str m (lit ''role'') = Some (lit ''user'') \<and>
     (case Option.bind (json_get m (lit ''content'')) as_array of
        Some bs \<Rightarrow> list_all supported_block bs | None \<Rightarrow> False)"

definition content_blocks_of :: "json \<Rightarrow> json list" where
  "content_blocks_of m =
     (case Option.bind (json_get m (lit ''content'')) as_array of Some bs \<Rightarrow> bs | None \<Rightarrow> [])"

definition result_bytes :: "json \<Rightarrow> u64" where
  "result_bytes b = (case json_get b (lit ''content'') of Some c \<Rightarrow> eligible_bytes c | None \<Rightarrow> 0)"

definition tool_result_bytes :: "json \<Rightarrow> u64" where
  "tool_result_bytes m =
     (if supported_result_message m
      then sum_list (map result_bytes (filter (\<lambda>b. has_type b ''tool_result'') (content_blocks_of m)))
      else 0)"

definition has_tool_result :: "json \<Rightarrow> bool" where
  "has_tool_result m \<longleftrightarrow> tool_result_bytes m > 256"

definition collect_use :: "json \<Rightarrow> call_metas \<Rightarrow> call_metas" where
  "collect_use b m =
     (if \<not> has_type b ''tool_use'' then m
      else case get_str b (lit ''id'') of
             None \<Rightarrow> m
           | Some i \<Rightarrow>
               let name = (case get_str b (lit ''name'') of Some n \<Rightarrow> n | None \<Rightarrow> lit ''?'')
               in if length m < MAX_ITEMS
                  then put_call i (meta_of name (plain_text (field_or_null b ''input''))) m else m)"

definition collect_tool_uses :: "json \<Rightarrow> call_metas \<Rightarrow> call_metas" where
  "collect_tool_uses r m =
     (if has_type r ''assistant'' then fold collect_use (record_blocks r) m else m)"

definition result_snippet :: "call_metas \<Rightarrow> json \<Rightarrow> ustr" where
  "result_snippet calls b =
     (let i = (case get_str b (lit ''tool_use_id'') of Some i \<Rightarrow> i | None \<Rightarrow> lit ''?'');
          out = (case json_get b (lit ''content'') of Some c \<Rightarrow> payload_text c | None \<Rightarrow> [])
      in label_for calls i @ lit '' => '' @ text_tail 120 out)"

definition tool_result_summary :: "call_metas \<Rightarrow> json \<Rightarrow> ustr option" where
  "tool_result_summary calls m =
     (let parts = map (result_snippet calls) (filter (\<lambda>b. has_type b ''tool_result'') (content_blocks_of m))
      in if parts = [] then None else Some (take 240 (join (lit ''; '') parts)))"

text \<open>The blocks of a message whose content may be elided, and what the item says of them.\<close>

definition elidable_blocks :: "json \<Rightarrow> json list" where
  "elidable_blocks m =
     filter (\<lambda>b. has_type b ''tool_result'' \<and> result_bytes b \<noteq> 0) (content_blocks_of m)"

definition result_names :: "call_metas \<Rightarrow> json list \<Rightarrow> ustr list" where
  "result_names calls bs =
     sort (remdups (List.map_filter (\<lambda>b. Option.bind (get_str b (lit ''tool_use_id''))
       (\<lambda>i. map_option fst (map_of calls i))) bs))"

definition result_label :: "call_metas \<Rightarrow> json list \<Rightarrow> ustr" where
  "result_label calls bs =
     (if result_names calls bs = [] then lit ''tool_result'' else join (lit ''+'') (result_names calls bs))"

definition result_ids_of :: "json list \<Rightarrow> ustr list" where
  "result_ids_of bs = take 64 (List.map_filter (\<lambda>b. get_str b (lit ''tool_use_id'')) bs)"

definition result_parts :: "json list \<Rightarrow> u32" where
  "result_parts bs = fold (\<lambda>_ n. min (sat_add n 1) 1000000) bs 0"

definition result_fingerprint :: "(nat list \<Rightarrow> ustr) \<Rightarrow> json \<Rightarrow> ustr option" where
  "result_fingerprint sha m =
     (case Option.bind (json_get m (lit ''content'')) as_array of
        None \<Rightarrow> None
      | Some _ \<Rightarrow> fingerprint sha (map (\<lambda>b. field_or_null b ''content'') (elidable_blocks m)))"

subsection \<open>Usage\<close>

definition component :: "json_map \<Rightarrow> string \<Rightarrow> bool \<Rightarrow> context_reason option \<Rightarrow>
    u64 option \<times> context_reason option" where
  "component metrics key optional reason =
     (case map_of metrics (lit key) of
        None \<Rightarrow> if optional then (Some 0, reason)
                else (None, if reason = None then Some MissingComponent else reason)
      | Some v \<Rightarrow>
          if v = JNull
          then (None, if reason \<noteq> Some MalformedComponent then Some NullComponent else reason)
          else if as_u64 v \<noteq> None then (as_u64 v, reason)
          else (None, Some MalformedComponent))"

definition read_components :: "json_map \<Rightarrow> context_components \<times> context_reason option" where
  "read_components metrics =
     (let (i, r1) = component metrics ''input_tokens'' False None;
          (cr, r2) = component metrics ''cache_read_input_tokens'' True r1;
          (cw, r3) = component metrics ''cache_creation_input_tokens'' True r2;
          (ou, r4) = component metrics ''output_tokens'' True r3
      in (\<lparr>input_tokens = i, cache_read_tokens = cr, cache_creation_tokens = cw, output_tokens = ou\<rparr>, r4))"

definition usage_metrics :: "json \<Rightarrow> json_map option" where
  "usage_metrics r =
     (case path2 r ''message'' ''usage'' of Some (JObj kvs) \<Rightarrow> Some kvs | _ \<Rightarrow> None)"

definition context_usage :: "json \<Rightarrow> usage_sample" where
  "context_usage r =
     (case usage_metrics r of
        None \<Rightarrow>
          (invalidate_context_because
             (if path2 r ''message'' ''usage'' \<noteq> None then MalformedComponent else MissingComponent)
             default_usage)\<lparr>lifetime_scope := Partial\<rparr>
      | Some metrics \<Rightarrow>
          (let (c, reason) = read_components metrics;
               u = observe_context_components c reason default_usage;
               inp = Option.bind (checked_add (opt_or (input_tokens c)) (opt_or (cache_read_tokens c)))
                 (\<lambda>n. checked_add n (opt_or (cache_creation_tokens c)))
           in u\<lparr>lifetime_input_tokens := opt_or inp,
                lifetime_cached_tokens := min (opt_or (cache_read_tokens c)) (opt_or inp),
                lifetime_scope := (if reported_context u \<noteq> None \<and> inp \<noteq> None then Full else Partial)\<rparr>))"

definition absorb_usage :: "json \<Rightarrow> usage_sample \<Rightarrow> usage_sample" where
  "absorb_usage r u =
     (if \<not> has_type r ''assistant'' then u
      else
        let reading = context_usage r;
            inp = checked_add (lifetime_input_tokens u) (lifetime_input_tokens reading);
            cached = checked_add (lifetime_cached_tokens u) (lifetime_cached_tokens reading);
            u = (case inp of Some n \<Rightarrow> u\<lparr>lifetime_input_tokens := n\<rparr> | None \<Rightarrow> u);
            u = (case cached of
                   Some n \<Rightarrow> u\<lparr>lifetime_cached_tokens := min n (lifetime_input_tokens u)\<rparr> | None \<Rightarrow> u)
        in if lifetime_scope reading = Partial \<or> inp = None \<or> cached = None
           then u\<lparr>lifetime_scope := Partial\<rparr>
           else if lifetime_scope u \<noteq> Partial then u\<lparr>lifetime_scope := Full\<rparr> else u)"

record usage_projection =
  up_usage :: usage_sample
  up_links :: "claude_link list"
  up_samples :: "(nat \<times> usage_sample) list"
  up_resets :: "nat list"
  up_prompt_leaf :: "ustr option"
  up_fallback_leaf :: "ustr option"
  up_invalid :: bool
  up_ambiguous :: bool

definition empty_projection :: usage_projection where
  "empty_projection = \<lparr>up_usage = default_usage, up_links = [], up_samples = [], up_resets = [],
     up_prompt_leaf = None, up_fallback_leaf = None, up_invalid = False, up_ambiguous = False\<rparr>"

definition is_boundary :: "json \<Rightarrow> bool" where
  "is_boundary r \<longleftrightarrow> get_str r (lit ''subtype'') = Some (lit ''compact_boundary'')"

definition valid_parent :: "json \<Rightarrow> bool" where
  "valid_parent r \<longleftrightarrow>
     (case json_get r (lit ''parentUuid'') of None \<Rightarrow> True | Some v \<Rightarrow> v = JNull \<or> valid_link_id v)"

text \<open>The accounting of a record, its links, and the leaf it names.\<close>

definition push_sample :: "nat \<Rightarrow> json \<Rightarrow> usage_projection \<Rightarrow> usage_projection" where
  "push_sample l r p =
     p\<lparr>up_usage := absorb_usage r (up_usage p),
       up_resets := up_resets p @ (if is_boundary r then [l] else []),
       up_samples := up_samples p @ (if has_type r ''assistant'' then [(l, context_usage r)] else []),
       up_ambiguous := (up_ambiguous p \<or> (json_get r (lit ''uuid'') = None \<and>
         (has_type r ''user'' \<or> has_type r ''assistant'' \<or> is_boundary r)))\<rparr>"

definition push_leaf :: "json \<Rightarrow> usage_projection \<Rightarrow> usage_projection" where
  "push_leaf r p =
     (if \<not> has_type r ''last-prompt'' then p
      else case json_get r (lit ''leafUuid'') of
             None \<Rightarrow> p\<lparr>up_ambiguous := True\<rparr>
           | Some v \<Rightarrow> if valid_link_id v then p\<lparr>up_prompt_leaf := as_str v\<rparr>
                        else p\<lparr>up_ambiguous := True\<rparr>)"

definition push_record :: "nat \<Rightarrow> json \<Rightarrow> usage_projection \<Rightarrow> usage_projection" where
  "push_record l r p =
     (if \<not> is_object r then p\<lparr>up_invalid := True\<rparr>
      else
        let p = push_sample l r p
        in case json_get r (lit ''uuid'') of
             None \<Rightarrow> push_leaf r p
           | Some v \<Rightarrow>
               if \<not> valid_link_id v \<or> \<not> valid_parent r then p\<lparr>up_ambiguous := True\<rparr>
               else
                 let u = (case as_str v of Some s \<Rightarrow> s | None \<Rightarrow> [])
                 in push_leaf r (p\<lparr>up_links := up_links p @ [(l, u, get_str r (lit ''parentUuid''))],
                      up_fallback_leaf :=
                        (if has_type r ''user'' \<or> has_type r ''assistant'' \<or> has_type r ''attachment''
                         then Some u else up_fallback_leaf p)\<rparr>))"

definition projected_leaf :: "usage_projection \<Rightarrow> ustr option" where
  "projected_leaf p = (case up_prompt_leaf p of Some u \<Rightarrow> Some u | None \<Rightarrow> up_fallback_leaf p)"

definition projected_live :: "usage_projection \<Rightarrow> nat list" where
  "projected_live p =
     (case projected_leaf p of
        Some leaf \<Rightarrow> if \<not> up_ambiguous p \<and> \<not> up_invalid p then live_branch (up_links p) leaf else []
      | None \<Rightarrow> [])"

definition newest_sample :: "nat list \<Rightarrow> usage_projection \<Rightarrow> (nat \<times> usage_sample) option" where
  "newest_sample live p = find (\<lambda>(l, _). l \<in> set live) (rev (up_samples p))"

definition finish_usage :: "usage_projection \<Rightarrow> usage_sample" where
  "finish_usage p =
     (let live = projected_live p;
          u = (up_usage p)\<lparr>u_context_tokens := 0, context_state := Absent\<rparr>;
          u = (if up_invalid p \<or> up_ambiguous p \<or>
                  (live = [] \<and> (projected_leaf p \<noteq> None \<or> up_links p \<noteq> []))
               then (invalidate_context_because
                       (if up_invalid p then InvalidRecord else InvalidAncestry) u)\<lparr>lifetime_scope := Partial\<rparr>
               else (case newest_sample live p of
                       Some (_, c) \<Rightarrow> u\<lparr>u_context_tokens := u_context_tokens c,
                         context_state := context_state c, u_components := u_components c,
                         context_reason := context_reason c\<rparr>
                     | None \<Rightarrow> u))
      in if list_ex (\<lambda>l. l \<in> set live \<and>
              (case newest_sample live p of Some (n, _) \<Rightarrow> l > n | None \<Rightarrow> True)) (up_resets p)
         then reset_context u else u)"

subsection \<open>Loading\<close>

definition project_line :: "(ustr \<Rightarrow> reading) \<Rightarrow> nat \<times> ustr \<Rightarrow> usage_projection \<Rightarrow> usage_projection" where
  "project_line parse e p =
     (case e of (i, line) \<Rightarrow>
        if trim line = [] then p
        else case decode_ok parse line of
               Some r \<Rightarrow> push_record i r p
             | None \<Rightarrow> p\<lparr>up_invalid := True\<rparr>)"

definition project_lines :: "(ustr \<Rightarrow> reading) \<Rightarrow> ustr list \<Rightarrow> usage_projection" where
  "project_lines parse ls = fold (project_line parse) (enumerate 0 ls) empty_projection"

definition claude_kind :: "json \<Rightarrow> item_kind" where
  "claude_kind r =
     (if has_type r ''user''
      then (if has_tool_result (field_or_null r ''message'') then ToolResult else User)
      else if has_type r ''assistant'' then Assistant
      else if has_type r ''system'' then System else Meta)"

definition claude_item :: "(nat list \<Rightarrow> ustr) \<Rightarrow> call_metas \<Rightarrow> nat \<Rightarrow> json \<Rightarrow> transcript_item option" where
  "claude_item sha calls i r =
     (let k = claude_kind r; m = field_or_null r ''message'';
          bs = (if k = ToolResult then elidable_blocks m else [])
      in if k = Meta \<and> \<not> has_type r ''attachment'' then None
         else Some \<lparr>line_index = i, kind = k, est_tokens = estimate_tokens (value_len m),
           elidable_bytes = (if k = ToolResult then Some (tool_result_bytes m) else None),
           elidable_parts = result_parts bs,
           label = (if k = ToolResult then result_label calls bs else str_field r (lit ''type'')),
           summary = (if k = User then prompt_summary m
                      else if k = ToolResult then tool_result_summary calls m else None),
           uuid = get_str r (lit ''uuid''), parent_uuid = get_str r (lit ''parentUuid''),
           tool_use_ids = result_ids_of bs,
           payload_sha256 = (if k = ToolResult then result_fingerprint sha m else None)\<rparr>)"

definition item_line :: "(ustr \<Rightarrow> reading) \<Rightarrow> (nat list \<Rightarrow> ustr) \<Rightarrow> nat list \<Rightarrow> nat \<times> ustr \<Rightarrow>
    transcript_item list \<times> call_metas \<Rightarrow> transcript_item list \<times> call_metas" where
  "item_line parse sha live e st =
     (case (e, st) of ((i, line), (its, calls)) \<Rightarrow>
        case decode_ok parse line of
          None \<Rightarrow> (its, calls)
        | Some r \<Rightarrow>
            let calls = (if i \<in> set live then collect_tool_uses r calls else calls)
            in (its @ opt_list (claude_item sha calls i r), calls))"

definition branch_item :: "bool \<Rightarrow> nat list \<Rightarrow> nat list \<Rightarrow> transcript_item \<Rightarrow> transcript_item" where
  "branch_item ambiguous live linked it =
     (if ambiguous \<or> live = [] \<or> (line_index it \<in> set linked \<and> line_index it \<notin> set live) \<or>
         (elidable_bytes it \<noteq> None \<and> line_index it \<notin> set linked)
      then (withdrawn it)\<lparr>label := label it @
             (if live = [] then lit '' (unresolved branch)'' else lit '' (dead branch)'')\<rparr>
      else it)"

definition has_code :: "string \<Rightarrow> verify_finding list \<Rightarrow> bool" where
  "has_code c fs \<longleftrightarrow> list_ex (\<lambda>f. f_code f = c) fs"

definition load_claude :: "(ustr \<Rightarrow> reading) \<Rightarrow> (nat list \<Rightarrow> ustr) \<Rightarrow> nat \<Rightarrow> session_handle \<Rightarrow> ustr \<Rightarrow>
    transcript rresult" where
  "load_claude parse sha limit handle raw =
     (if str_len raw > limit then Inl ''transcript exceeds byte limit''
      else if length (lines raw) > MAX_ITEMS then Inl ''transcript exceeds record limit''
      else
        let ls = lines raw;
            p = project_lines parse ls;
            live = projected_live p;
            its = fst (fold (item_line parse sha live) (enumerate 0 ls) ([], []));
            ambiguous = has_code ''duplicate_tool_call_id'' (verify ClaudeCode parse limit (Utf8 raw))
        in Inr \<lparr>session = handle,
             items = map (branch_item ambiguous live (map fst (up_links p))) its,
             usage = (if ambiguous then invalidate_context (finish_usage p) else finish_usage p)\<rparr>)"

section \<open>Codex records\<close>

definition classify :: "ustr \<Rightarrow> ustr option \<Rightarrow> item_kind" where
  "classify t role =
     (if t = lit ''message'' then
        (if role = Some (lit ''user'') then User
         else if role = Some (lit ''assistant'') then Assistant
         else if role = Some (lit ''system'') \<or> role = Some (lit ''developer'') then System
         else Meta)
      else if t = lit ''agent_message'' then Assistant
      else if t = lit ''function_call'' \<or> t = lit ''custom_tool_call'' \<or> t = lit ''local_shell_call'' then ToolCall
      else if t = lit ''function_call_output'' \<or> t = lit ''custom_tool_call_output'' then ToolResult
      else if t = lit ''reasoning'' then Reasoning
      else Meta)"

definition output_text :: "json \<Rightarrow> ustr option" where
  "output_text p =
     (if has_type p ''function_call_output'' then get_str p (lit ''output'')
      else if has_type p ''custom_tool_call_output'' then
        map_option (\<lambda>bs. concat (List.map_filter
            (\<lambda>b. if has_type b ''input_text'' then get_str b (lit ''text'') else None) bs))
          (Option.bind (json_get p (lit ''output'')) as_array)
      else None)"

definition summary_call_id :: "json \<Rightarrow> ustr" where
  "summary_call_id p = (case Option.bind (call_id_field p) as_str of Some s \<Rightarrow> s | None \<Rightarrow> lit ''?'')"

definition annotated_output_summary :: "call_metas \<Rightarrow> json \<Rightarrow> ustr option" where
  "annotated_output_summary calls p =
     (case output_text p of
        None \<Rightarrow> None
      | Some t \<Rightarrow> if t = [] then None
          else Some (take 240 (label_for calls (summary_call_id p) @ lit '' => '' @ text_tail 180 t)))"

definition get_either :: "json \<Rightarrow> string \<Rightarrow> string \<Rightarrow> json option" where
  "get_either p a b = (case json_get p (lit a) of Some v \<Rightarrow> Some v | None \<Rightarrow> json_get p (lit b))"

definition call_label :: "json \<Rightarrow> ustr \<times> ustr" where
  "call_label p =
     meta_of (case Option.bind (get_either p ''name'' ''command'') as_str of Some n \<Rightarrow> n | None \<Rightarrow> lit ''?'')
       (case get_either p ''arguments'' ''input'' of Some v \<Rightarrow> plain_text v | None \<Rightarrow> [])"

definition codex_elidable :: "json \<Rightarrow> u64 option" where
  "codex_elidable p =
     (case json_get p (lit ''output'') of
        None \<Rightarrow> None
      | Some out \<Rightarrow>
          if \<not> supported_item p \<or> \<not> supported_content out then None
          else (case output_text p of
                  None \<Rightarrow> None
                | Some t \<Rightarrow> let bytes = (of_nat (str_len t) :: u64)
                             in if bytes > 256 then Some bytes else None))"

subsection \<open>Usage\<close>

text \<open>The three places of a usage record, for the two dialects of it.\<close>

definition usage_places :: "json \<Rightarrow> (json \<times> json \<times> json) option" where
  "usage_places r =
     (let p = field_or_null r ''payload''
      in if has_type r ''token_usage_record'' then
           Some (field_or_null p ''usage'', field_or_null p ''thread_token_usage'',
             field_or_null p ''model_context_window'')
         else if has_type r ''event_msg'' \<and> has_type p ''token_count'' then
           (let i = field_or_null p ''info''
            in Some (field_or_null i ''last_token_usage'', field_or_null i ''total_token_usage'',
                 field_or_null i ''model_context_window''))
         else None)"

definition u64_field :: "json \<Rightarrow> string \<Rightarrow> u64 option" where
  "u64_field v k = as_u64 (field_or_null v k)"

text \<open>Some of the fields is there and not an unsigned integer.\<close>

definition malformed_fields :: "json \<Rightarrow> string list \<Rightarrow> bool" where
  "malformed_fields v ks \<longleftrightarrow>
     is_object v \<and> list_ex (\<lambda>k. case json_get v (lit k) of Some x \<Rightarrow> as_u64 x = None | None \<Rightarrow> False) ks"

definition codex_absorb_usage :: "json \<Rightarrow> usage_sample \<Rightarrow> usage_sample" where
  "codex_absorb_usage r u =
     (case usage_places r of
        None \<Rightarrow> u
      | Some (lst, tot, window) \<Rightarrow>
          let u = observe_cumulative_report
                (map_option (\<lambda>i. sat_add i (opt_or (u64_field lst ''output_tokens''))) (u64_field lst ''input_tokens''))
                (u64_field tot ''input_tokens'') (u64_field tot ''cached_input_tokens'') (as_u64 window) u;
              u = (if malformed_fields lst [''input_tokens'', ''output_tokens''] then invalidate_context u else u)
          in if malformed_fields tot [''input_tokens'', ''cached_input_tokens'']
             then u\<lparr>lifetime_scope := Partial\<rparr> else u)"

subsection \<open>Loading\<close>

record codex_load =
  cl_items :: "transcript_item list"
  cl_window :: nat
  cl_ambiguous :: bool
  cl_usage :: usage_sample
  cl_calls :: call_metas

definition empty_codex_load :: codex_load where
  "empty_codex_load = \<lparr>cl_items = [], cl_window = 0, cl_ambiguous = False, cl_usage = default_usage,
     cl_calls = []\<rparr>"

definition response_item :: "(nat list \<Rightarrow> ustr) \<Rightarrow> call_metas \<Rightarrow> nat \<Rightarrow> json \<Rightarrow> transcript_item" where
  "response_item sha calls i r =
     (let p = field_or_null r ''payload'';
          ptype = str_field p (lit ''type'');
          k = classify ptype (get_str p (lit ''role''));
          elidable = codex_elidable p;
          cid = record_call_id p
      in \<lparr>line_index = i, kind = k,
          est_tokens = (if k = Meta then 0 else estimate_tokens (str_len (json_text p))),
          elidable_bytes = elidable,
          elidable_parts = (if elidable \<noteq> None then 1 else 0),
          label = (case Option.bind cid (map_of calls) of Some (n, _) \<Rightarrow> n | None \<Rightarrow> ptype),
          summary = (if k = User then prompt_summary p
                     else if k = ToolResult then annotated_output_summary calls p else None),
          uuid = Option.bind (case json_get r (lit ''id'') of Some v \<Rightarrow> Some v
                              | None \<Rightarrow> json_get p (lit ''id'')) as_str,
          parent_uuid = get_str r (lit ''parent_id''),
          tool_use_ids = (if k = ToolResult then opt_list cid else []),
          payload_sha256 = (if elidable = None then None
             else Option.bind (json_get p (lit ''output'')) (\<lambda>out. fingerprint sha [out]))\<rparr>)"

definition response_step :: "(nat list \<Rightarrow> ustr) \<Rightarrow> nat \<Rightarrow> json \<Rightarrow> codex_load \<Rightarrow> codex_load" where
  "response_step sha i r st =
     (let p = field_or_null r ''payload'';
          calls = (if classify (str_field p (lit ''type'')) (get_str p (lit ''role'')) = ToolCall
                   then (case record_call_id p of
                           Some c \<Rightarrow> put_call c (call_label p) (cl_calls st) | None \<Rightarrow> cl_calls st)
                   else cl_calls st)
      in st\<lparr>cl_calls := calls, cl_items := cl_items st @ [response_item sha calls i r]\<rparr>)"

definition window_calls :: "json list \<Rightarrow> call_metas" where
  "window_calls hist =
     fold (\<lambda>p m. if is_call p then (case record_call_id p of
       Some c \<Rightarrow> put_call c (call_label p) m | None \<Rightarrow> m) else m) hist []"

definition compacted_item :: "(nat list \<Rightarrow> ustr) \<Rightarrow> nat \<Rightarrow> json \<Rightarrow> json list option \<Rightarrow> transcript_item" where
  "compacted_item sha i r history =
     (let hist = (case history of Some h \<Rightarrow> if list_all supported_item h then h else [] | None \<Rightarrow> []);
          sizes = List.map_filter codex_elidable hist;
          bytes = fold (\<lambda>n acc. sat_add acc n) sizes 0;
          parts = fold (\<lambda>_ n. sat_add n 1) sizes 0
      in \<lparr>line_index = i, kind = ToolResult,
          est_tokens = estimate_tokens
            (case path2 r ''payload'' ''replacement_history'' of Some h \<Rightarrow> str_len (json_text h) | None \<Rightarrow> 0),
          elidable_bytes = (if bytes > 0 then Some bytes else None),
          elidable_parts = parts, label = lit ''compacted'', summary = None,
          uuid = get_str r (lit ''id''), parent_uuid = None, tool_use_ids = [],
          payload_sha256 = fingerprint sha
            (map (\<lambda>p. field_or_null p ''output'') (filter (\<lambda>p. codex_elidable p \<noteq> None) hist))\<rparr>)"

definition compacted_step :: "(nat list \<Rightarrow> ustr) \<Rightarrow> nat \<Rightarrow> json \<Rightarrow> codex_load \<Rightarrow> codex_load rresult" where
  "compacted_step sha i r st =
     (let history = Option.bind (path2 r ''payload'' ''replacement_history'') as_array;
          old = take (cl_window st) (cl_items st) @ map withdrawn (drop (cl_window st) (cl_items st))
      in if (case history of Some h \<Rightarrow> length h > MAX_ITEMS | None \<Rightarrow> False)
         then Inl ''compacted history exceeds record limit''
         else Inr \<lparr>cl_items = old @ [compacted_item sha i r history], cl_window = length old,
           cl_ambiguous = (cl_ambiguous st \<or> history = None), cl_usage = reset_context (cl_usage st),
           cl_calls = window_calls (case history of Some h \<Rightarrow> h | None \<Rightarrow> [])\<rparr>)"

definition codex_line :: "(ustr \<Rightarrow> reading) \<Rightarrow> (nat list \<Rightarrow> ustr) \<Rightarrow> nat \<Rightarrow> ustr \<Rightarrow> codex_load \<Rightarrow>
    codex_load rresult" where
  "codex_line parse sha i line st =
     (case decode_ok parse line of
        None \<Rightarrow> Inr (st\<lparr>cl_ambiguous := (cl_ambiguous st \<or> trim line \<noteq> [])\<rparr>)
      | Some r \<Rightarrow>
          let st = st\<lparr>cl_ambiguous := (cl_ambiguous st \<or> \<not> is_object r \<or>
                (case json_get r (lit ''ordinal'') of Some v \<Rightarrow> as_u64 v = None | None \<Rightarrow> False))\<rparr>
          in if has_type r ''token_usage_record'' \<or> has_type r ''event_msg''
             then Inr (st\<lparr>cl_usage := codex_absorb_usage r (cl_usage st)\<rparr>)
             else if has_type r ''response_item'' then Inr (response_step sha i r st)
             else if has_type r ''compacted'' then compacted_step sha i r st
             else Inr st)"

fun codex_lines :: "(ustr \<Rightarrow> reading) \<Rightarrow> (nat list \<Rightarrow> ustr) \<Rightarrow> nat \<Rightarrow> ustr list \<Rightarrow> codex_load \<Rightarrow>
    codex_load rresult" where
  "codex_lines parse sha i [] st = Inr st"
| "codex_lines parse sha i (l # ls) st =
     (if i \<ge> MAX_ITEMS then Inl ''transcript exceeds record limit''
      else case codex_line parse sha i l st of
             Inl m \<Rightarrow> Inl m
           | Inr st' \<Rightarrow> codex_lines parse sha (i + 1) ls st')"

definition load_codex :: "(ustr \<Rightarrow> reading) \<Rightarrow> (nat list \<Rightarrow> ustr) \<Rightarrow> nat \<Rightarrow> session_handle \<Rightarrow> ustr \<Rightarrow>
    transcript rresult" where
  "load_codex parse sha limit handle raw =
     (if str_len raw > limit then Inl ''transcript exceeds byte limit''
      else case codex_lines parse sha 0 (lines raw) empty_codex_load of
             Inl m \<Rightarrow> Inl m
           | Inr st \<Rightarrow>
               let fs = verify Codex parse limit (Utf8 raw);
                   ambiguous = (cl_ambiguous st \<or> has_code ''duplicate_tool_call_id'' fs \<or>
                     has_code ''duplicate_tool_result'' fs)
               in Inr \<lparr>session = handle,
                    items = (if ambiguous then map withdrawn (cl_items st) else cl_items st),
                    usage = (if ambiguous
                      then (invalidate_context (cl_usage st))\<lparr>lifetime_scope := Partial\<rparr> else cl_usage st)\<rparr>)"

definition load_bytes :: "provider \<Rightarrow> (ustr \<Rightarrow> reading) \<Rightarrow> (nat list \<Rightarrow> ustr) \<Rightarrow> nat \<Rightarrow> session_handle \<Rightarrow>
    ustr \<Rightarrow> transcript rresult" where
  "load_bytes p = (case p of ClaudeCode \<Rightarrow> load_claude | Codex \<Rightarrow> load_codex)"

end
