(* ===== verification/Surgery.thy ===== *)
theory Surgery
  imports Load
begin

text \<open>
  Lowering edits to a rewritten session file (\<open>elision_targets\<close> of \<open>payload.rs\<close>, \<open>elide_line\<close>,
  \<open>apply_elide\<close>, \<open>apply_inner\<close> and \<open>transform\<close> of \<open>claude.rs\<close> and \<open>codex.rs\<close>, \<open>prepare\<close> and
  \<open>append_record\<close> of \<open>transaction.rs\<close>). Nothing is written to disk here: the result is the text of
  the candidate. \<open>new_id n label\<close> stands for the identifier \<open>generate_session_id\<close> returns for the
  edit at position \<open>n\<close>, \<open>home\<close> for the environment variable \<open>HOME\<close>. The bytes freed are added up
  as natural numbers: they are parts of the file.
\<close>

section \<open>Elision\<close>

definition detached :: "provider \<Rightarrow> session_handle" where
  "detached p = \<lparr>provider = p, session_id = lit ''detached'', path = [], cwd = None, age_secs = - 1\<rparr>"

definition elision_targets :: "provider \<Rightarrow> (ustr \<Rightarrow> reading) \<Rightarrow> (nat list \<Rightarrow> ustr) \<Rightarrow> nat \<Rightarrow> ustr \<Rightarrow>
    nat list \<Rightarrow> nat list rresult" where
  "elision_targets p parse sha limit raw requested =
     (case load_bytes p parse sha limit (detached p) raw of
        Inl m \<Rightarrow> Inl m
      | Inr t \<Rightarrow> let eligible = map line_index (filter is_elidable (items t))
                 in Inr (filter (\<lambda>i. i \<in> set eligible) requested))"

definition trim_nl :: "ustr \<Rightarrow> ustr" where
  "trim_nl s = rev (dropWhile ((=) nl) (rev s))"

definition line_end :: "ustr \<Rightarrow> ustr" where
  "line_end piece = (if ends_with piece [nl] then [nl] else [])"

text \<open>The rewriting of every targeted piece of the file and the bytes it frees.\<close>

definition rewrite_pieces :: "(nat \<Rightarrow> ustr \<Rightarrow> ustr \<times> nat) \<Rightarrow> nat list \<Rightarrow> ustr \<Rightarrow> ustr \<times> nat" where
  "rewrite_pieces f targets raw =
     (let out = map (\<lambda>(i, piece). if i \<in> set targets then f i piece else (piece, 0))
            (enumerate 0 (split_inclusive raw))
      in (concat (map fst out), sum_list (map snd out)))"

subsection \<open>Claude Code\<close>

definition elide_block :: "ustr \<Rightarrow> ustr option \<Rightarrow> json \<Rightarrow> json \<times> nat" where
  "elide_block template override b =
     (if \<not> has_type b ''tool_result'' then (b, 0)
      else case json_get b (lit ''content'') of
             None \<Rightarrow> (b, 0)
           | Some c \<Rightarrow>
               let stub = (case override of Some s \<Rightarrow> s
                     | None \<Rightarrow> stub_for template (eligible_bytes c) (lit ''tool_result''));
                   (c', n) = elide stub c
               in (alter_field (lit ''content'') (\<lambda>_. c') b, unat n))"

definition elide_record :: "ustr \<Rightarrow> ustr option \<Rightarrow> json \<Rightarrow> json \<times> nat" where
  "elide_record template override r =
     (let done' = map (elide_block template override) (record_blocks r)
      in (alter_field (lit ''message'')
            (alter_field (lit ''content'') (\<lambda>_. JArr (map fst done'))) r, sum_list (map snd done')))"

definition elide_line :: "(ustr \<Rightarrow> reading) \<Rightarrow> ustr \<Rightarrow> ustr \<Rightarrow> ustr option \<Rightarrow> ustr \<times> nat" where
  "elide_line parse line template override =
     (case decode_ok parse line of
        None \<Rightarrow> (line, 0)
      | Some r \<Rightarrow>
          if \<not> has_type r ''user'' \<or> \<not> supported_result_message (field_or_null r ''message'')
          then (line, 0)
          else let (r', n) = elide_record template override r
               in if n = 0 then (line, 0) else (json_text r', n))"

definition claude_piece :: "(ustr \<Rightarrow> reading) \<Rightarrow> ustr \<Rightarrow> (nat \<times> ustr) list \<Rightarrow> nat \<Rightarrow> ustr \<Rightarrow> ustr \<times> nat" where
  "claude_piece parse template per i piece =
     (let (text, n) = elide_line parse (trim_nl piece) template (map_of per i)
      in (text @ line_end piece, n))"

definition claude_apply_elide :: "(ustr \<Rightarrow> reading) \<Rightarrow> ustr \<Rightarrow> nat list \<Rightarrow> ustr \<Rightarrow> (nat \<times> ustr) list \<Rightarrow> ustr \<times> nat" where
  "claude_apply_elide parse raw targets template per =
     rewrite_pieces (claude_piece parse template per) targets raw"

subsection \<open>Codex\<close>

definition stub_render :: "ustr \<Rightarrow> (nat \<times> ustr) list \<Rightarrow> nat \<Rightarrow> u64 \<Rightarrow> ustr \<Rightarrow> ustr" where
  "stub_render template per i old k =
     (case map_of per i of Some s \<Rightarrow> s | None \<Rightarrow> stub_for template old k)"

definition elide_output :: "(u64 \<Rightarrow> ustr) \<Rightarrow> json \<Rightarrow> json \<times> nat" where
  "elide_output render p =
     (case codex_elidable p of
        None \<Rightarrow> (p, 0)
      | Some old \<Rightarrow>
          (case json_get p (lit ''output'') of
             None \<Rightarrow> (p, 0)
           | Some out \<Rightarrow> let (out', n) = elide (render old) out
                         in (alter_field (lit ''output'') (\<lambda>_. out') p, unat n)))"

definition elide_history :: "(u64 \<Rightarrow> ustr) \<Rightarrow> json \<Rightarrow> json \<times> nat" where
  "elide_history render p =
     (case Option.bind (json_get p (lit ''replacement_history'')) as_array of
        None \<Rightarrow> (p, 0)
      | Some hist \<Rightarrow>
          let done' = map (elide_output render) hist
          in (alter_field (lit ''replacement_history'') (\<lambda>_. JArr (map fst done')) p,
              sum_list (map snd done')))"

text \<open>The record after the rewriting and the bytes freed; zero when it is passed through.\<close>

definition codex_elide_record :: "ustr \<Rightarrow> (nat \<times> ustr) list \<Rightarrow> nat \<Rightarrow> json \<Rightarrow> json \<times> nat" where
  "codex_elide_record template per i r =
     (if \<not> has_type r ''response_item'' \<and> \<not> has_type r ''compacted'' then (r, 0)
      else case json_get r (lit ''payload'') of
             None \<Rightarrow> (r, 0)
           | Some p \<Rightarrow>
               let k = (case get_str p (lit ''type'') of Some t \<Rightarrow> t | None \<Rightarrow> lit ''output'');
                   render = (\<lambda>old. stub_render template per i old k);
                   (p', n) = (if has_type r ''compacted'' then elide_history render p
                              else elide_output render p)
               in (alter_field (lit ''payload'') (\<lambda>_. p') r, n))"

definition codex_piece :: "(ustr \<Rightarrow> reading) \<Rightarrow> ustr \<Rightarrow> (nat \<times> ustr) list \<Rightarrow> nat \<Rightarrow> ustr \<Rightarrow> ustr \<times> nat" where
  "codex_piece parse template per i piece =
     (case decode_ok parse (trim_nl piece) of
        None \<Rightarrow> (piece, 0)
      | Some r \<Rightarrow> let (r', n) = codex_elide_record template per i r
                   in if n = 0 then (piece, 0) else (json_text r' @ line_end piece, n))"

definition codex_apply_elide :: "(ustr \<Rightarrow> reading) \<Rightarrow> ustr \<Rightarrow> nat list \<Rightarrow> ustr \<Rightarrow> (nat \<times> ustr) list \<Rightarrow> ustr \<times> nat" where
  "codex_apply_elide parse raw targets template per =
     rewrite_pieces (codex_piece parse template per) targets raw"

section \<open>State cards\<close>

definition append_record :: "json \<Rightarrow> ustr \<Rightarrow> ustr" where
  "append_record r raw =
     raw @ (if raw \<noteq> [] \<and> \<not> ends_with raw [nl] then [nl] else []) @ json_text r @ [nl]"

definition opt_json :: "ustr option \<Rightarrow> json" where
  "opt_json v = (case v of Some s \<Rightarrow> JStr s | None \<Rightarrow> JNull)"

definition decoded_lines :: "(ustr \<Rightarrow> reading) \<Rightarrow> ustr \<Rightarrow> json list" where
  "decoded_lines parse raw = List.map_filter (decode_ok parse) (lines raw)"

definition last_with :: "(json \<Rightarrow> bool) \<Rightarrow> json list \<Rightarrow> json option" where
  "last_with P rs = find P (rev rs)"

definition canonical_leaf :: "json list \<Rightarrow> ustr option" where
  "canonical_leaf rs =
     (case Option.bind (last_with (\<lambda>r. has_type r ''last-prompt'') rs) (\<lambda>r. get_str r (lit ''leafUuid'')) of
        Some u \<Rightarrow> Some u
      | None \<Rightarrow> last_some (\<lambda>r. if has_type r ''user'' \<or> has_type r ''assistant''
                               then get_str r (lit ''uuid'') else None) rs)"

definition card_links :: "json list \<Rightarrow> claude_link list" where
  "card_links rs =
     List.map_filter (\<lambda>(i, r). map_option (\<lambda>u. (i, u, get_str r (lit ''parentUuid'')))
       (get_str r (lit ''uuid''))) (enumerate 0 rs)"

definition first_str :: "string \<Rightarrow> json list \<Rightarrow> ustr option" where
  "first_str k rs =
     (case List.map_filter (\<lambda>r. get_str r (lit k)) rs of [] \<Rightarrow> None | s # _ \<Rightarrow> Some s)"

text \<open>A field of the last user record, else of the record of the leaf, else the default.\<close>

definition inherited :: "json list \<Rightarrow> string \<Rightarrow> ustr \<Rightarrow> json" where
  "inherited rs k dflt =
     (let of_user = Option.bind (last_with (\<lambda>r. has_type r ''user'') rs) (\<lambda>r. get_str r (lit k));
          leaf = Option.bind (canonical_leaf rs) (\<lambda>u. find (\<lambda>r. get_str r (lit ''uuid'') = Some u) rs)
      in case of_user of
           Some s \<Rightarrow> JStr s
         | None \<Rightarrow> (case Option.bind leaf (\<lambda>r. get_str r (lit k)) of Some s \<Rightarrow> JStr s | None \<Rightarrow> JStr dflt))"

definition card_user :: "(ustr \<Rightarrow> ustr) \<Rightarrow> ustr \<Rightarrow> json list \<Rightarrow> ustr \<Rightarrow> json" where
  "card_user ids home rs text =
     JObj [(lit ''type'', JStr (lit ''user'')),
       (lit ''uuid'', JStr (ids (lit ''claude-digest''))),
       (lit ''parentUuid'', opt_json (canonical_leaf rs)),
       (lit ''promptId'', JStr (ids (lit ''claude-prompt''))),
       (lit ''timestamp'', inherited rs ''timestamp'' []),
       (lit ''permissionMode'', inherited rs ''permissionMode'' (lit ''auto'')),
       (lit ''promptSource'', inherited rs ''promptSource'' (lit ''cli'')),
       (lit ''userType'', inherited rs ''userType'' (lit ''external'')),
       (lit ''entrypoint'', inherited rs ''entrypoint'' (lit ''cli'')),
       (lit ''cwd'', inherited rs ''cwd'' home),
       (lit ''sessionId'', opt_json (first_str ''sessionId'' rs)),
       (lit ''version'', inherited rs ''version'' (lit ''2.1.0'')),
       (lit ''gitBranch'', inherited rs ''gitBranch'' (lit ''main'')),
       (lit ''message'', JObj [(lit ''role'', JStr (lit ''user'')), (lit ''content'', JStr text)])]"

definition card_prompt :: "(ustr \<Rightarrow> ustr) \<Rightarrow> json list \<Rightarrow> ustr \<Rightarrow> json" where
  "card_prompt ids rs text =
     JObj [(lit ''type'', JStr (lit ''last-prompt'')),
       (lit ''uuid'', JStr (ids (lit ''claude-last-prompt''))),
       (lit ''lastPrompt'', JStr text),
       (lit ''leafUuid'', JStr (ids (lit ''claude-digest''))),
       (lit ''parentUuid'', JStr (ids (lit ''claude-digest''))),
       (lit ''sessionId'', opt_json (first_str ''sessionId'' rs))]"

definition card_mode :: "(ustr \<Rightarrow> ustr) \<Rightarrow> json list \<Rightarrow> json" where
  "card_mode ids rs =
     JObj [(lit ''type'', JStr (lit ''mode'')),
       (lit ''uuid'', JStr (ids (lit ''claude-mode''))),
       (lit ''mode'', JStr (case Option.bind (last_with (\<lambda>r. has_type r ''mode'') rs)
            (\<lambda>r. get_str r (lit ''mode'')) of Some m \<Rightarrow> m | None \<Rightarrow> lit ''auto'')),
       (lit ''parentUuid'', JStr (ids (lit ''claude-last-prompt''))),
       (lit ''sessionId'', opt_json (first_str ''sessionId'' rs))]"

definition claude_inject :: "(ustr \<Rightarrow> reading) \<Rightarrow> (ustr \<Rightarrow> ustr) \<Rightarrow> ustr \<Rightarrow> digest_block \<Rightarrow> ustr \<Rightarrow> ustr rresult" where
  "claude_inject parse ids home d raw =
     (let rs = decoded_lines parse raw; text = digest_text d
      in if (case canonical_leaf rs of Some leaf \<Rightarrow> live_branch (card_links rs) leaf = [] | None \<Rightarrow> False)
         then Inl ''Claude digest attachment has ambiguous or broken linkage''
         else Inr (append_record (card_mode ids rs) (append_record (card_prompt ids rs text)
           (append_record (card_user ids home rs text) raw))))"

definition codex_card :: "ustr \<Rightarrow> json" where
  "codex_card text =
     JObj [(lit ''timestamp'', JNull), (lit ''type'', JStr (lit ''response_item'')),
       (lit ''payload'', JObj [(lit ''type'', JStr (lit ''message'')), (lit ''role'', JStr (lit ''user'')),
         (lit ''content'', JArr [JObj [(lit ''type'', JStr (lit ''input_text'')), (lit ''text'', JStr text)]])])]"

definition codex_inject :: "digest_block \<Rightarrow> ustr \<Rightarrow> ustr rresult" where
  "codex_inject d raw = Inr (append_record (codex_card (digest_text d)) raw)"

section \<open>Transforming a file\<close>

definition apply_edit :: "provider \<Rightarrow> (ustr \<Rightarrow> reading) \<Rightarrow> (nat list \<Rightarrow> ustr) \<Rightarrow> nat \<Rightarrow> (ustr \<Rightarrow> ustr) \<Rightarrow>
    ustr \<Rightarrow> edit \<Rightarrow> ustr \<Rightarrow> ustr rresult" where
  "apply_edit p parse sha limit ids home e raw =
     (case e of
        Elide ls template per \<Rightarrow>
          (case elision_targets p parse sha limit raw ls of
             Inl m \<Rightarrow> Inl m
           | Inr targets \<Rightarrow> Inr (fst
               (case p of ClaudeCode \<Rightarrow> claude_apply_elide parse raw targets template per
                | Codex \<Rightarrow> codex_apply_elide parse raw targets template per)))
      | InjectDigest d \<Rightarrow>
          (case p of ClaudeCode \<Rightarrow> claude_inject parse ids home d raw | Codex \<Rightarrow> codex_inject d raw)
      | ProviderCompact _ \<Rightarrow> Inr raw
      | CacheEdit _ \<Rightarrow> Inr raw)"

fun apply_inner :: "provider \<Rightarrow> (ustr \<Rightarrow> reading) \<Rightarrow> (nat list \<Rightarrow> ustr) \<Rightarrow> nat \<Rightarrow> (nat \<Rightarrow> ustr \<Rightarrow> ustr) \<Rightarrow>
    ustr \<Rightarrow> nat \<Rightarrow> edit list \<Rightarrow> ustr \<Rightarrow> ustr rresult" where
  "apply_inner p parse sha limit new_id home n [] raw = Inr raw"
| "apply_inner p parse sha limit new_id home n (e # es) raw =
     (case apply_edit p parse sha limit (new_id n) home e raw of
        Inl m \<Rightarrow> Inl m
      | Inr raw' \<Rightarrow> apply_inner p parse sha limit new_id home (n + 1) es raw')"

definition prepare :: "provider \<Rightarrow> (ustr \<Rightarrow> reading) \<Rightarrow> nat \<Rightarrow> (ustr \<Rightarrow> ustr rresult) \<Rightarrow> source_bytes \<Rightarrow>
    ustr rresult" where
  "prepare p parse limit mutate original =
     (if source_len original > limit then Inl ''transcript exceeds byte limit''
      else case original of
             NotUtf8 _ \<Rightarrow> Inl ''transcript is not UTF-8''
           | Utf8 s \<Rightarrow>
               (case mutate s of
                  Inl m \<Rightarrow> Inl m
                | Inr out \<Rightarrow>
                    if str_len out > limit then Inl ''candidate exceeds transcript byte limit''
                    else if out \<noteq> s \<and>
                      list_ex (\<lambda>f. f \<notin> set (verify p parse limit (Utf8 s))) (verify p parse limit (Utf8 out))
                    then Inl ''candidate introduces verification findings''
                    else Inr out))"

definition transform :: "provider \<Rightarrow> (ustr \<Rightarrow> reading) \<Rightarrow> (nat list \<Rightarrow> ustr) \<Rightarrow> nat \<Rightarrow>
    (nat \<Rightarrow> ustr \<Rightarrow> ustr) \<Rightarrow> ustr \<Rightarrow> source_bytes \<Rightarrow> edit list \<Rightarrow> ustr rresult" where
  "transform p parse sha limit new_id home original es =
     (case check_edit_bounds es of
        Inl m \<Rightarrow> Inl m
      | Inr _ \<Rightarrow> prepare p parse limit (apply_inner p parse sha limit new_id home 0 es) original)"

end
