(* ===== verification/Elision.thy ===== *)
theory Elision
  imports Surgery
begin

text \<open>
  What eliding a payload does (\<open>payload.rs\<close>): the text becomes the stub, the value becomes smaller and
  keeps its shape; and what a fingerprint says: equal fingerprints are equal payloads.
\<close>

section \<open>Fields\<close>

lemma map_of_update_field:
  "map_of (update_field k f kvs) k' =
     (if k' = k then map_option f (map_of kvs k) else map_of kvs k')"
  by (induction kvs) (auto simp: update_field_def)

lemma keys_update_field [simp]: "map fst (update_field k f kvs) = map fst kvs"
  by (induction kvs) (auto simp: update_field_def)

lemma json_get_alter [simp]:
  "json_get (alter_field k f v) k' =
     (if k' = k then map_option f (json_get v k) else json_get v k')"
  by (cases v) (simp_all add: alter_field_def json_get_def map_of_update_field)

lemma get_str_alter [simp]: "k' \<noteq> k \<Longrightarrow> get_str (alter_field k f v) k' = get_str v k'"
  by (simp add: get_str_def)

lemma alter_field_kind [simp]:
  "is_object (alter_field k f v) = is_object v" "as_array (alter_field k f v) = as_array v"
  "as_str (alter_field k f v) = as_str v" "is_string (alter_field k f v) = is_string v"
  by (cases v; simp add: alter_field_def is_object_def as_array_def as_str_def is_string_def)+

lemma only_keys_alter [simp]: "only_keys ks (alter_field k f v) = only_keys ks v"
proof (cases v)
  case (JObj kvs)
  have "list_all (\<lambda>(k, _). k \<in> K) kvs \<longleftrightarrow> list_all (\<lambda>k. k \<in> K) (map fst kvs)" for K and kvs :: json_map
    by (induction kvs) auto
  then show ?thesis using JObj by (simp add: only_keys_def alter_field_def)
qed (simp_all add: only_keys_def alter_field_def)

lemma lit_inject [simp]: "lit a = lit b \<longleftrightarrow> a = b"
proof
  show "a = b" if "lit a = lit b" using that unfolding lit_def
    by (rule map_injective) (simp add: inj_def)
qed simp

lemma has_type_alter [simp]: "k \<noteq> lit ''type'' \<Longrightarrow> has_type (alter_field k f v) t = has_type v t"
  by (simp add: has_type_def)

lemma text_block_alter [simp]: "k \<noteq> lit ''type'' \<Longrightarrow> text_block (alter_field k f v) = text_block v"
  by (simp add: text_block_def)

section \<open>Stubs\<close>

lemma get_str_text_alter:
  "string_field b k \<Longrightarrow> get_str (alter_field k (\<lambda>_. JStr r) b) k = Some r"
  by (auto simp: string_field_def get_str_def as_str_def split: option.splits)

lemma plain_block_alter:
  "plain_block b \<Longrightarrow> plain_block (alter_field (lit ''text'') (\<lambda>_. JStr r) b)"
  by (auto simp: plain_block_def string_field_def is_string_def split: option.splits)

lemma stub_blocks_plain:
  assumes "list_all plain_block bs"
  shows "list_all plain_block (stub_blocks r bs)" and "length (stub_blocks r bs) = length bs"
    and "block_texts (stub_blocks r bs) = (if bs = [] then [] else r # replicate (length bs - 1) [])"
proof -
  show "list_all plain_block (stub_blocks r bs)" using assms
    by (induction bs arbitrary: r) (auto simp: plain_block_alter)
  show "length (stub_blocks r bs) = length bs" by (induction bs arbitrary: r) auto
  show "block_texts (stub_blocks r bs) = (if bs = [] then [] else r # replicate (length bs - 1) [])"
    using assms
  proof (induction bs arbitrary: r)
    case Nil
    show ?case by (simp add: block_texts_def)
  next
    case (Cons b bs)
    have b: "text_block b" "string_field b (lit ''text'')" using Cons.prems by (auto simp: plain_block_def)
    have "block_texts (stub_blocks r (b # bs)) = r # block_texts (stub_blocks [] bs)"
      using b by (simp add: block_texts_def get_str_text_alter)
    also have "block_texts (stub_blocks [] bs) = replicate (length bs) []"
    proof (cases "bs = []")
      case True then show ?thesis by (simp add: block_texts_def)
    next
      case False
      then have "block_texts (stub_blocks [] bs) = [] # replicate (length bs - 1) []"
        using Cons by simp
      then show ?thesis using False by (metis Suc_pred' length_greater_0_conv replicate_Suc)
    qed
    finally show ?case by simp
  qed
qed

lemma concat_replicate_Nil [simp]: "concat (replicate n []) = []"
  by (induction n) auto

lemma stubbed_supported: "supported_content v \<Longrightarrow> supported_content (stubbed r v)"
proof (cases v)
  case (JArr bs)
  assume "supported_content v"
  then have bs: "bs \<noteq> []" "list_all plain_block bs" using JArr by (simp_all add: supported_content_def)
  then have "stub_blocks r bs \<noteq> []" by (cases bs) simp_all
  then show ?thesis using JArr stub_blocks_plain(1) [OF bs(2)]
    by (simp add: supported_content_def stubbed_def)
qed (simp_all add: supported_content_def stubbed_def)

lemma stubbed_text: "supported_content v \<Longrightarrow> payload_text (stubbed r v) = r"
  using stub_blocks_plain(3) [of _ r]
  by (cases v) (auto simp: supported_content_def stubbed_def payload_text_def)

lemma stubbed_input_text:
  "list_all (\<lambda>b. has_type b ''input_text'') bs \<Longrightarrow>
     list_all (\<lambda>b. has_type b ''input_text'') (stub_blocks r bs)"
  by (induction bs arbitrary: r) (auto)

lemma eligible_pos:
  "eligible_bytes v \<noteq> 0 \<longleftrightarrow> supported_content v \<and> 256 < text_bytes v"
  "eligible_bytes v \<noteq> 0 \<Longrightarrow> eligible_bytes v = text_bytes v"
  by (auto simp: eligible_bytes_def Let_def)

lemma elide_cases:
  obtains (kept) "elide stub v = (v, 0)"
    | (stubbed) "elide stub v = (stubbed stub v, text_bytes v)" "supported_content v"
        "256 < text_bytes v" "of_nat (str_len stub) < text_bytes v"
        "str_len (json_text (stubbed stub v)) < str_len (json_text v)"
proof (cases "eligible_bytes v = 0 \<or> of_nat (str_len stub) \<ge> eligible_bytes v \<or>
    str_len (json_text (stubbed stub v)) \<ge> str_len (json_text v)")
  case True
  then have "elide stub v = (v, 0)" by (auto simp: elide_def Let_def split: json.split)
  then show thesis by (rule kept)
next
  case False
  then have e: "eligible_bytes v = text_bytes v" "supported_content v" "256 < text_bytes v"
    using eligible_pos [of v] by auto
  then have "elide stub v = (stubbed stub v, text_bytes v)"
    using False by (cases v) (auto simp: elide_def Let_def supported_content_def)
  then show thesis using e False by (intro stubbed) auto
qed

text \<open>C22: When the elision of a content value frees bytes, it frees exactly the text of the value, more
  than 256 bytes: the value's text is then the stub, the value is still one that may be elided, the
  stub is shorter than the text, and the serialized value is strictly smaller. When it frees nothing
  the value is unchanged.\<close>

theorem elide_shrinks:
  "case elide stub v of (v', n) \<Rightarrow>
     (if n = 0 then v' = v
      else supported_content v \<and> n = text_bytes v \<and> 256 < n \<and> of_nat (str_len stub) < n \<and>
        payload_text v' = stub \<and> supported_content v' \<and>
        str_len (json_text v') < str_len (json_text v))"
proof (cases rule: elide_cases [of stub v])
  case kept
  then show ?thesis by simp
next
  case stubbed
  then have "text_bytes v \<noteq> 0" by auto
  then show ?thesis using stubbed stubbed_supported stubbed_text by simp
qed

section \<open>Fingerprints\<close>

lemma be_u64_length [simp]: "length (be_u64 n) = 8"
  by (simp add: be_u64_def)

lemma be_u64_inject: "be_u64 m = be_u64 n \<Longrightarrow> m = n"
proof -
  assume eq: "be_u64 m = be_u64 n"
  have byte: "unat m div 256 ^ k mod 256 = unat n div 256 ^ k mod 256" if "k < 8" for k
  proof -
    have "be_u64 m ! (7 - k) = be_u64 n ! (7 - k)" using eq by simp
    moreover have "[0..<8] ! (7 - k) = 7 - k" by (simp add: nth_upt del: upt_rec_numeral)
    ultimately show ?thesis using that by (simp add: be_u64_def del: upt_rec_numeral)
  qed
  have digits: "x mod 256 ^ k = y mod 256 ^ k"
    if "\<And>i. i < k \<Longrightarrow> x div 256 ^ i mod 256 = y div 256 ^ i mod 256" for x y k :: nat
    using that
  proof (induction k)
    case (Suc k)
    have "z mod 256 ^ Suc k = 256 ^ k * (z div 256 ^ k mod 256) + z mod 256 ^ k" for z :: nat
      by (simp only: power_Suc2 mod_mult2_eq)
    then show ?case using Suc by simp
  qed simp
  have "unat m mod 256 ^ 8 = unat n mod 256 ^ 8" by (rule digits) (rule byte)
  moreover have "unat x mod 256 ^ 8 = unat x" for x :: u64
    using unat_lt_exp [of x] by simp
  ultimately show "m = n" by (simp add: word_unat_eq_iff)
qed

text \<open>The reading of a scalar value from its UTF-8 bytes.\<close>

definition utf8_decode :: "nat list \<Rightarrow> nat \<times> nat list" where
  "utf8_decode bs =
     (let b = hd bs in
      if b < 128 then (b, tl bs)
      else if b < 224 then ((b - 192) * 64 + (bs ! 1 - 128), drop 2 bs)
      else if b < 240 then ((b - 224) * 4096 + (bs ! 1 - 128) * 64 + (bs ! 2 - 128), drop 3 bs)
      else ((b - 240) * 262144 + (bs ! 1 - 128) * 4096 + (bs ! 2 - 128) * 64 + (bs ! 3 - 128), drop 4 bs))"

lemma utf8_decode_encode: "utf8_decode (utf8_encode c @ r) = (c, r)"
proof -
  have q: "c div 4096 = c div 64 div 64" "c div 262144 = c div 4096 div 64" by (simp_all flip: div_mult2_eq)
  have p: "c div 64 = c div 4096 * 64 + c div 64 mod 64" "c div 4096 = c div 262144 * 64 + c div 4096 mod 64"
    unfolding q(1,2) by (simp_all only: div_mult_mod_eq)
  have m: "c = c div 64 * 64 + c mod 64" by simp
  consider "c < 128" | "128 \<le> c" "c < 2048" | "2048 \<le> c" "c < 65536" | "65536 \<le> c" by linarith
  then show ?thesis
  proof cases
    case 1
    then show ?thesis by (simp add: utf8_encode_def utf8_decode_def)
  next
    case 2
    then have "192 + c div 64 < 224" by simp
    then show ?thesis using 2 by (simp add: utf8_encode_def utf8_decode_def)
  next
    case 3
    have "c div 4096 * 4096 + c div 64 mod 64 * 64 + c mod 64 = c" using p(1) m by linarith
    moreover have "224 + c div 4096 < 240" using 3 by simp
    ultimately show ?thesis using 3 by (simp add: utf8_encode_def utf8_decode_def)
  next
    case 4
    have "c div 262144 * 262144 + c div 4096 mod 64 * 4096 + c div 64 mod 64 * 64 + c mod 64 = c"
      using p m by linarith
    moreover have "240 \<le> 240 + c div 262144" by simp
    ultimately show ?thesis using 4 by (simp add: utf8_encode_def utf8_decode_def)
  qed
qed

lemma utf8_bytes_inject:
  "utf8_bytes s = utf8_bytes t \<Longrightarrow> s = t"
proof (induction s arbitrary: t)
  case Nil
  have "utf8_encode c \<noteq> []" for c by (simp add: utf8_encode_def)
  then show ?case using Nil.prems by (cases t) (auto simp: utf8_bytes_def)
next
  case (Cons c s)
  have ne: "utf8_encode c \<noteq> []" by (simp add: utf8_encode_def)
  obtain d t' where t: "t = d # t'" using Cons.prems ne by (cases t) (auto simp: utf8_bytes_def)
  have "(c, utf8_bytes s) = (d, utf8_bytes t')"
    using Cons.prems utf8_decode_encode [of c "utf8_bytes s"] utf8_decode_encode [of d "utf8_bytes t'"] t
    by (simp add: utf8_bytes_def)
  then show ?case using Cons t by simp
qed

lemma utf8_bytes_length: "length (utf8_bytes s) = str_len s"
  by (induction s) (auto simp: utf8_bytes_def utf8_encode_def utf8_len_def)

lemma hashed_bytes_inject:
  assumes "list_all json_ok vs" "list_all json_ok ws"
    and "list_all (\<lambda>v. str_len (json_text v) < 2 ^ 64) (vs @ ws)"
    and "hashed_bytes vs = hashed_bytes ws"
  shows "vs = ws"
  using assms
proof (induction vs arbitrary: ws)
  case Nil
  have "be_u64 n \<noteq> []" for n by (metis be_u64_length list.size(3) zero_neq_numeral)
  then show ?case using Nil.prems(4) by (cases ws) (auto simp: hashed_bytes_def)
next
  case (Cons v vs)
  have "be_u64 n \<noteq> []" for n by (metis be_u64_length list.size(3) zero_neq_numeral)
  then obtain w ws' where ws: "ws = w # ws'"
    using Cons.prems(4) by (cases ws) (auto simp: hashed_bytes_def)
  let ?n = "\<lambda>v. of_nat (str_len (json_text v)) :: u64"
  have eq: "be_u64 (?n v) @ utf8_bytes (json_text v) @ hashed_bytes vs =
      be_u64 (?n w) @ utf8_bytes (json_text w) @ hashed_bytes ws'"
    using Cons.prems(4) ws by (simp add: hashed_bytes_def)
  then have b: "be_u64 (?n v) = be_u64 (?n w)" by (rule append_eq_append_conv [THEN iffD1, THEN conjunct1, rotated]) simp
  have n: "unat (?n v) = unat (?n w)" unfolding be_u64_inject [OF b] by (rule refl)
  have "str_len (json_text v) < 2 ^ LENGTH(64)" "str_len (json_text w) < 2 ^ LENGTH(64)"
    using Cons.prems(3) ws by simp_all
  then have len: "str_len (json_text v) = str_len (json_text w)"
    using n unat_of_nat_small [where 'a = 64] by metis
  have "utf8_bytes (json_text v) = utf8_bytes (json_text w) \<and> hashed_bytes vs = hashed_bytes ws'"
    using eq len b by (simp add: utf8_bytes_length)
  then have "json_text v = json_text w" "hashed_bytes vs = hashed_bytes ws'" by (auto dest: utf8_bytes_inject)
  moreover have "v = w" using Cons.prems(1,2) ws \<open>json_text v = json_text w\<close> json_text_inject [of v w "[]" "[]"]
    by simp
  ultimately show ?case using Cons ws by simp
qed

text \<open>C23: The fingerprint of an item identifies the payloads it stands for: when the hash does not
  collide on the two inputs at hand, two groups of payloads have the same fingerprint exactly when
  they are the same values in the same order. Items of equal fingerprint are copies, which is what the
  strategy \<open>dedupe\<close> relies on when it drops all but the newest.\<close>

theorem fingerprint_identifies:
  assumes "list_all json_ok vs" "list_all json_ok ws"
    and "list_all (\<lambda>v. str_len (json_text v) < 2 ^ 64) (vs @ ws)"
    and "sha (hashed_bytes vs) = sha (hashed_bytes ws) \<longrightarrow> hashed_bytes vs = hashed_bytes ws"
  shows "fingerprint sha vs = fingerprint sha ws \<longleftrightarrow> vs = ws"
proof
  assume eq: "fingerprint sha vs = fingerprint sha ws"
  show "vs = ws"
  proof (cases "vs = [] \<or> ws = []")
    case True
    then show ?thesis using eq by (auto simp: fingerprint_def split: if_splits)
  next
    case False
    then show ?thesis using eq assms hashed_bytes_inject [OF assms(1-3)] by (simp add: fingerprint_def)
  qed
qed simp

theorem fingerprint_identifies_witness:
  "fingerprint id [JStr (lit ''a''), JStr (lit ''b'')] \<noteq> fingerprint id [JStr (lit ''ab'')]"
proof -
  let ?vs = "[JStr (lit ''a''), JStr (lit ''b'')]" and ?ws = "[JStr (lit ''ab'')]"
  have "fingerprint id ?vs = fingerprint id ?ws \<longleftrightarrow> ?vs = ?ws"
    by (rule fingerprint_identifies)
      (simp_all add: json_string_def escape_char_def utf8_len_def lit_Cons)
  then show ?thesis by (simp add: lit_Cons)
qed

end
