(* ===== verification/Branch.thy ===== *)
theory Branch
  imports Elision
begin

text \<open>
  The live branch of a Claude Code file (\<open>live_branch\<close> of \<open>claude.rs\<close>): the walk over an index of the
  links computes the lines of the ancestors of a leaf, or nothing when the ancestry is broken.
\<close>

section \<open>Ancestry\<close>

definition branch_parent :: "claude_link list \<Rightarrow> (ustr \<times> ustr) set" where
  "branch_parent links = {(u, p). \<exists>l. (l, u, Some p) \<in> set links}"

definition ancestry :: "claude_link list \<Rightarrow> ustr \<Rightarrow> ustr set" where
  "ancestry links leaf = {u. (leaf, u) \<in> (branch_parent links)\<^sup>*}"

definition link_id :: "claude_link \<Rightarrow> ustr" where
  "link_id k = fst (snd k)"

lemma link_id_simp [simp]: "link_id (l, u, p) = u"
  by (simp add: link_id_def)

text \<open>Identifiers are there and distinct, every ancestor is a record, and parents stand earlier.\<close>

definition branch_intact :: "claude_link list \<Rightarrow> ustr \<Rightarrow> bool" where
  "branch_intact links leaf \<longleftrightarrow>
     list_all (\<lambda>k. link_id k \<noteq> []) links \<and> distinct (map link_id links) \<and>
     (\<forall>u \<in> ancestry links leaf. \<exists>l q. (l, u, q) \<in> set links) \<and>
     (\<forall>u \<in> ancestry links leaf. \<forall>l p m q. (l, u, Some p) \<in> set links \<and> (m, p, q) \<in> set links \<longrightarrow> m < l)"

definition branch_lines :: "claude_link list \<Rightarrow> ustr \<Rightarrow> nat set" where
  "branch_lines links leaf = {l. \<exists>u \<in> ancestry links leaf. \<exists>q. (l, u, q) \<in> set links}"

section \<open>The index\<close>

definition link_map :: "claude_link list \<Rightarrow> ustr \<rightharpoonup> nat \<times> ustr option" where
  "link_map links = map_of (map (\<lambda>(l, u, p). (u, l, p)) links)"

lemma link_map_Cons: "u \<notin> set (map link_id ls) \<Longrightarrow> m(u \<mapsto> (l, p)) ++ link_map ls = m ++ link_map ((l, u, p) # ls)"
proof -
  assume "u \<notin> set (map link_id ls)"
  then have "link_map ls u = None" by (force simp: link_map_def map_of_eq_None_iff)
  then show ?thesis by (auto simp: link_map_def map_add_def fun_eq_iff split: option.split)
qed

lemma index_links_eq:
  "index_links ls m =
     (if list_all (\<lambda>k. link_id k \<noteq> []) ls \<and> distinct (map link_id ls) \<and> set (map link_id ls) \<inter> dom m = {}
      then Some (m ++ link_map ls) else None)"
proof (induction ls arbitrary: m)
  case Nil
  show ?case by (simp add: link_map_def)
next
  case (Cons x ls)
  obtain l u p where x: "x = (l, u, p)" by (rule prod_cases3)
  show ?case
  proof (cases "u = [] \<or> m u \<noteq> None")
    case True
    then show ?thesis using x by auto
  next
    case False
    have dom: "set (map link_id ls) \<inter> dom (m(u \<mapsto> (l, p))) = {} \<longleftrightarrow>
        set (map link_id ls) \<inter> dom m = {} \<and> u \<notin> set (map link_id ls)"
      "set (map link_id (x # ls)) \<inter> dom m = {} \<longleftrightarrow> set (map link_id ls) \<inter> dom m = {}"
      using False x by auto
    have "index_links (x # ls) m = index_links ls (m(u \<mapsto> (l, p)))" using False x by simp
    also have "\<dots> = (if list_all (\<lambda>k. link_id k \<noteq> []) (x # ls) \<and> distinct (map link_id (x # ls)) \<and>
        set (map link_id (x # ls)) \<inter> dom m = {} then Some (m ++ link_map (x # ls)) else None)"
      unfolding Cons.IH dom using False x link_map_Cons [of u ls m l p] by auto
    finally show ?thesis .
  qed
qed

lemma link_map_Some:
  "distinct (map link_id links) \<Longrightarrow> link_map links u = Some (l, p) \<longleftrightarrow> (l, u, p) \<in> set links"
proof -
  assume d: "distinct (map link_id links)"
  have "map fst (map (\<lambda>(l, u, p). (u, l, p)) links) = map link_id links" by auto
  then have "distinct (map fst (map (\<lambda>(l, u, p). (u, l, p)) links))" using d by metis
  then show ?thesis unfolding link_map_def map_of_eq_Some_iff by force
qed

section \<open>The walk\<close>

definition map_parent :: "(ustr \<rightharpoonup> nat \<times> ustr option) \<Rightarrow> (ustr \<times> ustr) set" where
  "map_parent M = {(u, p). \<exists>l. M u = Some (l, Some p)}"

definition map_intact :: "(ustr \<rightharpoonup> nat \<times> ustr option) \<Rightarrow> ustr \<Rightarrow> bool" where
  "map_intact M leaf \<longleftrightarrow>
     (\<forall>u. (leaf, u) \<in> (map_parent M)\<^sup>* \<longrightarrow> M u \<noteq> None) \<and>
     (\<forall>u l p m q. (leaf, u) \<in> (map_parent M)\<^sup>* \<and> M u = Some (l, Some p) \<and> M p = Some (m, q) \<longrightarrow> m < l)"

definition map_lines :: "(ustr \<rightharpoonup> nat \<times> ustr option) \<Rightarrow> ustr \<Rightarrow> nat set" where
  "map_lines M leaf = {l. \<exists>u q. (leaf, u) \<in> (map_parent M)\<^sup>* \<and> M u = Some (l, q)}"

lemma ancestors_root: "M u = Some (l, None) \<Longrightarrow> (u, v) \<in> (map_parent M)\<^sup>* \<longleftrightarrow> v = u"
  by (auto simp: map_parent_def elim: converse_rtranclE)

lemma ancestors_step:
  "M u = Some (l, Some p) \<Longrightarrow> (u, v) \<in> (map_parent M)\<^sup>* \<longleftrightarrow> v = u \<or> (p, v) \<in> (map_parent M)\<^sup>*"
  by (auto simp: map_parent_def elim: converse_rtranclE intro: converse_rtrancl_into_rtrancl)

lemma map_intact_step:
  assumes u: "M u = Some (l, Some p)"
  shows "map_intact M u \<longleftrightarrow> (\<exists>m q. M p = Some (m, q) \<and> m < l) \<and> map_intact M p"
proof -
  note step = ancestors_step [where M = M and u = u and l = l and p = p, OF u]
  have p: "(u, p) \<in> (map_parent M)\<^sup>*" unfolding step by simp
  show ?thesis
  proof
    assume i: "map_intact M u"
    then obtain m q where m: "M p = Some (m, q)" using p unfolding map_intact_def by fastforce
    moreover have "m < l" using i u m step unfolding map_intact_def by blast
    moreover have "map_intact M p" using i step unfolding map_intact_def by blast
    ultimately show "(\<exists>m q. M p = Some (m, q) \<and> m < l) \<and> map_intact M p" by blast
  next
    assume "(\<exists>m q. M p = Some (m, q) \<and> m < l) \<and> map_intact M p"
    then show "map_intact M u" unfolding map_intact_def step using u by (auto; blast)
  qed
qed

lemma map_lines_step:
  "M u = Some (l, Some p) \<Longrightarrow> map_lines M u = insert l (map_lines M p)"
  by (auto simp: map_lines_def ancestors_step)

lemma map_lines_le:
  assumes "map_intact M u" "M u = Some (l, q)" "x \<in> map_lines M u"
  shows "x \<le> l"
proof -
  obtain v r where v: "(u, v) \<in> (map_parent M)\<^sup>*" "M v = Some (x, r)"
    using assms(3) by (auto simp: map_lines_def)
  from v(1) have "\<forall>x r. M v = Some (x, r) \<longrightarrow> x \<le> l"
  proof (induction rule: rtrancl_induct)
    case base
    then show ?case using assms(2) by simp
  next
    case (step v w)
    then obtain k where k: "M v = Some (k, Some w)" by (auto simp: map_parent_def)
    then have "k \<le> l" using step.IH by blast
    moreover have "m < k" if "M w = Some (m, q)" for m q
      using assms(1) step.hyps(1) k that unfolding map_intact_def by blast
    ultimately show ?case by (meson less_imp_le_nat order_trans)
  qed
  then show ?thesis using v(2) by blast
qed

lemma live_walk_eq:
  "(\<And>l q x. M u = Some (l, q) \<Longrightarrow> x \<in> set live \<Longrightarrow> l < x) \<Longrightarrow>
     if map_intact M u
     then \<exists>L. live_walk M live u = L @ live \<and> L \<noteq> [] \<and> sorted_wrt (<) L \<and> set L = map_lines M u
     else live_walk M live u = []"
proof (induction M live u rule: live_walk.induct)
  case (1 M live u)
  show ?case
  proof (cases "M u")
    case None
    then have "\<not> map_intact M u" unfolding map_intact_def by blast
    then show ?thesis using None by (simp add: live_walk.simps)
  next
    case (Some e)
    obtain l q where e: "e = (l, q)" by (cases e)
    note u = Some [unfolded e]
    have fresh: "l \<notin> set live" using "1.prems" u by blast
    show ?thesis
    proof (cases q)
      case None
      have "map_intact M u" "map_lines M u = {l}"
        using u None by (auto simp: map_intact_def map_lines_def ancestors_root)
      moreover have "live_walk M live u = [l] @ live" using u None fresh by (simp add: live_walk.simps [of M live u])
      ultimately show ?thesis by (metis list.simps(15) empty_set not_Cons_self2 sorted_wrt1)
    next
      case (Some p)
      note up = u [unfolded Some]
      show ?thesis
      proof (cases "\<exists>m r. M p = Some (m, r) \<and> m < l")
        case False
        then have "\<not> map_intact M u" by (simp add: map_intact_step [where M = M and u = u and l = l and p = p, OF up])
        moreover have "live_walk M live u = []"
          using False up by (auto simp: live_walk.simps [of M live u] split: option.splits)
        ultimately show ?thesis by simp
      next
        case True
        then obtain m r where p: "M p = Some (m, r)" "m < l" by blast
        have walk: "live_walk M live u = live_walk M (l # live) p"
          using up p fresh by (simp add: live_walk.simps [of M live u])
        have IH: "if map_intact M p
            then \<exists>L. live_walk M (l # live) p = L @ l # live \<and> L \<noteq> [] \<and> sorted_wrt (<) L \<and> set L = map_lines M p
            else live_walk M (l # live) p = []"
          by (rule "1.IH" [OF \<open>M u = Some e\<close> e [symmetric] fresh \<open>q = Some p\<close> p(1) refl]) (use p "1.prems" u in \<open>auto intro: less_trans\<close>)
        show ?thesis
        proof (cases "map_intact M p")
          case True
          then have "map_intact M u" using p by (simp add: map_intact_step [where M = M and u = u and l = l and p = p, OF up])
          moreover obtain L where L: "live_walk M (l # live) p = L @ l # live" "sorted_wrt (<) L" "set L = map_lines M p"
            using IH True by auto
          moreover have "sorted_wrt (<) (L @ [l])"
            using L(2,3) map_lines_le [OF True p(1)] p(2) by (auto simp: sorted_wrt_append intro: le_less_trans)
          moreover have "set (L @ [l]) = map_lines M u"
            using L(3) by (simp add: map_lines_step [where M = M and u = u and l = l and p = p, OF up])
          ultimately show ?thesis using walk by (auto intro!: exI [of _ "L @ [l]"])
        next
          case False
          then have "\<not> map_intact M u" by (simp add: map_intact_step [where M = M and u = u and l = l and p = p, OF up])
          then show ?thesis using IH False walk by simp
        qed
      qed
    qed
  qed
qed

section \<open>The branch\<close>

lemma link_map_parent:
  "distinct (map link_id links) \<Longrightarrow> map_parent (link_map links) = branch_parent links"
  by (auto simp: map_parent_def branch_parent_def link_map_Some)

lemma link_map_intact:
  assumes d: "distinct (map link_id links)"
  shows "map_intact (link_map links) leaf \<longleftrightarrow>
     (\<forall>u \<in> ancestry links leaf. \<exists>l q. (l, u, q) \<in> set links) \<and>
     (\<forall>u \<in> ancestry links leaf. \<forall>l p m q. (l, u, Some p) \<in> set links \<and> (m, p, q) \<in> set links \<longrightarrow> m < l)"
proof -
  have "link_map links u \<noteq> None \<longleftrightarrow> (\<exists>l q. (l, u, q) \<in> set links)" for u
    using link_map_Some [OF d] by (metis option.discI option.exhaust surj_pair)
  then show ?thesis
    unfolding map_intact_def ancestry_def link_map_parent [OF d] link_map_Some [OF d] by blast
qed

lemma link_map_lines:
  "distinct (map link_id links) \<Longrightarrow> map_lines (link_map links) leaf = branch_lines links leaf"
  by (auto simp: map_lines_def branch_lines_def ancestry_def link_map_parent link_map_Some)

text \<open>C10: The live branch of a Claude Code file is exactly the ancestry of its leaf. When every
  identifier is there and occurs once, every ancestor of the leaf is a record, and every parent stands on
  an earlier line than its child, the walk returns the lines of the ancestors in increasing order;
  otherwise it returns nothing.\<close>

theorem live_branch_correct:
  "live_branch links leaf =
     (if branch_intact links leaf then sorted_list_of_set (branch_lines links leaf) else [])"
proof (cases "list_all (\<lambda>k. link_id k \<noteq> []) links \<and> distinct (map link_id links)")
  case False
  then have "index_links links Map.empty = None" "\<not> branch_intact links leaf"
    by (auto simp: index_links_eq branch_intact_def)
  then show ?thesis by (simp add: live_branch_def)
next
  case True
  then have index: "index_links links Map.empty = Some (link_map links)" by (simp add: index_links_eq)
  have intact: "branch_intact links leaf \<longleftrightarrow> map_intact (link_map links) leaf"
    using True by (simp add: branch_intact_def link_map_intact)
  have walk: "if map_intact (link_map links) leaf
     then \<exists>L. live_walk (link_map links) [] leaf = L @ [] \<and> L \<noteq> [] \<and> sorted_wrt (<) L \<and>
       set L = map_lines (link_map links) leaf
     else live_walk (link_map links) [] leaf = []" by (rule live_walk_eq) simp
  show ?thesis
  proof (cases "branch_intact links leaf")
    case False
    then show ?thesis using walk index intact by (simp add: live_branch_def)
  next
    case intact': True
    then obtain L where L: "live_branch links leaf = L" "sorted_wrt (<) L" "set L = branch_lines links leaf"
      using walk index intact True by (auto simp: live_branch_def link_map_lines)
    then have "sorted_list_of_set (branch_lines links leaf) = L"
      using sorted_list_of_set.idem_if_sorted_distinct [of L] by (simp add: strict_sorted_iff)
    then show ?thesis using L(1) intact' by simp
  qed
qed

end
