(* ===== verification/Lowering.thy ===== *)
theory Lowering
  imports Branch
begin

text \<open>
  What lowering an elision does to a file: the pieces of the file stay where they are, the ones that
  are not rewritten stay byte for byte, and the verifier reports the same findings before and after.
\<close>

section \<open>Pieces of a file\<close>

definition closed_piece :: "ustr \<Rightarrow> bool" where
  "closed_piece p \<longleftrightarrow> (\<exists>l. p = l @ [nl] \<and> nl \<notin> set l)"

fun pieces_ok :: "ustr list \<Rightarrow> bool" where
  "pieces_ok [] = True"
| "pieces_ok (p # ps) = ((closed_piece p \<or> (ps = [] \<and> p \<noteq> [] \<and> nl \<notin> set p)) \<and> pieces_ok ps)"

lemma split_concat_pieces: "pieces_ok ps \<Longrightarrow> split_inclusive (concat ps) = ps"
  by (induction ps) (auto simp: closed_piece_def split_inclusive_line split_inclusive_last)

lemma split_inclusive_Nil_iff: "split_inclusive s = [] \<longleftrightarrow> s = []"
  by (cases s) (auto split: list.splits)

lemma pieces_ok_split: "pieces_ok (split_inclusive s)"
proof (induction s)
  case step: (Cons c s)
  show ?case
  proof (cases "c = nl")
    case True
    then show ?thesis using step by (simp add: closed_piece_def)
  next
    case False
    have closed: "closed_piece (c # p) \<longleftrightarrow> closed_piece p" for p
      using False by (auto simp: closed_piece_def Cons_eq_append_conv)
    show ?thesis
    proof (cases "split_inclusive s")
      case Nil
      then show ?thesis using False by simp
    next
      case (Cons w ws)
      then show ?thesis using False step closed [of w] by auto
    qed
  qed
qed simp

lemma pieces_ok_nth:
  "pieces_ok ps \<Longrightarrow> p \<in> set ps \<Longrightarrow> closed_piece p \<or> (p \<noteq> [] \<and> nl \<notin> set p)"
  by (induction ps) auto

text \<open>A piece and what may stand in its place: the same line end after another text of one line.\<close>

definition same_end :: "ustr \<Rightarrow> ustr \<Rightarrow> bool" where
  "same_end p q \<longleftrightarrow> p = q \<or> (\<exists>t. t \<noteq> [] \<and> nl \<notin> set t \<and> q = t @ line_end p)"

lemma line_end_simps [simp]: "closed_piece p \<Longrightarrow> line_end p = [nl]" "nl \<notin> set p \<Longrightarrow> line_end p = []"
proof -
  show "closed_piece p \<Longrightarrow> line_end p = [nl]" by (auto simp: closed_piece_def line_end_def)
  assume "nl \<notin> set p"
  then have "\<not> ends_with p [nl]" by (metis ends_with_def in_set_dropD list.set_intros(1))
  then show "line_end p = []" by (simp add: line_end_def)
qed

lemma pieces_ok_same_end: "list_all2 same_end ps qs \<Longrightarrow> pieces_ok ps \<Longrightarrow> pieces_ok qs"
proof (induction rule: list_all2_induct)
  case (Cons p ps q qs)
  have "closed_piece p \<Longrightarrow> closed_piece q"
    using Cons.hyps(1) by (auto simp: same_end_def closed_piece_def)
  moreover have "p \<noteq> [] \<and> nl \<notin> set p \<Longrightarrow> q \<noteq> [] \<and> nl \<notin> set q"
    using Cons.hyps(1) by (auto simp: same_end_def)
  moreover have "ps = [] \<longleftrightarrow> qs = []" using Cons.hyps(2) by auto
  ultimately show ?case using Cons by auto
qed simp

lemma trim_nl_open: "nl \<notin> set p \<Longrightarrow> trim_nl p = p"
  by (cases p rule: rev_cases) (simp_all add: trim_nl_def)

lemma trim_nl_closed: "closed_piece p \<Longrightarrow> trim_nl p @ [nl] = p"
proof -
  assume "closed_piece p"
  then obtain l where l: "p = l @ [nl]" "nl \<notin> set l" by (auto simp: closed_piece_def)
  then have "trim_nl p = trim_nl l" by (simp add: trim_nl_def)
  then show ?thesis using l trim_nl_open [of l] by simp
qed

lemma trim_nl_end: "closed_piece p \<or> nl \<notin> set p \<Longrightarrow> trim_nl p @ line_end p = p"
  using trim_nl_closed trim_nl_open by fastforce

text \<open>The line of a piece as the loaders read it, up to a carriage return.\<close>

lemma line_of_trim:
  assumes "closed_piece p \<or> nl \<notin> set p"
  shows "trim_nl p = line_of p \<or> trim_nl p = line_of p @ [cr]"
proof (cases "closed_piece p")
  case True
  then obtain l where p: "p = l @ [nl]" "nl \<notin> set l" by (auto simp: closed_piece_def)
  then have t: "trim_nl p = l" using trim_nl_closed [OF True] by simp
  show ?thesis
  proof (cases "ends_with l [cr]")
    case True
    then obtain m where "l = m @ [cr]" by (metis append_take_drop_id ends_with_def)
    then show ?thesis using t p line_of_crnl [of m] by simp
  next
    case False
    then show ?thesis using t p line_of_nl [of l] by (simp add: line_safe_def)
  qed
next
  case False
  then have "nl \<notin> set p" using assms by simp
  then show ?thesis by (simp add: trim_nl_open line_of_rest)
qed

section \<open>Serialized records are lines\<close>

lemma escape_char_no_nl: "nl \<notin> set (escape_char c)"
  by (auto simp: escape_char_def hex_digit_def split: if_splits)

lemma json_string_no_nl: "nl \<notin> set (json_string s)"
  using escape_char_no_nl by (auto simp: json_string_def)

lemma join_set: "x \<in> set (join sep xs) \<Longrightarrow> x \<in> set sep \<or> (\<exists>s \<in> set xs. x \<in> set s)"
  by (induction sep xs rule: join.induct) auto

lemma json_text_no_nl: "json_ok v \<Longrightarrow> nl \<notin> set (json_text v)"
proof (induction v rule: json_text.induct)
  case (3 n)
  then have "list_all num_char (number_text n)" by (simp add: number_text_chars)
  then show ?case by (auto simp: list_all_iff num_char_def is_ascii_digit_def)
next
  case (4 s)
  show ?case by (simp add: json_string_no_nl)
next
  case (5 vs)
  then show ?case by (auto simp: list_all_iff dest!: join_set)
next
  case (6 kvs)
  then show ?case using json_string_no_nl by (fastforce simp: list_all_iff dest!: join_set)
qed (simp_all add: lit_Cons)

lemma object_line:
  assumes "json_ok v" "is_object v"
  shows "line_safe (json_text v)" "trim (json_text v) \<noteq> []" "json_text v \<noteq> []"
proof -
  obtain kvs where v: "v = JObj kvs" using assms(2) by (cases v) (auto simp: is_object_def)
  let ?m = "join [44] (map (\<lambda>(k, v). json_string k @ [58] @ json_text v) kvs)"
  have t: "json_text v = 123 # ?m @ [125]" by (simp add: v)
  show "json_text v \<noteq> []" by (simp add: t)
  have "\<not> ends_with (json_text v) [cr]" unfolding t by (simp add: ends_with_def)
  then show "line_safe (json_text v)" using json_text_no_nl [OF assms(1)] by (simp add: line_safe_def)
  show "trim (json_text v) \<noteq> []" unfolding t by (simp add: trim_def trim_start_def trim_end_def is_ws_def)
qed

section \<open>Rewritten records\<close>

text \<open>What the program relies on in the reader of \<open>serde_json\<close>: white space around a value is
  ignored, a blank text is not a value, and a value that was read has the numbers and distinct keys
  \<open>serde_json\<close> represents.\<close>

definition json_reader :: "(ustr \<Rightarrow> reading) \<Rightarrow> bool" where
  "json_reader parse \<longleftrightarrow>
     (\<forall>l. parse (l @ [cr]) = parse l) \<and> (\<forall>l. trim l = [] \<longrightarrow> parse l = Broken False) \<and>
     (\<forall>l v. parse l = Tree v \<and> unique_keys v \<longrightarrow> json_ok v)"

definition elided_record :: "provider \<Rightarrow> ustr \<Rightarrow> (nat \<times> ustr) list \<Rightarrow> nat \<Rightarrow> json \<Rightarrow> json \<times> nat" where
  "elided_record p template per i r =
     (case p of
        ClaudeCode \<Rightarrow>
          if \<not> has_type r ''user'' \<or> \<not> supported_result_message (field_or_null r ''message'')
          then (r, 0) else elide_record template (map_of per i) r
      | Codex \<Rightarrow> codex_elide_record template per i r)"

definition lowered_piece :: "provider \<Rightarrow> (ustr \<Rightarrow> reading) \<Rightarrow> ustr \<Rightarrow> (nat \<times> ustr) list \<Rightarrow> nat \<Rightarrow> ustr \<Rightarrow> ustr" where
  "lowered_piece p parse template per i piece =
     (case decode_ok parse (trim_nl piece) of
        None \<Rightarrow> piece
      | Some r \<Rightarrow> case elided_record p template per i r of
                    (r', n) \<Rightarrow> if n = 0 then piece else json_text r' @ line_end piece)"

definition lowered :: "provider \<Rightarrow> (ustr \<Rightarrow> reading) \<Rightarrow> nat list \<Rightarrow> ustr \<Rightarrow> (nat \<times> ustr) list \<Rightarrow> ustr \<Rightarrow> ustr" where
  "lowered p parse targets template per raw =
     fst (case p of ClaudeCode \<Rightarrow> claude_apply_elide parse raw targets template per
          | Codex \<Rightarrow> codex_apply_elide parse raw targets template per)"

lemma fst_claude_piece:
  "closed_piece piece \<or> nl \<notin> set piece \<Longrightarrow>
     fst (claude_piece parse template per i piece) = lowered_piece ClaudeCode parse template per i piece"
  using trim_nl_end [of piece]
  by (auto simp: claude_piece_def elide_line_def lowered_piece_def elided_record_def Let_def
      split: option.split prod.split)

lemma fst_codex_piece:
  "fst (codex_piece parse template per i piece) = lowered_piece Codex parse template per i piece"
  by (auto simp: codex_piece_def lowered_piece_def elided_record_def split: option.split prod.split)

lemma lowered_concat:
  "lowered p parse targets template per raw =
     concat (map (\<lambda>(i, piece). if i \<in> set targets then lowered_piece p parse template per i piece else piece)
       (enumerate 0 (split_inclusive raw)))"
proof -
  have ok: "closed_piece piece \<or> nl \<notin> set piece" if "(i, piece) \<in> set (enumerate 0 (split_inclusive raw))" for i piece
    using that pieces_ok_nth [OF pieces_ok_split [of raw], of piece] by (auto simp: in_set_enumerate_eq)
  show ?thesis
    unfolding lowered_def claude_apply_elide_def codex_apply_elide_def rewrite_pieces_def Let_def
    by (cases p) (auto intro!: arg_cong [where f = concat] simp: fst_codex_piece fst_claude_piece ok)
qed

subsection \<open>Rewritten records are records\<close>

lemma unique_keys_ok: "json_ok v \<Longrightarrow> unique_keys v"
  by (induction v rule: unique_keys.induct) (auto simp: list_all_iff)

lemma decode_ok_Some: "decode_ok parse l = Some v \<longleftrightarrow> parse l = Tree v \<and> unique_keys v"
  by (auto simp: decode_ok_def decode_record_def split: sum.splits reading.splits if_splits)

lemma reader_cr: "json_reader parse \<Longrightarrow> decode_ok parse (l @ [cr]) = decode_ok parse l"
  by (simp add: json_reader_def decode_ok_def decode_record_def)

lemma reader_ok: "json_reader parse \<Longrightarrow> decode_ok parse l = Some v \<Longrightarrow> json_ok v"
  unfolding json_reader_def decode_ok_Some by blast

lemma reader_blank: "json_reader parse \<Longrightarrow> decode_ok parse l = Some v \<Longrightarrow> trim l \<noteq> []"
  unfolding json_reader_def decode_ok_Some by fastforce

lemma json_ok_get: "json_ok v \<Longrightarrow> json_get v k = Some x \<Longrightarrow> json_ok x"
  by (cases v) (auto simp: json_get_def list_all_iff dest: map_of_SomeD)

lemma json_ok_alter:
  assumes "json_ok v" "\<And>x. json_get v k = Some x \<Longrightarrow> json_ok x \<Longrightarrow> json_ok (f x)"
  shows "json_ok (alter_field k f v)"
proof (cases v)
  case (JObj kvs)
  then have kvs: "distinct (map fst kvs)" "list_all (\<lambda>(_, v). json_ok v) kvs" using assms(1) by auto
  have "json_ok (if j = k then f x else x)" if "(j, x) \<in> set kvs" for j x
    using that kvs assms(2) [of x] JObj by (auto simp: json_get_def list_all_iff)
  then have "list_all (\<lambda>(_, v). json_ok v) (update_field k f kvs)"
    by (auto simp: update_field_def list_all_iff)
  then show ?thesis using JObj kvs by (simp add: alter_field_def)
qed (use assms(1) in \<open>simp_all add: alter_field_def\<close>)

lemma json_ok_stubbed: "json_ok v \<Longrightarrow> json_ok (stubbed stub v)"
proof (cases v)
  case (JArr bs)
  have "list_all json_ok bs \<Longrightarrow> list_all json_ok (stub_blocks r bs)" for r
    by (induction bs arbitrary: r) (auto intro: json_ok_alter)
  then show "json_ok v \<Longrightarrow> ?thesis" using JArr by (simp add: stubbed_def)
qed (simp_all add: stubbed_def)

lemma json_ok_elide: "json_ok v \<Longrightarrow> json_ok (fst (elide stub v))"
  by (cases rule: elide_cases [of stub v]) (auto intro: json_ok_stubbed)

lemma json_ok_blocks: "json_ok r \<Longrightarrow> list_all json_ok (record_blocks r)"
proof -
  assume r: "json_ok r"
  show ?thesis
  proof (cases "path2 r ''message'' ''content''")
    case (Some c)
    then have "json_ok c" using r by (auto simp: path2_def bind_eq_Some_conv dest: json_ok_get)
    then show ?thesis using Some by (cases c) (auto simp: record_blocks_def as_array_def)
  qed (simp add: record_blocks_def)
qed

lemma json_ok_elide_block: "json_ok b \<Longrightarrow> json_ok (fst (elide_block template override b))"
  by (auto simp: elide_block_def Let_def case_prod_beta split: option.split
      intro!: json_ok_alter json_ok_elide dest: json_ok_get)

lemma json_ok_elide_output: "json_ok p \<Longrightarrow> json_ok (fst (elide_output render p))"
  by (auto simp: elide_output_def case_prod_beta split: option.split
      intro!: json_ok_alter json_ok_elide dest: json_ok_get)

lemma json_ok_elide_history: "json_ok p \<Longrightarrow> json_ok (fst (elide_history render p))"
proof -
  assume p: "json_ok p"
  have "list_all json_ok hist" if "Option.bind (json_get p (lit ''replacement_history'')) as_array = Some hist" for hist
  proof -
    from that obtain y where y: "json_get p (lit ''replacement_history'') = Some y" "as_array y = Some hist"
      by (auto simp: bind_eq_Some_conv)
    then show ?thesis using json_ok_get [OF p y(1)] by (cases y) (auto simp: as_array_def)
  qed
  then show ?thesis using p
    by (auto simp: elide_history_def Let_def list_all_iff split: option.split
        intro!: json_ok_alter json_ok_elide_output)
qed

lemma json_ok_elided: "json_ok r \<Longrightarrow> json_ok (fst (elided_record p template per i r))"
  by (auto simp: elided_record_def elide_record_def codex_elide_record_def Let_def case_prod_beta
      list_all_iff split: provider.split option.split
      intro!: json_ok_alter json_ok_elide_block json_ok_elide_output json_ok_elide_history
      dest: json_ok_get json_ok_blocks [unfolded list_all_iff, THEN bspec])

lemma has_type_object: "has_type r t \<Longrightarrow> is_object r"
  by (cases r) (auto simp: has_type_def get_str_def json_get_def is_object_def)

lemma elided_object: "snd (elided_record p template per i r) \<noteq> 0 \<Longrightarrow>
    is_object (fst (elided_record p template per i r))"
  by (auto simp: elided_record_def elide_record_def codex_elide_record_def Let_def case_prod_beta
      has_type_object split: provider.splits option.splits if_splits)

section \<open>What a rewriting leaves alone\<close>

definition fields_but :: "string \<Rightarrow> json \<Rightarrow> json \<Rightarrow> bool" where
  "fields_but k v w \<longleftrightarrow> (\<forall>j. j \<noteq> lit k \<longrightarrow> json_get w j = json_get v j)"

definition claude_same :: "json \<Rightarrow> json \<Rightarrow> bool" where
  "claude_same v w \<longleftrightarrow> fields_but ''message'' v w \<and>
     path2 w ''message'' ''role'' = path2 v ''message'' ''role'' \<and>
     list_all2 (fields_but ''content'') (record_blocks v) (record_blocks w)"

definition item_same :: "json \<Rightarrow> json \<Rightarrow> bool" where
  "item_same p q \<longleftrightarrow> fields_but ''output'' p q \<and> supported_item q = supported_item p"

definition history_of_payload :: "json \<Rightarrow> json list option" where
  "history_of_payload p = Option.bind (json_get p (lit ''replacement_history'')) as_array"

definition codex_same :: "json \<Rightarrow> json \<Rightarrow> bool" where
  "codex_same v w \<longleftrightarrow> fields_but ''payload'' v w \<and>
     rel_option (\<lambda>p q. is_object q = is_object p \<and>
         (if has_type v ''compacted''
          then rel_option (list_all2 item_same) (history_of_payload p) (history_of_payload q)
          else item_same p q))
       (json_get v (lit ''payload'')) (json_get w (lit ''payload''))"

definition same_record :: "provider \<Rightarrow> json \<Rightarrow> json \<Rightarrow> bool" where
  "same_record p v w \<longleftrightarrow> is_object w = is_object v \<and> string_field w (lit ''type'') = string_field v (lit ''type'') \<and>
     (case p of ClaudeCode \<Rightarrow> claude_same v w | Codex \<Rightarrow> codex_same v w)"

lemma fields_but_get: "fields_but k v w \<Longrightarrow> j \<noteq> k \<Longrightarrow> json_get w (lit j) = json_get v (lit j)"
  by (simp add: fields_but_def)

lemma fields_but_str: "fields_but k v w \<Longrightarrow> j \<noteq> k \<Longrightarrow> get_str w (lit j) = get_str v (lit j)"
  by (simp add: get_str_def fields_but_get)

lemma fields_but_type: "fields_but k v w \<Longrightarrow> k \<noteq> ''type'' \<Longrightarrow> has_type w t = has_type v t"
  by (simp add: has_type_def fields_but_str)

lemma fields_but_refl [simp]: "fields_but k v v"
  by (simp add: fields_but_def)

lemma fields_but_alter [simp]: "fields_but k v (alter_field (lit k) f v)"
  by (simp add: fields_but_def)

lemma item_same_refl [simp]: "item_same p p"
  by (simp add: item_same_def)

lemma same_record_refl [simp]: "same_record p v v"
proof -
  have "rel_option (\<lambda>p q. is_object q = is_object p \<and>
      (if c then rel_option (list_all2 item_same) (history_of_payload p) (history_of_payload q)
       else item_same p q)) m m" for c m
    by (cases m) (auto intro!: option.rel_refl list_all2_refl)
  then show ?thesis by (cases p) (simp_all add: same_record_def claude_same_def codex_same_def list_all2_refl)
qed

text \<open>A value in place of an equal one changes nothing that can be read.\<close>

lemma alter_same: "json_get v k = Some x \<Longrightarrow> json_get (alter_field k (\<lambda>_. x) v) j = json_get v j"
  by simp

lemma elide_block_same: "fields_but ''content'' b (fst (elide_block template override b))"
  by (auto simp: elide_block_def Let_def case_prod_beta split: option.split)

lemma blocks_alter:
  assumes "record_blocks r \<noteq> []"
  shows "record_blocks (alter_field (lit ''message'') (alter_field (lit ''content'') (\<lambda>_. JArr bs)) r) = bs"
proof -
  obtain m c where "json_get r (lit ''message'') = Some m" "json_get m (lit ''content'') = Some c"
    using assms by (auto simp: record_blocks_def path2_def bind_eq_Some_conv split: option.splits)
  then show ?thesis by (simp add: record_blocks_def path2_def as_array_def)
qed

lemma role_alter:
  "path2 (alter_field (lit ''message'') (alter_field (lit ''content'') f) r) ''message'' ''role'' =
     path2 r ''message'' ''role''"
  by (cases "json_get r (lit ''message'')") (simp_all add: path2_def)

lemma string_field_but: "fields_but k v w \<Longrightarrow> j \<noteq> k \<Longrightarrow> string_field w (lit j) = string_field v (lit j)"
  by (simp add: string_field_def fields_but_get)

lemma elide_record_same:
  assumes "snd (elide_record template override r) \<noteq> 0"
  shows "same_record ClaudeCode r (fst (elide_record template override r))"
proof -
  let ?bs = "map fst (map (elide_block template override) (record_blocks r))"
  have "record_blocks r \<noteq> []" using assms by (auto simp: elide_record_def)
  then have "record_blocks (fst (elide_record template override r)) = ?bs"
    unfolding elide_record_def Let_def fst_conv by (rule blocks_alter)
  moreover have "list_all2 (fields_but ''content'') (record_blocks r) ?bs"
    by (auto simp: list_all2_conv_all_nth elide_block_same)
  moreover have fb: "fields_but ''message'' r (fst (elide_record template override r))"
    unfolding elide_record_def Let_def fst_conv by (rule fields_but_alter)
  moreover have "string_field (fst (elide_record template override r)) (lit ''type'') = string_field r (lit ''type'')"
    by (rule string_field_but [OF fb]) simp
  moreover have "is_object (fst (elide_record template override r)) = is_object r"
    "path2 (fst (elide_record template override r)) ''message'' ''role'' = path2 r ''message'' ''role''"
    unfolding elide_record_def Let_def fst_conv by (rule alter_field_kind role_alter)+
  ultimately show ?thesis unfolding same_record_def claude_same_def provider.case by metis
qed

subsection \<open>Codex items\<close>

lemma type_unique: "has_type p a \<Longrightarrow> has_type p b \<longleftrightarrow> b = a"
  by (auto simp: has_type_def)

lemma call_id_field_but: "fields_but ''output'' p q \<Longrightarrow> record_call_id q = record_call_id p"
  by (simp add: record_call_id_def call_id_field_def fields_but_get cong: option.case_cong)

lemma call_id_alter [simp]: "record_call_id (alter_field (lit ''output'') f p) = record_call_id p"
  by (rule call_id_field_but [OF fields_but_alter])

lemma elide_output_same: "item_same p (fst (elide_output render p))"
proof (cases "codex_elidable p")
  case None
  then show ?thesis by (simp add: elide_output_def)
next
  case (Some old)
  then obtain out t where p: "json_get p (lit ''output'') = Some out" "supported_item p"
      "supported_content out" "output_text p = Some t"
    by (auto simp: codex_elidable_def split: option.splits if_splits)
  let ?q = "alter_field (lit ''output'') (\<lambda>_. fst (elide (render old) out)) p"
  have fb: "fields_but ''output'' p ?q" by simp
  have q: "fst (elide_output render p) = ?q" using Some p(1) by (simp add: elide_output_def case_prod_beta)
  have sup: "supported_content (fst (elide (render old) out))"
    using p(3) stubbed_supported by (cases rule: elide_cases [of "render old" out]) auto
  have "supported_item ?q"
  proof (cases "has_type p ''function_call_output''")
    case True
    then have out: "\<exists>s. out = JStr s" using p(1,4)
      by (cases out) (auto simp: output_text_def get_str_def as_str_def)
    then have "is_string (fst (elide (render old) out))"
      by (cases rule: elide_cases [of "render old" out]) (auto simp: is_string_def stubbed_def)
    then show ?thesis using True p(1,2) fb
      by (simp add: supported_item_def type_unique [OF True] is_call_def
          supported_output_keys_def string_field_def)
  next
    case False
    then have T: "has_type p ''custom_tool_call_output''"
      using p(4) by (auto simp: output_text_def split: if_splits)
    then obtain bs where bs: "out = JArr bs" "list_all (\<lambda>b. has_type b ''input_text'') bs"
      using p(1,2) by (cases out) (auto simp: supported_item_def type_unique [OF T] is_call_def as_array_def
         )
    have "\<exists>cs. fst (elide (render old) out) = JArr cs \<and> list_all (\<lambda>b. has_type b ''input_text'') cs"
      using bs stubbed_input_text by (cases rule: elide_cases [of "render old" out]) (auto simp: stubbed_def)
    then obtain cs where "fst (elide (render old) out) = JArr cs" "list_all (\<lambda>b. has_type b ''input_text'') cs"
      by blast
    then show ?thesis using T p(1,2) fb sup
      by (simp add: supported_item_def type_unique [OF T] is_call_def
          supported_output_keys_def as_array_def)
  qed
  then show ?thesis using p(2) fb q by (simp add: item_same_def)
qed

lemma elide_output_object: "is_object (fst (elide_output render p)) = is_object p"
  by (auto simp: elide_output_def case_prod_beta split: option.split)

lemma elide_history_same:
  "rel_option (list_all2 item_same) (history_of_payload p) (history_of_payload (fst (elide_history render p)))"
proof (cases "history_of_payload p")
  case None
  then have "fst (elide_history render p) = p" by (simp add: elide_history_def history_of_payload_def)
  then show ?thesis using None by simp
next
  case (Some hist)
  let ?hist = "map fst (map (elide_output render) hist)"
  obtain x where "json_get p (lit ''replacement_history'') = Some x"
    using Some by (auto simp: history_of_payload_def bind_eq_Some_conv)
  then have "history_of_payload (fst (elide_history render p)) = Some ?hist"
    using Some by (simp add: elide_history_def history_of_payload_def Let_def as_array_def)
  then show ?thesis using Some by (auto simp: list_all2_conv_all_nth elide_output_same)
qed

lemma codex_elide_same: "same_record Codex r (fst (codex_elide_record template per i r))"
proof (cases "(has_type r ''response_item'' \<or> has_type r ''compacted'') \<and> json_get r (lit ''payload'') \<noteq> None")
  case False
  then have "fst (codex_elide_record template per i r) = r"
    by (auto simp: codex_elide_record_def split: option.split)
  then show ?thesis by simp
next
  case True
  then obtain p where p: "json_get r (lit ''payload'') = Some p" by blast
  define render where "render = (\<lambda>old. stub_render template per i old
    (case get_str p (lit ''type'') of Some t \<Rightarrow> t | None \<Rightarrow> lit ''output''))"
  define q where "q = (if has_type r ''compacted'' then fst (elide_history render p) else fst (elide_output render p))"
  have r': "fst (codex_elide_record template per i r) = alter_field (lit ''payload'') (\<lambda>_. q) r"
    using True p by (cases "has_type r ''compacted''")
      (simp_all add: codex_elide_record_def Let_def case_prod_beta q_def render_def)
  have "is_object q = is_object p"
    by (auto simp: q_def elide_output_object elide_history_def Let_def split: option.split)
  moreover have "string_field (alter_field (lit ''payload'') (\<lambda>_. q) r) (lit ''type'') = string_field r (lit ''type'')"
    by (rule string_field_but [OF fields_but_alter]) simp
  ultimately show ?thesis using p
    by (simp add: same_record_def codex_same_def r' q_def elide_history_same elide_output_same)
qed

lemma elided_same:
  "snd (elided_record p template per i r) \<noteq> 0 \<Longrightarrow> same_record p r (fst (elided_record p template per i r))"
  by (cases p) (auto simp: elided_record_def codex_elide_same elide_record_same split: if_splits)

end
