(* ===== verification/Reverify.thy ===== *)
theory Reverify
  imports Lowering
begin

text \<open>
  The verifier after an elision: it reports the same findings, so \<open>transform\<close> accepts the candidate.
\<close>

section \<open>Lists in step\<close>

lemma list_all2_enumerate:
  "list_all2 R xs ys \<Longrightarrow> list_all2 (\<lambda>a b. fst a = fst b \<and> R (snd a) (snd b)) (enumerate n xs) (enumerate n ys)"
  by (induction xs ys arbitrary: n rule: list_all2_induct) auto

lemma map_filter_step:
  "list_all2 (\<lambda>a b. f a = f b) xs ys \<Longrightarrow> List.map_filter f xs = List.map_filter f ys"
  by (induction rule: list_all2_induct) (auto simp: map_filter_simps split: option.split)

lemma fold_step: "list_all2 (\<lambda>a b. f a = f b) xs ys \<Longrightarrow> fold f xs s = fold f ys s"
  by (induction arbitrary: s rule: list_all2_induct) auto

lemma last_some_step: "list_all2 (\<lambda>a b. f a = f b) xs ys \<Longrightarrow> last_some f xs = last_some f ys"
  by (simp add: last_some_def map_filter_step)

abbreviation same_records :: "provider \<Rightarrow> json option list \<Rightarrow> json option list \<Rightarrow> bool" where
  "same_records p \<equiv> list_all2 (rel_option (same_record p))"

lemma enumerate_step:
  assumes "same_records p xs ys" "\<And>i. f (i, None) = g (i, None)"
    "\<And>i v w. same_record p v w \<Longrightarrow> f (i, Some v) = g (i, Some w)"
  shows "list_all2 (\<lambda>a b. f a = g b) (enumerate n xs) (enumerate n ys)"
proof -
  have eq: "f (i, x) = g (i, y)" if "rel_option (same_record p) x y" for i x y
    using that assms(2,3) by (auto elim!: option.rel_cases)
  have "f a = g b" if "fst a = fst b \<and> rel_option (same_record p) (snd a) (snd b)" for a b
    using that eq [of "snd a" "snd b" "fst a"] by (metis prod.collapse)
  then show ?thesis using list_all2_enumerate [OF assms(1), of n] by (auto elim!: list_all2_mono)
qed

section \<open>Claude Code\<close>

lemma claude_type: "same_record ClaudeCode v w \<Longrightarrow> has_type w t = has_type v t"
  by (simp add: same_record_def claude_same_def fields_but_type [where k = "''message''"])

lemma claude_get: "same_record ClaudeCode v w \<Longrightarrow> k \<noteq> ''message'' \<Longrightarrow> json_get w (lit k) = json_get v (lit k)"
  by (simp add: same_record_def claude_same_def fields_but_get [where k = "''message''"])

lemma claude_str: "same_record ClaudeCode v w \<Longrightarrow> k \<noteq> ''message'' \<Longrightarrow> get_str w (lit k) = get_str v (lit k)"
  by (simp add: get_str_def claude_get)

lemma block_ids_step:
  assumes "list_all2 (fields_but ''content'') bs cs" "field \<noteq> ''content''"
  shows "block_ids k field cs = block_ids k field bs"
proof -
  have "(if has_type b k then get_str b (lit field) else None) = (if has_type c k then get_str c (lit field) else None)"
    if "fields_but ''content'' b c" for b c
    using that assms(2) by (simp add: fields_but_type fields_but_str)
  then show ?thesis unfolding block_ids_def
    using assms(1) by (intro map_filter_step [symmetric]) (auto elim!: list_all2_mono)
qed

lemma claude_ids:
  assumes "same_record ClaudeCode v w"
  shows "record_uses w = record_uses v" "record_results w = record_results v"
proof -
  have blocks: "list_all2 (fields_but ''content'') (record_blocks v) (record_blocks w)"
    and role: "role_is w k = role_is v k" for k
    using assms by (simp_all add: same_record_def claude_same_def role_is_def claude_type [OF assms])
  show "record_uses w = record_uses v" "record_results w = record_results v"
    by (simp_all add: record_uses_def record_results_def role block_ids_step [OF blocks])
qed

lemma claude_step_same: "same_record ClaudeCode v w \<Longrightarrow> claude_step (i, Some v) = claude_step (i, Some w)"
proof -
  assume r: "same_record ClaudeCode v w"
  have "link_findings i w = link_findings i v" "head_findings i w = head_findings i v"
    "chain_findings i w = chain_findings i v"
    by (simp_all add: fun_eq_iff link_findings_def head_findings_def chain_findings_def claude_get [OF r]
        claude_str [OF r] claude_type [OF r] cong: option.case_cong)
  then show ?thesis by (simp add: fun_eq_iff claude_step_def claude_ids [OF r] claude_str [OF r])
qed

lemma verify_claude_same:
  assumes "same_records ClaudeCode xs ys"
  shows "verify_claude ys = verify_claude xs"
proof -
  note step = enumerate_step [OF assms]
  have "claude_scanned xs = claude_scanned ys" unfolding claude_scanned_def
    by (intro fold_step step) (simp_all add: claude_step_same claude_step_def)
  moreover have "record_links xs = record_links ys" unfolding record_links_def
    by (intro map_filter_step step) (simp_all add: record_link_def claude_str)
  moreover have "explicit_leaf xs = explicit_leaf ys" unfolding explicit_leaf_def
    by (intro last_some_step step) (simp_all add: prompt_leaf_def claude_str claude_type)
  moreover have "last_some message_uuid xs = last_some message_uuid ys"
    by (intro last_some_step list_all2_mono [OF assms])
      (auto simp: message_uuid_def claude_str claude_type elim!: option.rel_cases)
  moreover from calculation have "live_lines ys = live_lines xs"
    unfolding live_lines_def live_leaf_def by (simp only:)
  ultimately show ?thesis unfolding verify_claude_def by (simp only:)
qed

section \<open>Codex\<close>

definition same_effective :: "(nat \<times> json) list \<Rightarrow> (nat \<times> json) list \<Rightarrow> bool" where
  "same_effective = list_all2 (\<lambda>a b. fst a = fst b \<and> item_same (snd a) (snd b))"

definition same_scan :: "codex_scan \<Rightarrow> codex_scan \<Rightarrow> bool" where
  "same_scan s t \<longleftrightarrow> xs_ordinal t = xs_ordinal s \<and> xs_findings t = xs_findings s \<and>
     xs_stopped t = xs_stopped s \<and> same_effective (xs_effective s) (xs_effective t)"

lemma codex_type: "same_record Codex v w \<Longrightarrow> has_type w t = has_type v t"
  by (simp add: same_record_def codex_same_def fields_but_type [where k = "''payload''"])

lemma codex_get: "same_record Codex v w \<Longrightarrow> k \<noteq> ''payload'' \<Longrightarrow> json_get w (lit k) = json_get v (lit k)"
  by (simp add: same_record_def codex_same_def fields_but_get [where k = "''payload''"])

lemma ordinal_step_same: "same_scan s t \<Longrightarrow> same_record Codex v w \<Longrightarrow> same_scan (ordinal_step i v s) (ordinal_step i w t)"
  by (auto simp: ordinal_step_def codex_get same_scan_def split: option.split)

lemma same_items: "list_all2 item_same h k \<Longrightarrow> same_effective (map (Pair i) h) (map (Pair i) k)"
  by (auto simp: same_effective_def list_all2_conv_all_nth)

lemma path2_history:
  "Option.bind (path2 r ''payload'' ''replacement_history'') as_array =
     Option.bind (json_get r (lit ''payload'')) history_of_payload"
  by (cases "json_get r (lit ''payload'')") (simp_all add: path2_def history_of_payload_def)

lemma window_step_same:
  assumes s: "same_scan s t" and r: "same_record Codex v w"
  shows "same_scan (window_step i v s) (window_step i w t)"
proof (cases "has_type v ''compacted''")
  case True
  then have "rel_option (list_all2 item_same) (Option.bind (json_get v (lit ''payload'')) history_of_payload)
      (Option.bind (json_get w (lit ''payload'')) history_of_payload)"
    using r by (auto simp: same_record_def codex_same_def elim!: option.rel_cases)
  then consider
      "Option.bind (json_get v (lit ''payload'')) history_of_payload = None"
      "Option.bind (json_get w (lit ''payload'')) history_of_payload = None"
    | h k where "Option.bind (json_get v (lit ''payload'')) history_of_payload = Some h"
      "Option.bind (json_get w (lit ''payload'')) history_of_payload = Some k" "list_all2 item_same h k"
    by (auto elim!: option.rel_cases)
  then show ?thesis
  proof cases
    case 1
    then show ?thesis using True s
      by (simp add: window_step_def path2_history codex_type [OF r] same_scan_def same_effective_def)
  next
    case 2
    then show ?thesis using True s list_all2_lengthD [OF 2(3)]
      by (simp add: window_step_def path2_history codex_type [OF r] same_scan_def same_items)
        (simp add: same_effective_def)
  qed
next
  case False
  then have "rel_option (\<lambda>p q. is_object q = is_object p \<and> item_same p q)
      (json_get v (lit ''payload'')) (json_get w (lit ''payload''))"
    using r by (simp add: same_record_def codex_same_def)
  then consider "json_get v (lit ''payload'') = None" "json_get w (lit ''payload'') = None"
    | p q where "json_get v (lit ''payload'') = Some p" "json_get w (lit ''payload'') = Some q"
      "is_object q = is_object p" "item_same p q"
    by (auto elim!: option.rel_cases)
  then show ?thesis
  proof cases
    case 1
    then show ?thesis using False s by (simp add: window_step_def codex_type [OF r] same_scan_def)
  next
    case 2
    then show ?thesis using False s
      by (simp add: window_step_def codex_type [OF r] same_scan_def same_effective_def list_all2_appendI)
  qed
qed

lemma codex_step_same:
  "same_scan s t \<Longrightarrow> rel_option (same_record Codex) a b \<Longrightarrow> same_scan (codex_step (i, a) s) (codex_step (i, b) t)"
proof -
  assume s: "same_scan s t" and r: "rel_option (same_record Codex) a b"
  have len: "length (xs_effective y) = length (xs_effective x)" if "same_scan x y" for x y
    using that by (auto simp: same_scan_def same_effective_def dest: list_all2_lengthD)
  show ?thesis
  proof (cases a)
    case None
    then show ?thesis using s r by (simp add: codex_step_def)
  next
    case (Some v)
    then obtain w where w: "b = Some w" "same_record Codex v w" using r by (auto simp: option_rel_Some1)
    let ?x = "window_step i v (ordinal_step i v s)" and ?y = "window_step i w (ordinal_step i w t)"
    have xy: "same_scan ?x ?y" using s w(2) by (intro window_step_same ordinal_step_same)
    have "same_scan (x\<lparr>xs_stopped := True, xs_findings := xs_findings x @ fs\<rparr>)
        (y\<lparr>xs_stopped := True, xs_findings := xs_findings y @ fs\<rparr>)" if "same_scan x y" for x y fs
      using that by (simp add: same_scan_def)
    from this [OF xy] show ?thesis
      using s xy Some w(1) len [OF xy] by (simp add: codex_step_def Let_def) (simp add: same_scan_def)
  qed
qed

lemma pair_step_same: "item_same p q \<Longrightarrow> pair_step (n, l, p) = pair_step (n, l, q)"
proof -
  assume "item_same p q"
  then have pq: "fields_but ''output'' p q" "supported_item q = supported_item p" by (simp_all add: item_same_def)
  then have calls: "is_call q = is_call p" "is_call_output q = is_call_output p"
    by (simp_all add: is_call_def is_call_output_def fields_but_type [OF pq(1)])
  show ?thesis unfolding fun_eq_iff pair_step_def supported_step_def prod.case pq(2) calls
      call_id_field_but [OF pq(1)] by simp
qed

lemma verify_codex_same:
  assumes "same_records Codex xs ys"
  shows "verify_codex ys = verify_codex xs"
proof -
  have fold: "list_all2 (rel_option (same_record Codex)) xs ys \<Longrightarrow> same_scan s t \<Longrightarrow>
      same_scan (fold codex_step (enumerate n xs) s) (fold codex_step (enumerate n ys) t)" for n s t and xs ys
    by (induction xs ys arbitrary: n s t rule: list_all2_induct) (auto intro: codex_step_same)
  have "same_scan (codex_scanned xs) (codex_scanned ys)" unfolding codex_scanned_def
    by (rule fold [OF assms]) (simp add: same_scan_def same_effective_def)
  moreover have "paired_scan e = paired_scan e'" if "same_effective e e'" for e e'
  proof -
    have "list_all2 (\<lambda>a b. pair_step a = pair_step b) (enumerate 0 e) (enumerate 0 e')"
      using list_all2_enumerate [OF that [unfolded same_effective_def], of 0]
      by (rule list_all2_mono) (auto simp: pair_step_same)
    then show ?thesis unfolding paired_scan_def by (rule fold_step)
  qed
  ultimately have "paired_scan (xs_effective (codex_scanned ys)) = paired_scan (xs_effective (codex_scanned xs))"
    and scan: "same_scan (codex_scanned xs) (codex_scanned ys)" by (metis same_scan_def)+
  then show ?thesis by (simp add: verify_codex_def same_scan_def Let_def)
qed

section \<open>A file\<close>

text \<open>Two lines that read alike: the same line, or two records that agree on what is checked.\<close>

definition same_line :: "provider \<Rightarrow> (ustr \<Rightarrow> reading) \<Rightarrow> ustr \<Rightarrow> ustr \<Rightarrow> bool" where
  "same_line p parse l m \<longleftrightarrow> l = m \<or>
     (trim l \<noteq> [] \<and> trim m \<noteq> [] \<and>
      (\<exists>v w. decode_ok parse l = Some v \<and> decode_ok parse m = Some w \<and> same_record p v w))"

definition same_lines :: "provider \<Rightarrow> line_scan \<Rightarrow> line_scan \<Rightarrow> bool" where
  "same_lines p s t \<longleftrightarrow> ls_findings t = ls_findings s \<and> ls_bad t = ls_bad s \<and>
     same_records p (ls_records s) (ls_records t)"

lemma decode_ok_Inr: "decode_ok parse l = Some v \<Longrightarrow> decode_record parse l = Inr v"
  by (auto simp: decode_ok_def split: sum.splits)

lemma line_step_same:
  assumes "same_lines p s t" "same_line p parse l m"
  shows "same_lines p (line_step parse (i, l) s) (line_step parse (i, m) t)"
proof (cases "l = m")
  case True
  have "same_records p (xs @ [x]) (ys @ [x])" if "same_records p xs ys" for xs ys x
    using that by (intro list_all2_appendI) (auto intro!: option.rel_refl)
  then show ?thesis using assms(1) True
    by (simp add: line_step_def same_lines_def split: sum.split decode_error.split)
next
  case False
  then obtain v w where vw: "trim l \<noteq> []" "trim m \<noteq> []" "decode_record parse l = Inr v"
      "decode_record parse m = Inr w" "same_record p v w"
    using assms(2) decode_ok_Inr unfolding same_line_def by metis
  then have "is_object w = is_object v" "string_field w (lit ''type'') = string_field v (lit ''type'')"
    by (simp_all add: same_record_def)
  then show ?thesis using assms(1) vw by (simp add: line_step_def same_lines_def list_all2_appendI)
qed

lemma verify_lines_same:
  assumes "list_all2 (same_line p parse) ls ms"
  shows "verify_lines p parse ms = verify_lines p parse ls"
proof -
  have fold: "list_all2 (same_line p parse) ls ms \<Longrightarrow> same_lines p s t \<Longrightarrow>
      same_lines p (fold (line_step parse) (enumerate n ls) s) (fold (line_step parse) (enumerate n ms) t)"
    for n s t and ls ms
    by (induction ls ms arbitrary: n s t rule: list_all2_induct) (auto intro: line_step_same)
  have "same_lines p (scan_lines parse ls) (scan_lines parse ms)" unfolding scan_lines_def
    by (rule fold [OF assms]) (simp add: same_lines_def)
  then have "ls_findings (scan_lines parse ms) = ls_findings (scan_lines parse ls)"
    "ls_bad (scan_lines parse ms) = ls_bad (scan_lines parse ls)"
    "same_records p (ls_records (scan_lines parse ls)) (ls_records (scan_lines parse ms))"
    by (simp_all add: same_lines_def)
  then show ?thesis using verify_claude_same verify_codex_same list_all2_lengthD [OF assms]
    by (cases p) (simp_all add: verify_lines_def Let_def)
qed

lemma verify_same:
  assumes "list_all2 (same_line p parse) (lines s) (lines t)" "str_len s \<le> limit" "str_len t \<le> limit"
  shows "verify p parse limit (Utf8 t) = verify p parse limit (Utf8 s)"
proof -
  have "list_all2 (same_line p parse) (take (MAX_ITEMS + 1) (lines s)) (take (MAX_ITEMS + 1) (lines t))"
    using assms(1) by (rule list_all2_takeI)
  then have "verify_lines p parse (take (MAX_ITEMS + 1) (lines t)) = verify_lines p parse (take (MAX_ITEMS + 1) (lines s))"
    by (rule verify_lines_same)
  moreover have len: "length (lines t) = length (lines s)" using assms(1) by (simp add: list_all2_lengthD)
  moreover from this have "lines t = [] \<longleftrightarrow> lines s = []" by auto
  ultimately show ?thesis using assms(2,3)
    by (cases "length (lines s) > MAX_ITEMS") (simp_all add: verify_def Let_def)
qed

section \<open>Elisions\<close>

text \<open>The records an elision writes in place of the ones it rewrites.\<close>

definition rewritten_records :: "provider \<Rightarrow> (ustr \<Rightarrow> reading) \<Rightarrow> ustr \<Rightarrow> (nat \<times> ustr) list \<Rightarrow> ustr \<Rightarrow> json list" where
  "rewritten_records p parse template per raw =
     List.map_filter (\<lambda>(i, l).
       case decode_ok parse l of
         None \<Rightarrow> None
       | Some r \<Rightarrow> (case elided_record p template per i r of (r', n) \<Rightarrow> if n = 0 then None else Some r'))
       (enumerate 0 (lines raw))"

definition reads_back :: "(ustr \<Rightarrow> reading) \<Rightarrow> json \<Rightarrow> bool" where
  "reads_back parse v \<longleftrightarrow> parse (json_text v) = Tree v"

text \<open>One piece after the elision: the same piece, or the line of a record in its place.\<close>

lemma lowered_piece_cases:
  assumes reader: "json_reader parse" and piece: "closed_piece piece \<or> nl \<notin> set piece"
  obtains (kept) "lowered_piece p parse template per i piece = piece"
    | (rewritten) r r' n where "decode_ok parse (line_of piece) = Some r"
        "elided_record p template per i r = (r', n)" "n \<noteq> 0"
        "lowered_piece p parse template per i piece = json_text r' @ line_end piece"
        "json_ok r'" "is_object r'" "same_record p r r'"
proof (cases "decode_ok parse (trim_nl piece)")
  case None
  then show thesis using kept by (simp add: lowered_piece_def)
next
  case (Some r)
  obtain r' n where e: "elided_record p template per i r = (r', n)" by (cases "elided_record p template per i r")
  show thesis
  proof (cases "n = 0")
    case True
    then show thesis using kept Some e by (simp add: lowered_piece_def)
  next
    case False
    have "decode_ok parse (line_of piece) = Some r"
      using Some line_of_trim [OF piece] reader_cr [OF reader] by metis
    moreover have "json_ok r'" using json_ok_elided [OF reader_ok [OF reader Some], of p template per i] e by simp
    moreover have "is_object r'" "same_record p r r'"
      using elided_object [of p template per i r] elided_same [of p template per i r] e False by simp_all
    ultimately show thesis using rewritten Some e False by (simp add: lowered_piece_def)
  qed
qed

lemma lowered_same_end:
  assumes "json_reader parse" "closed_piece piece \<or> nl \<notin> set piece"
  shows "same_end piece (lowered_piece p parse template per i piece)"
  by (cases rule: lowered_piece_cases [OF assms, of p template per i])
    (auto simp: same_end_def dest: object_line json_text_no_nl)

lemma lowered_pieces:
  assumes "json_reader parse"
  shows "split_inclusive (lowered p parse targets template per raw) =
     map (\<lambda>(i, piece). if i \<in> set targets then lowered_piece p parse template per i piece else piece)
       (enumerate 0 (split_inclusive raw))" (is "_ = ?qs")
proof -
  let ?ps = "split_inclusive raw"
  have "same_end (?ps ! i) (?qs ! i)" if "i < length ?ps" for i
  proof -
    have "closed_piece (?ps ! i) \<or> nl \<notin> set (?ps ! i)"
      using pieces_ok_nth [OF pieces_ok_split nth_mem [OF that]] by blast
    then show ?thesis using that lowered_same_end [OF assms] by (simp add: nth_enumerate_eq same_end_def)
  qed
  then have "pieces_ok ?qs"
    by (intro pieces_ok_same_end [OF _ pieces_ok_split [of raw]]) (simp add: list_all2_conv_all_nth)
  then show ?thesis unfolding lowered_concat by (rule split_concat_pieces)
qed

end
