(* ===== verification/Accepted.thy ===== *)
theory Accepted
  imports Reverify Validation
begin

text \<open>
  What \<open>transform\<close> guarantees: an elision is accepted and changes nothing but the records it targets,
  and a plan the validator accepted never changes a protected record.
\<close>

declare lit_Cons [simp del]

section \<open>The lines after an elision\<close>

lemma nth_lines: "i < length (split_inclusive s) \<Longrightarrow> lines s ! i = line_of (split_inclusive s ! i)"
  by (simp add: lines_def)

lemma length_lines: "length (lines s) = length (split_inclusive s)"
  by (simp add: lines_def)

lemma piece_at: "i < length (split_inclusive s) \<Longrightarrow>
    closed_piece (split_inclusive s ! i) \<or> nl \<notin> set (split_inclusive s ! i)"
  using pieces_ok_nth [OF pieces_ok_split nth_mem] by blast

lemma lowered_length:
  "json_reader parse \<Longrightarrow>
     length (split_inclusive (lowered p parse targets template per raw)) = length (split_inclusive raw)"
  by (simp add: lowered_pieces)

lemma lowered_nth:
  "json_reader parse \<Longrightarrow> i < length (split_inclusive raw) \<Longrightarrow>
     split_inclusive (lowered p parse targets template per raw) ! i =
       (if i \<in> set targets then lowered_piece p parse template per i (split_inclusive raw ! i)
        else split_inclusive raw ! i)"
  by (simp add: lowered_pieces nth_enumerate_eq)

lemma map_filter_member: "x \<in> set xs \<Longrightarrow> f x = Some y \<Longrightarrow> y \<in> set (List.map_filter f xs)"
  by (induction xs) (auto simp: map_filter_simps split: option.split)

lemma rewritten_member:
  assumes "i < length (lines raw)" "decode_ok parse (lines raw ! i) = Some r"
    and "elided_record p template per i r = (r', n)" "n \<noteq> 0"
  shows "r' \<in> set (rewritten_records p parse template per raw)"
proof -
  have "(i, lines raw ! i) \<in> set (enumerate 0 (lines raw))" using assms(1) by (simp add: in_set_enumerate_eq)
  then show ?thesis unfolding rewritten_records_def
    by (rule map_filter_member) (use assms(2-4) in simp)
qed

lemma line_of_record:
  assumes "json_ok r" "is_object r" "closed_piece piece \<or> nl \<notin> set piece"
  shows "line_of (json_text r @ line_end piece) = json_text r"
  using assms(3) object_line [OF assms(1,2)] json_text_no_nl [OF assms(1)]
  by (auto simp: line_of_nl line_of_rest)

text \<open>A line is kept, or a record that reads back stands in its place.\<close>

lemma lowered_line:
  assumes reader: "json_reader parse" and rb: "list_all (reads_back parse) (rewritten_records p parse template per raw)"
    and i: "i < length (split_inclusive raw)"
  shows "same_line p parse (lines raw ! i) (lines (lowered p parse targets template per raw) ! i)"
proof -
  let ?out = "lowered p parse targets template per raw" and ?piece = "split_inclusive raw ! i"
  have nth: "lines raw ! i = line_of ?piece" "lines ?out ! i = line_of (split_inclusive ?out ! i)"
    using i lowered_length [OF reader] by (simp_all add: nth_lines)
  show ?thesis
  proof (cases "i \<in> set targets")
    case False
    then show ?thesis using nth lowered_nth [OF reader i] by (simp add: same_line_def)
  next
    case True
    then have out: "lines ?out ! i = line_of (lowered_piece p parse template per i ?piece)"
      using nth lowered_nth [OF reader i] by simp
    show ?thesis
    proof (cases rule: lowered_piece_cases [OF reader piece_at [OF i], of p template per i])
      case 1
      then show ?thesis using nth out by (simp add: same_line_def)
    next
      case (2 r r' n)
      have "lines ?out ! i = json_text r'"
        using out 2(4) line_of_record [OF 2(5,6) piece_at [OF i]] by simp
      moreover have "r' \<in> set (rewritten_records p parse template per raw)"
        by (rule rewritten_member [where i = i and r = r and n = n]) (use i 2 nth in \<open>simp_all add: lines_def\<close>)
      then have "decode_ok parse (json_text r') = Some r'"
        using rb unique_keys_ok [OF 2(5)] by (simp add: list_all_iff reads_back_def decode_ok_Some)
      ultimately show ?thesis
        using 2 nth reader_blank [OF reader] object_line [OF 2(5,6)] by (auto simp: same_line_def)
    qed
  qed
qed

lemma lowered_verify:
  assumes "json_reader parse" "list_all (reads_back parse) (rewritten_records p parse template per raw)"
    and "str_len raw \<le> limit" "str_len (lowered p parse targets template per raw) \<le> limit"
  shows "verify p parse limit (Utf8 (lowered p parse targets template per raw)) = verify p parse limit (Utf8 raw)"
proof (rule verify_same)
  have "length (lines (lowered p parse targets template per raw)) = length (lines raw)"
    using lowered_length [OF assms(1)] by (simp add: length_lines)
  then show "list_all2 (same_line p parse) (lines raw) (lines (lowered p parse targets template per raw))"
    using lowered_line [OF assms(1,2)] by (simp add: list_all2_conv_all_nth length_lines)
qed (use assms in simp_all)

lemma load_limit: "load_bytes p parse sha limit h raw = Inr t \<Longrightarrow> str_len raw \<le> limit"
  by (cases p) (auto simp: load_bytes_def load_claude_def load_codex_def Let_def split: if_splits)

definition eligible_targets :: "transcript \<Rightarrow> nat list \<Rightarrow> nat list" where
  "eligible_targets t ls = filter (\<lambda>i. i \<in> set (map line_index (filter is_elidable (items t)))) ls"

text \<open>A single elision within the bounds goes through: nothing the lowering does is a new finding.\<close>

lemma transform_elision:
  assumes "json_reader parse" "load_bytes p parse sha limit (detached p) raw = Inr t"
    and "check_edit_bounds [Elide ls template per] = Inr ()"
    and "list_all (reads_back parse) (rewritten_records p parse template per raw)"
    and "str_len (lowered p parse (eligible_targets t ls) template per raw) \<le> limit"
  shows "transform p parse sha limit new_id home (Utf8 raw) [Elide ls template per] =
     Inr (lowered p parse (eligible_targets t ls) template per raw)"
    and "verify p parse limit (Utf8 (lowered p parse (eligible_targets t ls) template per raw)) =
     verify p parse limit (Utf8 raw)"
proof -
  let ?out = "lowered p parse (eligible_targets t ls) template per raw"
  have limit: "str_len raw \<le> limit" by (rule load_limit [OF assms(2)])
  show same: "verify p parse limit (Utf8 ?out) = verify p parse limit (Utf8 raw)"
    by (rule lowered_verify [OF assms(1,4) limit assms(5)])
  have "apply_inner p parse sha limit new_id home 0 [Elide ls template per] raw = Inr ?out"
    using assms(2) by (simp add: apply_edit_def elision_targets_def eligible_targets_def lowered_def Let_def)
  then show "transform p parse sha limit new_id home (Utf8 raw) [Elide ls template per] = Inr ?out"
    using assms(3,5) limit same by (simp add: transform_def prepare_def list_ex_iff)
qed

text \<open>C4: An elision is always accepted, and does what it says. When the file loads, the edit is
  within the transform bounds, the records written read back as they were written and the result fits
  the byte limit, \<open>transform\<close> returns a file with the same number of lines in which every line that was
  not asked for, or that is not elidable, is unchanged byte for byte, and on which the verifier
  reports exactly the findings of the original.\<close>

theorem elision_accepted:
  assumes "json_reader parse" "load_bytes p parse sha limit (detached p) raw = Inr t"
    and "check_edit_bounds [Elide ls template per] = Inr ()"
    and "list_all (reads_back parse) (rewritten_records p parse template per raw)"
    and "str_len (lowered p parse (eligible_targets t ls) template per raw) \<le> limit"
  shows "\<exists>out. transform p parse sha limit new_id home (Utf8 raw) [Elide ls template per] = Inr out \<and>
     length (split_inclusive out) = length (split_inclusive raw) \<and>
     list_all (\<lambda>i. i \<in> set (eligible_targets t ls) \<or> split_inclusive out ! i = split_inclusive raw ! i)
       [0..<length (split_inclusive raw)] \<and>
     verify p parse limit (Utf8 out) = verify p parse limit (Utf8 raw)"
proof -
  let ?out = "lowered p parse (eligible_targets t ls) template per raw"
  have "list_all (\<lambda>i. i \<in> set (eligible_targets t ls) \<or> split_inclusive ?out ! i = split_inclusive raw ! i)
       [0..<length (split_inclusive raw)]"
    using lowered_nth [OF assms(1)] by (auto simp: list_all_iff)
  then show ?thesis using transform_elision [OF assms] lowered_length [OF assms(1)] by blast
qed

section \<open>Lines that no edit names\<close>

definition kept_piece :: "ustr \<Rightarrow> ustr \<Rightarrow> bool" where
  "kept_piece p q \<longleftrightarrow> q = p \<or> q = p @ [nl]"

lemma split_append_closed:
  "ends_with raw [nl] \<Longrightarrow> split_inclusive (raw @ x) = split_inclusive raw @ split_inclusive x"
proof (induction raw)
  case (Cons c s)
  show ?case
  proof (cases "s = []")
    case True
    then show ?thesis using Cons.prems by (simp add: ends_with_def)
  next
    case False
    then have e: "ends_with s [nl]" using Cons.prems by (cases s rule: rev_cases) (auto simp: ends_with_def)
    then have "split_inclusive s \<noteq> []" using False by (simp add: split_inclusive_Nil_iff)
    then show ?thesis using Cons.IH [OF e] by (auto split: list.split)
  qed
qed (simp add: ends_with_def)

lemma split_snoc_nl:
  "raw \<noteq> [] \<Longrightarrow> \<not> ends_with raw [nl] \<Longrightarrow>
     split_inclusive (raw @ [nl]) = butlast (split_inclusive raw) @ [last (split_inclusive raw) @ [nl]]"
proof (induction raw)
  case (Cons c s)
  show ?case
  proof (cases "s = []")
    case True
    then show ?thesis using Cons.prems by (simp add: ends_with_def)
  next
    case False
    then have e: "\<not> ends_with s [nl]" using Cons.prems by (cases s rule: rev_cases) (auto simp: ends_with_def)
    obtain w ws where w: "split_inclusive s = w # ws" using False by (cases "split_inclusive s") (auto simp: split_inclusive_Nil_iff)
    show ?thesis using Cons.IH [OF False e] w by (cases ws) auto
  qed
qed simp

lemma append_record_keeps:
  assumes i: "i < length (split_inclusive raw)"
  shows "i < length (split_inclusive (append_record r raw)) \<and>
     kept_piece (split_inclusive raw ! i) (split_inclusive (append_record r raw) ! i)"
proof -
  let ?ps = "split_inclusive raw" and ?x = "json_text r @ [nl]"
  have ne: "raw \<noteq> []" using i by auto
  show ?thesis
  proof (cases "ends_with raw [nl]")
    case True
    then have "split_inclusive (append_record r raw) = ?ps @ split_inclusive ?x"
      by (simp add: append_record_def split_append_closed)
    then show ?thesis using i by (simp add: nth_append kept_piece_def)
  next
    case False
    have "append_record r raw = (raw @ [nl]) @ ?x" using ne False by (simp add: append_record_def)
    then have "split_inclusive (append_record r raw) = (butlast ?ps @ [last ?ps @ [nl]]) @ split_inclusive ?x"
      using split_append_closed [of "raw @ [nl]" ?x] split_snoc_nl [OF ne False] by (simp add: ends_with_def)
    moreover have "?ps \<noteq> []" using i by auto
    moreover from this have "last ?ps = ?ps ! (length ?ps - 1)" by (rule last_conv_nth)
    ultimately show ?thesis using i
      by (cases "i = length ?ps - 1") (auto simp: nth_append nth_butlast kept_piece_def)
  qed
qed

lemma kept_piece_trans:
  assumes "kept_piece p q" "kept_piece q r" "closed_piece r \<or> nl \<notin> set r"
  shows "kept_piece p r"
proof -
  have "\<not> (closed_piece (p @ [nl] @ [nl]) \<or> nl \<notin> set (p @ [nl] @ [nl]))"
    by (auto simp: closed_piece_def)
  then show ?thesis using assms by (auto simp: kept_piece_def)
qed

definition kept_at :: "nat \<Rightarrow> ustr \<Rightarrow> ustr \<Rightarrow> bool" where
  "kept_at i raw out \<longleftrightarrow> i < length (split_inclusive out) \<and>
     kept_piece (split_inclusive raw ! i) (split_inclusive out ! i)"

lemma kept_at_trans: "kept_at i a b \<Longrightarrow> kept_at i b c \<Longrightarrow> kept_at i a c"
  using kept_piece_trans piece_at by (auto simp: kept_at_def)

lemma apply_edit_keeps:
  assumes "json_reader parse" "apply_edit p parse sha limit ids home e raw = Inr out"
    and "i \<notin> set (elided_lines e)" "i < length (split_inclusive raw)"
  shows "kept_at i raw out"
proof (cases e)
  case (Elide ls template per)
  then obtain targets where "elision_targets p parse sha limit raw ls = Inr targets"
      "out = lowered p parse targets template per raw"
    using assms(2) by (auto simp: apply_edit_def lowered_def split: sum.splits)
  moreover from this have "i \<notin> set targets" using assms(3) Elide
    by (auto simp: elision_targets_def Let_def split: sum.splits)
  ultimately show ?thesis using assms(1,4)
    by (simp add: kept_at_def kept_piece_def lowered_length lowered_nth)
next
  case (InjectDigest d)
  have app: "kept_at i s (append_record r s)" if "i < length (split_inclusive s)" for s r
    using append_record_keeps [OF that] by (simp add: kept_at_def)
  have "kept_at i raw (append_record m (append_record q (append_record u raw)))" for m q u
    using app [OF assms(4), of u] app [of "append_record u raw" q] app [of "append_record q (append_record u raw)" m]
    by (meson kept_at_def kept_at_trans)
  then show ?thesis using InjectDigest assms(2,4) app
    by (auto simp: apply_edit_def claude_inject_def codex_inject_def Let_def split: provider.splits if_splits)
qed (use assms in \<open>auto simp: apply_edit_def kept_at_def kept_piece_def\<close>)

lemma apply_inner_keeps:
  assumes "json_reader parse" "i \<notin> set (concat (map elided_lines es))"
  shows "apply_inner p parse sha limit new_id home n es raw = Inr out \<Longrightarrow>
     i < length (split_inclusive raw) \<Longrightarrow> kept_at i raw out"
  using assms(2)
proof (induction es arbitrary: n raw)
  case Nil
  then show ?case by (simp add: kept_at_def kept_piece_def)
next
  case (Cons e es)
  then obtain mid where mid: "apply_edit p parse sha limit (new_id n) home e raw = Inr mid"
      "apply_inner p parse sha limit new_id home (n + 1) es mid = Inr out"
    by (auto split: sum.splits)
  have "kept_at i raw mid" using apply_edit_keeps [OF assms(1) mid(1)] Cons.prems by simp
  moreover from this have "kept_at i mid out" using Cons.IH [OF mid(2)] Cons.prems by (simp add: kept_at_def)
  ultimately show ?case by (rule kept_at_trans)
qed

lemma apply_edit_length:
  "json_reader parse \<Longrightarrow> apply_edit p parse sha limit ids home e raw = Inr out \<Longrightarrow>
     length (split_inclusive raw) \<le> length (split_inclusive out)"
proof (cases e)
  case (Elide ls template per)
  assume "json_reader parse" "apply_edit p parse sha limit ids home e raw = Inr out"
  then show ?thesis using Elide
    by (auto simp: apply_edit_def lowered_length simp flip: lowered_def split: sum.splits)
next
  case other: (InjectDigest d)
  assume "json_reader parse" "apply_edit p parse sha limit ids home e raw = Inr out"
  moreover have "length (split_inclusive s) \<le> length (split_inclusive (append_record r s))" for s r
    using append_record_keeps [of "length (split_inclusive s) - 1" s r]
    by (cases "split_inclusive s") auto
  then have "length (split_inclusive raw) \<le>
      length (split_inclusive (append_record m (append_record q (append_record u raw))))"
    "length (split_inclusive raw) \<le> length (split_inclusive (append_record u raw))" for m q u
    by (meson order_trans)+
  ultimately show ?thesis using other
    by (auto simp: apply_edit_def claude_inject_def codex_inject_def Let_def split: provider.splits if_splits)
qed (auto simp: apply_edit_def)

lemma apply_inner_length:
  "json_reader parse \<Longrightarrow> apply_inner p parse sha limit new_id home n es raw = Inr out \<Longrightarrow>
     length (split_inclusive raw) \<le> length (split_inclusive out)"
proof (induction es arbitrary: n raw)
  case (Cons e es)
  then obtain mid where "apply_edit p parse sha limit (new_id n) home e raw = Inr mid"
      "apply_inner p parse sha limit new_id home (n + 1) es mid = Inr out"
    by (auto split: sum.splits)
  then show ?case using apply_edit_length [OF Cons.prems(1)] Cons.IH [OF Cons.prems(1)] order_trans by blast
qed simp

lemma transform_inner:
  "transform p parse sha limit new_id home (Utf8 raw) es = Inr out \<Longrightarrow>
     apply_inner p parse sha limit new_id home 0 es raw = Inr out"
  by (auto simp: transform_def prepare_def split: sum.splits if_splits)

text \<open>A line the loader makes an item of is a line of the file.\<close>

definition item_lines :: "transcript_item list \<Rightarrow> nat set" where
  "item_lines its = line_index ` set its"

lemma item_lines_simps [simp]:
  "item_lines [] = {}" "item_lines (it # its) = insert (line_index it) (item_lines its)"
  "item_lines (its @ js) = item_lines its \<union> item_lines js"
  "item_lines (map withdrawn its) = item_lines its"
  by (auto simp: item_lines_def withdrawn_def image_image)

lemma item_lines_take_drop: "item_lines (take k its) \<union> item_lines (drop k its) = item_lines its"
  by (metis append_take_drop_id item_lines_simps(3))

lemma new_item_lines [simp]:
  "line_index (compacted_item sha i r hist) = i" "line_index (response_item sha calls i r) = i"
  by (simp_all add: compacted_item_def response_item_def Let_def)

lemma compacted_step_lines:
  assumes "compacted_step sha i r st = Inr st'"
  shows "item_lines (cl_items st') = insert i (item_lines (cl_items st))"
proof -
  have "\<exists>hist. cl_items st' = take (cl_window st) (cl_items st) @ map withdrawn (drop (cl_window st) (cl_items st)) @
      [compacted_item sha i r hist]"
    using assms by (auto simp: compacted_step_def Let_def split: if_splits)
  then show ?thesis using item_lines_take_drop [of "cl_window st" "cl_items st"] by auto
qed

lemma response_step_lines: "item_lines (cl_items (response_step sha i r st)) = insert i (item_lines (cl_items st))"
  by (simp add: response_step_def Let_def)

definition ordinal_checked :: "json \<Rightarrow> codex_load \<Rightarrow> codex_load" where
  "ordinal_checked r st = st\<lparr>cl_ambiguous := (cl_ambiguous st \<or> \<not> is_object r \<or>
     (case json_get r (lit ''ordinal'') of Some v \<Rightarrow> as_u64 v = None | None \<Rightarrow> False))\<rparr>"

lemma codex_line_cases:
  assumes "codex_line parse sha i l st = Inr st'"
  obtains (quiet) "cl_items st' = cl_items st"
    | (response) r where "st' = response_step sha i r (ordinal_checked r st)"
    | (compacted) r where "compacted_step sha i r (ordinal_checked r st) = Inr st'"
proof (cases "decode_ok parse l")
  case None
  then show thesis using assms quiet by (auto simp: codex_line_def)
next
  case (Some r)
  let ?s = "ordinal_checked r st"
  have step: "(if has_type r ''token_usage_record'' \<or> has_type r ''event_msg''
      then Inr (?s\<lparr>cl_usage := codex_absorb_usage r (cl_usage ?s)\<rparr>)
      else if has_type r ''response_item'' then Inr (response_step sha i r ?s)
      else if has_type r ''compacted'' then compacted_step sha i r ?s else Inr ?s) = Inr st'"
    using assms Some unfolding codex_line_def ordinal_checked_def Let_def by simp
  have same: "cl_items ?s = cl_items st" by (simp add: ordinal_checked_def)
  show thesis
  proof (cases "has_type r ''token_usage_record'' \<or> has_type r ''event_msg''")
    case True
    then have "st' = ?s\<lparr>cl_usage := codex_absorb_usage r (cl_usage ?s)\<rparr>" using step by simp
    then show thesis using quiet same by simp
  next
    case no: False
    show thesis
    proof (cases "has_type r ''response_item''")
      case True
      then show thesis using response [of r] no step by simp
    next
      case False
      then show thesis using compacted [of r] quiet no step same by (cases "has_type r ''compacted''") simp_all
    qed
  qed
qed

lemma codex_line_lines:
  assumes "codex_line parse sha i l st = Inr st'"
  shows "item_lines (cl_items st') \<subseteq> insert i (item_lines (cl_items st))"
proof -
  have same: "cl_items (ordinal_checked r st) = cl_items st" for r by (simp add: ordinal_checked_def)
  from assms show ?thesis
    by (cases rule: codex_line_cases)
      (auto simp: response_step_lines same dest!: compacted_step_lines)
qed

lemma codex_lines_lines:
  "codex_lines parse sha i ls st = Inr st' \<Longrightarrow>
     item_lines (cl_items st') \<subseteq> {i..<i + length ls} \<union> item_lines (cl_items st)"
proof (induction ls arbitrary: i st)
  case (Cons l ls)
  then obtain mid where mid: "codex_line parse sha i l st = Inr mid" "codex_lines parse sha (i + 1) ls mid = Inr st'"
    by (auto split: if_splits sum.splits)
  show ?case using Cons.IH [OF mid(2)] codex_line_lines [OF mid(1)] by (fastforce simp: subset_iff)
qed simp

lemma item_line_lines:
  "item_lines (fst (item_line parse sha live (i, l) st)) \<subseteq> insert i (item_lines (fst st))"
  by (cases st) (auto simp: item_line_def claude_item_def Let_def opt_list_def split: option.splits if_splits)

lemma load_lines:
  assumes "load_bytes p parse sha limit h raw = Inr t" "it \<in> set (items t)"
  shows "line_index it < length (split_inclusive raw)"
proof (cases p)
  case ClaudeCode
  have fold: "item_lines (fst (fold (item_line parse sha live) (enumerate n ls) st)) \<subseteq>
      {n..<n + length ls} \<union> item_lines (fst st)" for live n ls st
  proof (induction ls arbitrary: n st)
    case (Cons l ls)
    show ?case using Cons [of "Suc n" "item_line parse sha live (n, l) st"] item_line_lines [of parse sha live n l st]
      by (fastforce simp: subset_iff)
  qed simp
  have b: "item_lines (map (branch_item a live linked) its) = item_lines its" for a live linked its
  proof -
    have "line_index (branch_item a live linked it) = line_index it" for it
      by (simp add: branch_item_def withdrawn_def)
    then show ?thesis by (simp add: item_lines_def image_image)
  qed
  have "item_lines (items t) = item_lines (fst (fold (item_line parse sha (projected_live (project_lines parse (lines raw))))
      (enumerate 0 (lines raw)) ([], [])))"
    using assms(1) ClaudeCode by (auto simp: load_bytes_def load_claude_def Let_def b split: if_splits)
  moreover have "line_index it \<in> item_lines (items t)" using assms(2) by (simp add: item_lines_def)
  ultimately show ?thesis using fold [of "projected_live (project_lines parse (lines raw))" 0 "lines raw" "([], [])"]
    by (auto simp: length_lines)
next
  case Codex
  obtain st where st: "codex_lines parse sha 0 (lines raw) empty_codex_load = Inr st"
      "item_lines (items t) = item_lines (cl_items st)"
    using assms(1) Codex by (auto simp: load_bytes_def load_codex_def Let_def split: if_splits sum.splits)
  have "line_index it \<in> item_lines (items t)" using assms(2) by (simp add: item_lines_def)
  then show ?thesis using codex_lines_lines [OF st(1)] st(2) by (auto simp: empty_codex_load_def length_lines)
qed

text \<open>C3: A protected record is never rewritten. When a session file loads into a transcript, the
  validator accepts a plan on that transcript, and \<open>transform\<close> returns a candidate for the plan, then
  every line the plan's elisions do not name stands at the same place of the candidate byte for byte
  (at most a line feed is added to a last line that had none), and the lines of the protected items,
  the newest tool outputs the policy keeps, are lines of the file that the plan does not name.\<close>

theorem accepted_plan_keeps_protected:
  assumes "json_reader parse" "load_bytes p parse sha limit h raw = Inr t"
    and "validate_edits t pol es = Inr ()"
    and "transform p parse sha limit' new_id home (Utf8 raw) es = Inr out"
  shows "length (split_inclusive raw) \<le> length (split_inclusive out) \<and>
     list_all (\<lambda>i. i \<in> set (concat (map elided_lines es)) \<or>
         split_inclusive out ! i = split_inclusive raw ! i \<or>
         split_inclusive out ! i = split_inclusive raw ! i @ [10])
       [0..<length (split_inclusive raw)] \<and>
     list_all (\<lambda>i. i < length (split_inclusive raw) \<and> i \<notin> set (concat (map elided_lines es)))
       (protected_lines t (keep_recent_tool_outputs pol))"
proof -
  have ok: "list_all (edit_ok t (keep_recent_tool_outputs pol)) es"
    using assms(3) by (simp add: validate_edits_iff plan_admissible_def)
  have unnamed: "i \<notin> set (concat (map elided_lines es))" if "i \<in> set (protected_lines t (keep_recent_tool_outputs pol))" for i
  proof -
    have "i \<notin> set (elided_lines e)" if "e \<in> set es" for e
      using ok that \<open>i \<in> _\<close> by (cases e) (auto simp: list_all_iff elision_target_def)
    then show ?thesis by auto
  qed
  have "i < length (split_inclusive raw)" if "i \<in> set (protected_lines t (keep_recent_tool_outputs pol))" for i
    using that load_lines [OF assms(2)] by (auto simp: protected_lines_def dest!: in_set_takeD)
  then have "list_all (\<lambda>i. i < length (split_inclusive raw) \<and> i \<notin> set (concat (map elided_lines es)))
      (protected_lines t (keep_recent_tool_outputs pol))"
    using unnamed unfolding list_all_iff by blast
  moreover have "kept_at i raw out"
    if "i \<notin> set (concat (map elided_lines es))" "i < length (split_inclusive raw)" for i
    by (rule apply_inner_keeps [OF assms(1) that(1) transform_inner [OF assms(4)] that(2)])
  then have "list_all (\<lambda>i. i \<in> set (concat (map elided_lines es)) \<or>
        split_inclusive out ! i = split_inclusive raw ! i \<or>
        split_inclusive out ! i = split_inclusive raw ! i @ [10]) [0..<length (split_inclusive raw)]"
    unfolding list_all_iff kept_at_def kept_piece_def set_upt by (meson atLeastLessThan_iff)
  ultimately show ?thesis using apply_inner_length [OF assms(1) transform_inner [OF assms(4)]] by blast
qed

end
