(* ===== verification/Checked.thy ===== *)
theory Checked
  imports Reverify
begin

text \<open>
  What the verifier promises: a Claude Code file without findings is exactly a well-linked one whose
  live branch pairs every tool call with a later result, and a Codex window without findings pairs
  every call with exactly one later output.
\<close>

section \<open>Claude Code: links\<close>

definition uuids :: "json option list \<Rightarrow> ustr set" where
  "uuids rs = {u. \<exists>r. Some r \<in> set rs \<and> get_str r (lit ''uuid'') = Some u}"

definition record_sound :: "json \<Rightarrow> bool" where
  "record_sound r \<longleftrightarrow>
     (json_get r (lit ''uuid'') = None \<or>
       (\<exists>u. json_get r (lit ''uuid'') = Some u \<and> valid_link_id u) \<and> valid_parent r) \<and>
     (has_type r ''last-prompt'' \<longrightarrow> (\<exists>s. get_str r (lit ''leafUuid'') = Some s \<and> s \<noteq> []))"

text \<open>A record repeats no identifier before it and names a parent before it.\<close>

definition chain_sound :: "ustr set \<Rightarrow> json \<Rightarrow> bool" where
  "chain_sound before' r \<longleftrightarrow>
     (\<forall>u. get_str r (lit ''uuid'') = Some u \<longrightarrow> u \<notin> before' \<and>
        (\<forall>p. get_str r (lit ''parentUuid'') = Some p \<longrightarrow> p \<in> before'))"

lemma link_findings_Nil:
  "link_findings i r @ head_findings i r = [] \<longleftrightarrow> record_sound r"
  by (auto simp: link_findings_def head_findings_def record_sound_def valid_parent_def
      split: option.split)

lemma chain_findings_Nil: "chain_findings i r seen = [] \<longleftrightarrow> chain_sound (set seen) r"
  by (auto simp: chain_findings_def chain_sound_def split: option.split)

definition numbered_ids :: "(json \<Rightarrow> ustr list) \<Rightarrow> nat \<Rightarrow> json option list \<Rightarrow> (ustr \<times> nat) list" where
  "numbered_ids f n rs =
     concat (map (\<lambda>(i, r). case r of None \<Rightarrow> [] | Some r \<Rightarrow> map (\<lambda>u. (u, i)) (f r)) (enumerate n rs))"

lemma numbered_ids_simps [simp]:
  "numbered_ids f n [] = []"
  "numbered_ids f n (None # rs) = numbered_ids f (Suc n) rs"
  "numbered_ids f n (Some r # rs) = map (\<lambda>u. (u, n)) (f r) @ numbered_ids f (Suc n) rs"
  by (simp_all add: numbered_ids_def)

lemma claude_fold:
  "cs_uses (fold claude_step (enumerate n rs) st) = cs_uses st @ numbered_ids record_uses n rs"
  "cs_results (fold claude_step (enumerate n rs) st) = cs_results st @ numbered_ids record_results n rs"
  "set (cs_seen (fold claude_step (enumerate n rs) st)) = set (cs_seen st) \<union> uuids rs"
proof (induction rs arbitrary: n st)
  case (Cons e rs)
  {
    case 1
    show ?case using Cons.IH(1) by (cases e) (simp_all add: claude_step_def)
  next
    case 2
    show ?case using Cons.IH(2) by (cases e) (simp_all add: claude_step_def)
  next
    case 3
    show ?case using Cons.IH(3) by (cases e) (auto simp: claude_step_def uuids_def split: option.split)
  }
qed (simp_all add: uuids_def)

lemma claude_fold_findings:
  "cs_findings (fold claude_step (enumerate n rs) st) = [] \<longleftrightarrow>
     cs_findings st = [] \<and> (\<forall>r. Some r \<in> set rs \<longrightarrow> record_sound r) \<and>
     (\<forall>i < length rs. \<forall>r. rs ! i = Some r \<longrightarrow> chain_sound (set (cs_seen st) \<union> uuids (take i rs)) r)"
proof (induction rs arbitrary: n st)
  case (Cons e rs)
  show ?case
  proof (cases e)
    case None
    have "uuids (take (Suc i) (None # rs)) = uuids (take i rs)" for i by (simp add: uuids_def)
    then show ?thesis using Cons.IH [of "Suc n" st] None
      by (simp add: claude_step_def All_less_Suc2) 
  next
    case (Some r)
    let ?st = "claude_step (n, Some r) st"
    have seen: "set (cs_seen ?st) = set (cs_seen st) \<union> uuids [Some r]"
      by (auto simp: claude_step_def uuids_def split: option.split)
    have split: "uuids (take (Suc i) (Some r # rs)) = uuids [Some r] \<union> uuids (take i rs)" for i
      by (auto simp: uuids_def)
    have f: "cs_findings ?st = [] \<longleftrightarrow> cs_findings st = [] \<and> record_sound r \<and> chain_sound (set (cs_seen st)) r"
      using link_findings_Nil [of n r] chain_findings_Nil [of n r "cs_seen st"] by (auto simp: claude_step_def)
    have "uuids (take 0 (Some r # rs)) = {}" by (simp add: uuids_def)
    then show ?thesis using Cons.IH [of "Suc n" ?st] Some f seen split
      by (simp add: All_less_Suc2 Un_assoc) blast
  qed
qed simp

section \<open>Claude Code: calls and results\<close>

lemma numbered_ids_lines: "(u, l) \<in> set (numbered_ids f n rs) \<Longrightarrow> n \<le> l"
  by (auto simp: numbered_ids_def in_set_enumerate_eq split: option.splits)

lemma sorted_numbered_ids: "sorted (map snd (numbered_ids f n rs))"
proof (induction rs arbitrary: n)
  case (Cons e rs)
  show ?case
  proof (cases e)
    case (Some r)
    have "sorted (map snd (map (\<lambda>u. (u, n)) (f r)))" by (simp add: comp_def sorted_iff_nth_mono)
    moreover have "n \<le> l" if "(u, l) \<in> set (numbered_ids f (Suc n) rs)" for u l
      using numbered_ids_lines [OF that] by simp
    ultimately show ?thesis using Some Cons [of "Suc n"] by (auto simp: sorted_append)
  qed (use Cons in simp)
qed simp

lemma sorted_live_only: "sorted (map snd xs) \<Longrightarrow> sorted (map snd (live_only live xs))"
  by (simp add: live_only_def sorted_filter)

lemma repeated_uses_Nil: "repeated_uses seen us = [] \<longleftrightarrow> distinct (map fst us) \<and> set seen \<inter> fst ` set us = {}"
  by (induction seen us rule: repeated_uses.induct) auto

text \<open>The last entry of an identifier has the greatest line.\<close>

lemma last_entry:
  assumes "sorted (map snd xs)"
  shows "(\<exists>m. map_of (rev xs) u = Some m \<and> l < m) \<longleftrightarrow> (\<exists>m. (u, m) \<in> set xs \<and> l < (m :: nat))"
  using assms
proof (induction xs rule: rev_induct)
  case (snoc x xs)
  obtain v k where x: "x = (v, k)" by (cases x)
  have "\<forall>m. (u, m) \<in> set xs \<longrightarrow> m \<le> k" using snoc.prems x by (force simp: sorted_append)
  moreover have "sorted (map snd xs)" using snoc.prems by (simp add: sorted_append)
  ultimately show ?case using snoc.IH x by (auto dest: order_less_le_trans)
qed simp

lemma unanswered_Nil:
  "sorted (map snd answers) \<Longrightarrow>
     unanswered uses answers = [] \<longleftrightarrow> (\<forall>(u, l) \<in> set uses. \<exists>m. (u, m) \<in> set answers \<and> l < m)"
proof -
  assume sorted: "sorted (map snd answers)"
  have "(case map_of (rev answers) u of Some rl \<Rightarrow> if rl > l then [] else [x] | None \<Rightarrow> [x]) = [] \<longleftrightarrow>
      (\<exists>m. (u, m) \<in> set answers \<and> l < m)" for u l and x :: verify_finding
    unfolding last_entry [OF sorted, symmetric] by (auto split: option.split)
  then show ?thesis by (auto simp: unanswered_def)
qed

lemma unasked_Nil:
  assumes "distinct (map fst uses)"
  shows "unasked uses answers = [] \<longleftrightarrow> (\<forall>(u, m) \<in> set answers. \<exists>l. (u, l) \<in> set uses \<and> l < m)"
proof -
  have "map_of (rev uses) u = Some l \<longleftrightarrow> (u, l) \<in> set uses" for u l
    using assms map_of_eq_Some_iff [of "rev uses" u l] by (simp flip: rev_map)
  then show ?thesis by (fastforce simp: unasked_def split: option.splits if_splits)
qed

section \<open>Claude Code: the file\<close>

definition live_calls :: "json option list \<Rightarrow> (ustr \<times> nat) list" where
  "live_calls rs = live_only (live_lines rs) (numbered_ids record_uses 0 rs)"

definition live_answers :: "json option list \<Rightarrow> (ustr \<times> nat) list" where
  "live_answers rs = live_only (live_lines rs) (numbered_ids record_results 0 rs)"

definition claude_sound :: "json option list \<Rightarrow> bool" where
  "claude_sound rs \<longleftrightarrow>
     (\<forall>r. Some r \<in> set rs \<longrightarrow> record_sound r) \<and>
     (\<forall>i < length rs. \<forall>r. rs ! i = Some r \<longrightarrow> chain_sound (uuids (take i rs)) r) \<and>
     (\<forall>l u. explicit_leaf rs = Some (l, u) \<longrightarrow> u \<in> uuids rs) \<and>
     distinct (map fst (live_calls rs)) \<and>
     (\<forall>(u, l) \<in> set (live_calls rs). \<exists>m. (u, m) \<in> set (live_answers rs) \<and> l < m) \<and>
     (\<forall>(u, m) \<in> set (live_answers rs). \<exists>l. (u, l) \<in> set (live_calls rs) \<and> l < m)"

text \<open>C5: The verifier passes a Claude Code file exactly when the file is sound: identifiers and parents
  are well formed, no identifier repeats, every parent and the named leaf are records, parents before
  their children, and on the live branch tool call identifiers are distinct, every call has a result on
  a later line and every result a call on an earlier one.\<close>

theorem verify_claude_exact: "verify_claude rs = [] \<longleftrightarrow> claude_sound rs"
proof -
  let ?st = "claude_scanned rs"
  have scan: "cs_uses ?st = numbered_ids record_uses 0 rs" "cs_results ?st = numbered_ids record_results 0 rs"
    "set (cs_seen ?st) = uuids rs"
    "cs_findings ?st = [] \<longleftrightarrow> (\<forall>r. Some r \<in> set rs \<longrightarrow> record_sound r) \<and>
       (\<forall>i < length rs. \<forall>r. rs ! i = Some r \<longrightarrow> chain_sound (uuids (take i rs)) r)"
    unfolding claude_scanned_def claude_fold claude_fold_findings by simp_all
  have sorted: "sorted (map snd (live_answers rs))"
    unfolding live_answers_def by (rule sorted_live_only [OF sorted_numbered_ids])
  have "verify_claude rs = [] \<longleftrightarrow> cs_findings ?st = [] \<and>
      (case explicit_leaf rs of Some (l, u) \<Rightarrow> u \<in> uuids rs | None \<Rightarrow> True) \<and>
      repeated_uses [] (live_calls rs) = [] \<and> unanswered (live_calls rs) (live_answers rs) = [] \<and>
      unasked (live_calls rs) (live_answers rs) = []"
    unfolding verify_claude_def Let_def live_calls_def live_answers_def scan(1,2)
    by (auto simp: scan(3) split: option.split)
  then show ?thesis
    unfolding claude_sound_def scan(4) repeated_uses_Nil unanswered_Nil [OF sorted]
    using unasked_Nil [of "live_calls rs" "live_answers rs"] by (auto split: option.split)
qed

section \<open>Codex: the window\<close>

definition call_of :: "nat \<times> json \<Rightarrow> ustr option" where
  "call_of e = (if is_call (snd e) then record_call_id (snd e) else None)"

definition output_of :: "nat \<times> json \<Rightarrow> ustr option" where
  "output_of e = (if is_call_output (snd e) then record_call_id (snd e) else None)"

definition window_outputs_ok :: "(nat \<times> json) list \<Rightarrow> bool" where
  "window_outputs_ok e \<longleftrightarrow>
     (\<forall>i < length e. \<forall>u. output_of (e ! i) = Some u \<longrightarrow> u \<in> set (List.map_filter call_of (take i e)))"

definition window_clean :: "(nat \<times> json) list \<Rightarrow> bool" where
  "window_clean e \<longleftrightarrow> list_all (\<lambda>x. supported_item (snd x)) e \<and> distinct (List.map_filter call_of e) \<and>
     distinct (List.map_filter output_of e) \<and> window_outputs_ok e"

definition window_paired :: "(nat \<times> json) list \<Rightarrow> bool" where
  "window_paired e \<longleftrightarrow> window_clean e \<and>
     set (List.map_filter call_of e) \<subseteq> set (List.map_filter output_of e)"

lemma map_filter_append: "List.map_filter f (xs @ ys) = List.map_filter f xs @ List.map_filter f ys"
  by (induction xs) (auto simp: map_filter_simps split: option.split)

lemma map_filter_one: "List.map_filter f [x] = opt_list (f x)"
  by (cases "f x") (simp_all add: map_filter_simps)

lemma call_not_output: "is_call p \<Longrightarrow> \<not> is_call_output p"
  by (auto simp: is_call_def is_call_output_def type_unique)

lemma window_outputs_snoc:
  "window_outputs_ok (e @ [x]) \<longleftrightarrow> window_outputs_ok e \<and>
     (\<forall>u. output_of x = Some u \<longrightarrow> u \<in> set (List.map_filter call_of e))"
  unfolding window_outputs_ok_def by (auto simp: nth_append less_Suc_eq)

lemma window_clean_snoc:
  "window_clean (e @ [x]) \<longleftrightarrow> window_clean e \<and> supported_item (snd x) \<and>
     (\<forall>u. call_of x = Some u \<longrightarrow> u \<notin> set (List.map_filter call_of e)) \<and>
     (\<forall>u. output_of x = Some u \<longrightarrow> u \<in> set (List.map_filter call_of e) \<and> u \<notin> set (List.map_filter output_of e))"
  by (auto simp: window_clean_def window_outputs_snoc map_filter_append map_filter_one
      split: option.splits)

lemma clean_outputs_called:
  "window_clean e \<Longrightarrow> set (List.map_filter output_of e) \<subseteq> set (List.map_filter call_of e)"
proof (induction e rule: rev_induct)
  case (snoc x e)
  then show ?case by (auto simp: window_clean_snoc map_filter_append map_filter_one opt_list_def split: option.splits)
qed (simp add: map_filter_simps)

text \<open>What the pairing loop knows after a prefix of the window.\<close>

definition pair_known :: "(nat \<times> json) list \<Rightarrow> pair_scan \<Rightarrow> bool" where
  "pair_known e st \<longleftrightarrow>
     fst ` set (pr_calls st) = set (List.map_filter call_of e) \<and> (\<forall>(u, pos, l) \<in> set (pr_calls st). pos < length e) \<and>
     set (pr_outputs st) = set (List.map_filter output_of e) \<and>
     (pr_findings st = [] \<longleftrightarrow> window_clean e) \<and>
     (window_clean e \<longrightarrow> set (pr_answered st) = set (List.map_filter output_of e))"

lemma map_of_known:
  "map_of cs u \<noteq> None \<longleftrightarrow> u \<in> fst ` set cs" "map_of cs u = Some v \<Longrightarrow> (u, v) \<in> set cs"
  by (auto simp: map_of_eq_None_iff dest: map_of_SomeD)

lemma preceded_iff:
  "(\<forall>(u, pos, l) \<in> set cs. pos < n) \<Longrightarrow>
     (case map_of cs u of Some (call, _) \<Rightarrow> call < n | None \<Rightarrow> False) \<longleftrightarrow> u \<in> fst ` set cs"
  using map_of_known [of cs u] by (auto split: option.splits)

lemma pair_step_known:
  assumes k: "pair_known e st"
  shows "pair_known (e @ [x]) (pair_step (length e, x) st)"
proof -
  obtain l p where x: "x = (l, p)" by (cases x)
  note known = k [unfolded pair_known_def]
  have pos: "\<forall>(u, pos, l) \<in> set (pr_calls st). pos < length e" using known by blast
  let ?st = "supported_step l p st"
  have sup: "pr_calls ?st = pr_calls st" "pr_outputs ?st = pr_outputs st" "pr_answered ?st = pr_answered st"
    "pr_findings ?st = [] \<longleftrightarrow> pr_findings st = [] \<and> supported_item p"
    by (simp_all add: supported_step_def)
  consider (plain) "call_of x = None" "output_of x = None" "pair_step (length e, x) st = ?st"
    | (call) u where "call_of x = Some u" "output_of x = None" "pair_step (length e, x) st = call_step (length e) l u ?st"
    | (out) u where "call_of x = None" "output_of x = Some u" "pair_step (length e, x) st = output_step (length e) l u ?st"
  proof (cases "record_call_id p")
    case None
    then show thesis using plain x by (simp add: call_of_def output_of_def pair_step_def)
  next
    case (Some u)
    then show thesis using plain call [of u] out [of u] x call_not_output [of p]
      by (cases "is_call p"; cases "is_call_output p") (simp_all add: call_of_def output_of_def pair_step_def)
  qed
  then show ?thesis
  proof cases
    case plain
    then show ?thesis using known sup x
      by (auto simp: pair_known_def window_clean_snoc map_filter_append map_filter_one less_Suc_eq)
  next
    case call
    have "fst ` set (filter (\<lambda>(k, _). k \<noteq> u) cs) = fst ` set cs - {u}" for cs :: "(ustr \<times> nat \<times> nat) list"
      by force
    moreover have "u \<notin> set (List.map_filter call_of e) \<Longrightarrow> window_clean e \<Longrightarrow> u \<notin> set (List.map_filter output_of e)"
      using clean_outputs_called by blast
    ultimately show ?thesis using known sup x call map_of_known(1) [of "pr_calls st" u]
      by (auto simp: pair_known_def window_clean_snoc map_filter_append map_filter_one less_Suc_eq call_step_def)
  next
    case out
    then show ?thesis using known sup x preceded_iff [OF pos, of u]
      by (auto simp: pair_known_def window_clean_snoc map_filter_append map_filter_one less_Suc_eq output_step_def Let_def)
  qed
qed

lemma enumerate_snoc: "enumerate 0 (xs @ [x]) = enumerate 0 xs @ [(length xs, x)]"
  by (simp add: enumerate_append_eq)

lemma paired_scan_known: "pair_known e (paired_scan e)"
proof (induction e rule: rev_induct)
  case Nil
  show ?case by (simp add: pair_known_def paired_scan_def window_clean_def window_outputs_ok_def map_filter_simps)
next
  case (snoc x e)
  have "paired_scan (e @ [x]) = pair_step (length e, x) (paired_scan e)"
    by (simp add: paired_scan_def enumerate_snoc)
  then show ?case using pair_step_known [OF snoc] by simp
qed

section \<open>Codex: the file\<close>

definition codex_record_sound :: "json \<Rightarrow> bool" where
  "codex_record_sound r \<longleftrightarrow>
     (\<forall>v. json_get r (lit ''ordinal'') = Some v \<longrightarrow> as_u64 v \<noteq> None) \<and>
     (has_type r ''compacted'' \<longrightarrow>
       (\<exists>h. Option.bind (path2 r ''payload'' ''replacement_history'') as_array = Some h)) \<and>
     (has_type r ''response_item'' \<longrightarrow> (\<exists>p. json_get r (lit ''payload'') = Some p \<and> is_object p))"

definition record_ordinal :: "json option \<Rightarrow> u64 option" where
  "record_ordinal e = Option.bind e (\<lambda>r. Option.bind (json_get r (lit ''ordinal'')) as_u64)"

text \<open>The effective window: the newest replacement history and the response items after it.\<close>

definition window_next :: "nat \<times> json option \<Rightarrow> (nat \<times> json) list \<Rightarrow> (nat \<times> json) list" where
  "window_next e w =
     (case e of
        (_, None) \<Rightarrow> w
      | (i, Some r) \<Rightarrow>
          if has_type r ''compacted'' then
            (case Option.bind (path2 r ''payload'' ''replacement_history'') as_array of
               Some h \<Rightarrow> map (Pair i) h | None \<Rightarrow> [])
          else if has_type r ''response_item'' then
            w @ opt_list (map_option (Pair i) (json_get r (lit ''payload'')))
          else w)"

definition codex_window :: "json option list \<Rightarrow> (nat \<times> json) list" where
  "codex_window rs = fold window_next (enumerate 0 rs) []"

definition codex_sound :: "json option list \<Rightarrow> bool" where
  "codex_sound rs \<longleftrightarrow>
     (\<forall>r. Some r \<in> set rs \<longrightarrow> codex_record_sound r) \<and>
     sorted (List.map_filter record_ordinal rs) \<and>
     (\<forall>n \<le> length rs. length (codex_window (take n rs)) \<le> MAX_ITEMS)"

lemma codex_window_snoc: "codex_window (rs @ [e]) = window_next (length rs, e) (codex_window rs)"
  by (simp add: codex_window_def enumerate_snoc)

lemma codex_scanned_snoc: "codex_scanned (rs @ [e]) = codex_step (length rs, e) (codex_scanned rs)"
  by (simp add: codex_scanned_def enumerate_snoc)

definition last_ordinal :: "json option list \<Rightarrow> u64 option" where
  "last_ordinal rs = (case rev (List.map_filter record_ordinal rs) of [] \<Rightarrow> None | n # _ \<Rightarrow> Some n)"

lemma sorted_snoc_last:
  "sorted (xs @ [n]) \<longleftrightarrow> sorted xs \<and> (case rev xs of [] \<Rightarrow> True | m # _ \<Rightarrow> m \<le> (n :: u64))"
  by (cases xs rule: rev_cases) (auto simp: sorted_append)

lemma codex_sound_snoc:
  "codex_sound (rs @ [e]) \<longleftrightarrow> codex_sound rs \<and> (\<forall>r. e = Some r \<longrightarrow> codex_record_sound r) \<and>
     (\<forall>n m. record_ordinal e = Some n \<and> last_ordinal rs = Some m \<longrightarrow> m \<le> n) \<and>
     length (window_next (length rs, e) (codex_window rs)) \<le> MAX_ITEMS"
proof -
  have "sorted (List.map_filter record_ordinal (rs @ [e])) \<longleftrightarrow> sorted (List.map_filter record_ordinal rs) \<and>
      (\<forall>n m. record_ordinal e = Some n \<and> last_ordinal rs = Some m \<longrightarrow> m \<le> n)"
    by (cases "record_ordinal e")
      (auto simp: map_filter_append map_filter_one sorted_snoc_last last_ordinal_def split: list.splits)
  moreover have "(\<forall>n \<le> length (rs @ [e]). length (codex_window (take n (rs @ [e]))) \<le> MAX_ITEMS) \<longleftrightarrow>
      (\<forall>n \<le> length rs. length (codex_window (take n rs)) \<le> MAX_ITEMS) \<and> length (codex_window (rs @ [e])) \<le> MAX_ITEMS"
    by (auto simp: le_Suc_eq)
  ultimately show ?thesis unfolding codex_sound_def codex_window_snoc by auto
qed

definition scan_known :: "json option list \<Rightarrow> codex_scan \<Rightarrow> bool" where
  "scan_known rs st \<longleftrightarrow> (xs_findings st = [] \<longleftrightarrow> codex_sound rs) \<and>
     (codex_sound rs \<longrightarrow> \<not> xs_stopped st \<and> xs_effective st = codex_window rs \<and> xs_ordinal st = last_ordinal rs)"

lemma last_ordinal_snoc:
  "last_ordinal (rs @ [e]) = (case record_ordinal e of Some n \<Rightarrow> Some n | None \<Rightarrow> last_ordinal rs)"
  by (auto simp: last_ordinal_def map_filter_append map_filter_one split: option.split)

lemma ordinal_step_known:
  assumes "xs_ordinal st = last_ordinal rs"
  shows "xs_ordinal (ordinal_step i r st) = last_ordinal (rs @ [Some r])"
    and "xs_findings (ordinal_step i r st) = [] \<longleftrightarrow> xs_findings st = [] \<and>
      (\<forall>v. json_get r (lit ''ordinal'') = Some v \<longrightarrow> as_u64 v \<noteq> None) \<and>
      (\<forall>n m. record_ordinal (Some r) = Some n \<and> last_ordinal rs = Some m \<longrightarrow> m \<le> n)"
    and "xs_effective (ordinal_step i r st) = xs_effective st" "xs_stopped (ordinal_step i r st) = xs_stopped st"
  using assms
  by (auto simp: ordinal_step_def last_ordinal_snoc record_ordinal_def not_less split: option.splits)

lemma window_step_known:
  "xs_stopped (window_step i r st) = xs_stopped st" "xs_ordinal (window_step i r st) = xs_ordinal st"
  "xs_findings (window_step i r st) = [] \<longleftrightarrow> xs_findings st = [] \<and>
     (has_type r ''compacted'' \<longrightarrow>
       (\<exists>h. Option.bind (path2 r ''payload'' ''replacement_history'') as_array = Some h \<and> length h \<le> MAX_ITEMS)) \<and>
     (has_type r ''response_item'' \<longrightarrow> (\<exists>p. json_get r (lit ''payload'') = Some p \<and> is_object p))"
  "xs_findings (window_step i r st) = [] \<Longrightarrow>
     xs_effective (window_step i r st) = window_next (i, Some r) (xs_effective st)"
  by (auto simp: window_step_def window_next_def type_unique not_less split: option.splits if_splits)

lemma codex_step_grows:
  "xs_findings st \<noteq> [] \<Longrightarrow> xs_findings (codex_step e st) \<noteq> []"
proof -
  have o: "\<exists>fs. xs_findings (ordinal_step i r st) = xs_findings st @ fs" for i r st
    by (auto simp: ordinal_step_def split: option.split)
  have w: "\<exists>fs. xs_findings (window_step i r st) = xs_findings st @ fs" for i r st
    by (auto simp: window_step_def split: option.split)
  assume ne: "xs_findings st \<noteq> []"
  show ?thesis
  proof (cases e)
    case (Pair i x)
    then show ?thesis using ne o [of i _ st] w [of i _ "ordinal_step i _ st"]
      by (cases x) (auto simp: codex_step_def Let_def, metis append_is_Nil_conv)
  qed
qed

lemma codex_scanned_known: "scan_known rs (codex_scanned rs)"
proof (induction rs rule: rev_induct)
  case Nil
  show ?case by (simp add: scan_known_def codex_scanned_def codex_sound_def codex_window_def last_ordinal_def map_filter_simps)
next
  case (snoc e rs)
  let ?st = "codex_scanned rs"
  show ?case
  proof (cases "codex_sound rs")
    case False
    then have "xs_findings ?st \<noteq> []" using snoc by (simp add: scan_known_def)
    then show ?thesis using False codex_step_grows
      by (simp add: scan_known_def codex_scanned_snoc codex_sound_snoc)
  next
    case True
    then have st: "xs_findings ?st = []" "\<not> xs_stopped ?st" "xs_effective ?st = codex_window rs"
        "xs_ordinal ?st = last_ordinal rs" using snoc by (simp_all add: scan_known_def)
    show ?thesis
    proof (cases e)
      case None
      have "length (codex_window rs) \<le> MAX_ITEMS" using True by (auto simp: codex_sound_def)
      then show ?thesis using True st None
        by (simp add: scan_known_def codex_scanned_snoc codex_sound_snoc codex_step_def window_next_def
            codex_window_snoc last_ordinal_snoc record_ordinal_def)
    next
      case (Some r)
      let ?o = "ordinal_step (length rs) r ?st"
      let ?w = "window_step (length rs) r ?o"
      note o = ordinal_step_known [OF st(4), of "length rs" r]
      note w = window_step_known [of "length rs" r ?o]
      have step: "codex_scanned (rs @ [e]) =
          (if length (xs_effective ?w) > MAX_ITEMS
           then ?w\<lparr>xs_stopped := True, xs_findings := xs_findings ?w @ [v_error (Some (length rs)) ''transcript_limit''
             ''effective context exceeds item limit'']\<rparr> else ?w)"
        using st(2) Some by (simp add: codex_scanned_snoc codex_step_def Let_def)
      have eff: "xs_findings ?w = [] \<Longrightarrow> xs_effective ?w = window_next (length rs, e) (codex_window rs)"
        using w(4) o(3) st(3) Some by simp
      have hist: "length (window_next (length rs, e) (codex_window rs)) = length h"
        if "has_type r ''compacted''" "Option.bind (path2 r ''payload'' ''replacement_history'') as_array = Some h" for h
        using that Some by (simp add: window_next_def)
      have sound: "codex_sound (rs @ [e]) \<longleftrightarrow> xs_findings ?w = [] \<and> length (xs_effective ?w) \<le> MAX_ITEMS"
      proof
        assume s: "codex_sound (rs @ [e])"
        then have "xs_findings ?w = []"
          using w(3) o(2) st(1) Some hist unfolding codex_sound_snoc codex_record_sound_def by fastforce
        then show "xs_findings ?w = [] \<and> length (xs_effective ?w) \<le> MAX_ITEMS"
          using eff s by (simp add: codex_sound_snoc)
      next
        assume s: "xs_findings ?w = [] \<and> length (xs_effective ?w) \<le> MAX_ITEMS"
        then show "codex_sound (rs @ [e])"
          using w(3) o(2) st(1) Some True eff unfolding codex_sound_snoc codex_record_sound_def by auto
      qed
      show ?thesis using sound step eff o w(1,2) st(2) Some
        by (auto simp: scan_known_def codex_window_snoc)
    qed
  qed
qed

text \<open>C6: The verifier passes a Codex file exactly when the file is sound: ordinals are unsigned and never
  decrease, every compacted record carries a history and every response item an object, no window
  exceeds the item limit, and in the newest window every item has a supported shape, call identifiers
  and output identifiers are distinct, every output follows its call and every call has its output.\<close>

theorem verify_codex_exact:
  "verify_codex rs = [] \<longleftrightarrow> codex_sound rs \<and> window_paired (codex_window rs)"
proof (cases "codex_sound rs")
  case False
  then have "xs_findings (codex_scanned rs) \<noteq> []" using codex_scanned_known [of rs] by (simp add: scan_known_def)
  then show ?thesis using False by (simp add: verify_codex_def Let_def)
next
  case True
  then have st: "xs_findings (codex_scanned rs) = []" "\<not> xs_stopped (codex_scanned rs)"
      "xs_effective (codex_scanned rs) = codex_window rs" using codex_scanned_known [of rs] by (simp_all add: scan_known_def)
  let ?pr = "paired_scan (codex_window rs)"
  note known = paired_scan_known [of "codex_window rs", unfolded pair_known_def]
  have "verify_codex rs = [] \<longleftrightarrow> pr_findings ?pr = [] \<and>
      (\<forall>e \<in> set (pr_calls ?pr). fst e \<in> set (pr_answered ?pr))"
  proof -
    have one: "(case e of (u, _, l) \<Rightarrow> if u \<in> A then [] else [f l]) = [] \<longleftrightarrow> fst e \<in> A"
      for e :: "ustr \<times> nat \<times> nat" and A and f :: "nat \<Rightarrow> verify_finding"
      by (cases e) auto
    show ?thesis using st by (simp add: verify_codex_def Let_def one)
  qed
  also have "\<dots> \<longleftrightarrow> window_paired (codex_window rs)"
  proof -
    have "(\<forall>e \<in> set (pr_calls ?pr). fst e \<in> A) \<longleftrightarrow> fst ` set (pr_calls ?pr) \<subseteq> A" for A by auto
    then show ?thesis using known unfolding window_paired_def by metis
  qed
  finally show ?thesis using True by simp
qed

end
