(* ===== verification/Sessions.thy ===== *)
theory Sessions
  imports Accepted Checked
begin

text \<open>
  A concrete session file to which the properties of \<open>Accepted\<close> apply: a Codex rollout with two answered
  calls, the reader that knows its records, how it loads, what the verifier says of it, and what the
  elision of its first output does to it.
\<close>

declare lit_Cons [simp del]

section \<open>A reader for the lines of one file\<close>

definition drop_crs :: "ustr \<Rightarrow> ustr" where
  "drop_crs l = rev (dropWhile ((=) cr) (rev l))"

definition table_reader :: "json list \<Rightarrow> ustr \<Rightarrow> reading" where
  "table_reader vs l = (case find (\<lambda>v. json_text v = drop_crs l) vs of Some v \<Rightarrow> Tree v | None \<Rightarrow> Broken False)"

abbreviation file_of :: "json list \<Rightarrow> ustr" where
  "file_of vs \<equiv> concat (map (\<lambda>l. l @ [nl]) (map json_text vs))"

definition records_ok :: "json list \<Rightarrow> bool" where
  "records_ok vs \<longleftrightarrow> list_all (\<lambda>v. json_ok v \<and> is_object v) vs"

lemma drop_crs_append [simp]: "drop_crs (l @ [cr]) = drop_crs l"
  by (simp add: drop_crs_def)

lemma drop_crs_safe: "line_safe l \<Longrightarrow> drop_crs l = l"
proof -
  assume "line_safe l"
  then have "\<not> ends_with l [cr]" by (simp add: line_safe_def)
  then show ?thesis by (cases l rule: rev_cases) (auto simp: drop_crs_def ends_with_def)
qed

lemma trim_drop_crs: "trim l = [] \<Longrightarrow> list_all is_ws l"
proof -
  assume "trim l = []"
  then have "dropWhile is_ws (rev (dropWhile is_ws l)) = []" by (simp add: trim_def trim_start_def trim_end_def)
  then have "list_all is_ws (rev (dropWhile is_ws l))" by (simp add: list_all_iff)
  then have "dropWhile is_ws l = []"
    by (metis list_all_iff hd_dropWhile hd_in_set set_rev)
  then show ?thesis by (simp add: list_all_iff)
qed

lemma table_reader_text:
  assumes "records_ok vs" "v \<in> set vs"
  shows "table_reader vs (json_text v) = Tree v"
proof -
  have v: "json_ok v" "is_object v" using assms by (auto simp: records_ok_def list_all_iff)
  have "find (\<lambda>w. json_text w = json_text v) vs = Some v"
    using assms
  proof (induction vs)
    case (Cons w ws)
    have "w = v" if "json_text w = json_text v"
      using that Cons.prems(1) v json_text_inject [of w v "[]" "[]"] by (simp add: records_ok_def)
    then show ?case using Cons by (auto simp: records_ok_def)
  qed simp
  then show ?thesis using drop_crs_safe [OF object_line(1) [OF v]] by (simp add: table_reader_def)
qed

lemma table_reader_ok: "records_ok vs \<Longrightarrow> json_reader (table_reader vs)"
proof -
  assume ok: "records_ok vs"
  have "table_reader vs l = Broken False" if "trim l = []" for l
  proof -
    have ws: "list_all is_ws (drop_crs l)"
      using trim_drop_crs [OF that] by (auto simp: drop_crs_def list_all_iff dest: set_dropWhileD)
    have "json_text v \<noteq> drop_crs l" if "v \<in> set vs" for v
    proof -
      obtain kvs where "v = JObj kvs" using ok \<open>v \<in> set vs\<close>
        by (cases v) (auto simp: records_ok_def list_all_iff is_object_def)
      then have "123 \<in> set (json_text v)" by simp
      then have "json_text v = drop_crs l \<Longrightarrow> is_ws 123" using ws by (auto simp: list_all_iff)
      then show ?thesis by (auto simp: is_ws_def)
    qed
    then have "find (\<lambda>v. json_text v = drop_crs l) vs = None" by (simp add: find_None_iff)
    then show ?thesis by (simp add: table_reader_def)
  qed
  moreover have "json_ok v" if "table_reader vs l = Tree v" for l v
    using that ok by (auto simp: table_reader_def records_ok_def list_all_iff split: option.splits dest!: find_SomeD)
  ultimately show ?thesis by (auto simp: json_reader_def) (simp add: table_reader_def)
qed

lemma table_decodes:
  "records_ok vs \<Longrightarrow> v \<in> set vs \<Longrightarrow> decode_ok (table_reader vs) (json_text v) = Some v"
  "records_ok vs \<Longrightarrow> v \<in> set vs \<Longrightarrow> decode_record (table_reader vs) (json_text v) = Inr v"
proof -
  assume v: "records_ok vs" "v \<in> set vs"
  then have "unique_keys v" by (auto simp: records_ok_def list_all_iff intro: unique_keys_ok)
  then show "decode_ok (table_reader vs) (json_text v) = Some v"
    using table_reader_text [OF v] by (simp add: decode_ok_Some)
  then show "decode_record (table_reader vs) (json_text v) = Inr v" by (rule decode_ok_Inr)
qed

lemma file_lines: "records_ok vs \<Longrightarrow> lines (file_of vs) = map json_text vs"
  by (rule lines_concat) (auto simp: records_ok_def list_all_iff object_line)

lemma file_pieces: "records_ok vs \<Longrightarrow> split_inclusive (file_of vs) = map (\<lambda>v. json_text v @ [nl]) vs"
proof -
  assume "records_ok vs"
  then have "pieces_ok (map (\<lambda>v. json_text v @ [nl]) vs)"
    by (induction vs) (auto simp: records_ok_def closed_piece_def dest: json_text_no_nl)
  then show ?thesis using split_concat_pieces by (simp add: comp_def)
qed

section \<open>A Codex rollout\<close>

definition long_text :: ustr where
  "long_text = replicate 300 97"

definition call_payload :: "string \<Rightarrow> json" where
  "call_payload c = JObj [(lit ''type'', JStr (lit ''function_call'')), (lit ''call_id'', JStr (lit c)),
     (lit ''name'', JStr (lit ''shell''))]"

definition out_payload :: "string \<Rightarrow> ustr \<Rightarrow> json" where
  "out_payload c s = JObj [(lit ''type'', JStr (lit ''function_call_output'')),
     (lit ''call_id'', JStr (lit c)), (lit ''output'', JStr s)]"

definition item_record :: "json \<Rightarrow> json" where
  "item_record p = JObj [(lit ''type'', JStr (lit ''response_item'')), (lit ''payload'', p)]"

abbreviation call_record :: "string \<Rightarrow> json" where
  "call_record c \<equiv> item_record (call_payload c)"

abbreviation output_record :: "string \<Rightarrow> ustr \<Rightarrow> json" where
  "output_record c s \<equiv> item_record (out_payload c s)"

definition rollout :: "json list" where
  "rollout = [call_record ''a'', output_record ''a'' long_text, call_record ''b'', output_record ''b'' long_text]"

definition rollout_table :: "json list" where
  "rollout_table = rollout @ [output_record ''a'' (lit ''cut''), output_record ''b'' (lit ''cut'')]"

lemma rollout_ok: "records_ok rollout" "records_ok rollout_table"
  by (simp_all add: records_ok_def rollout_def rollout_table_def item_record_def call_payload_def out_payload_def is_object_def)

lemma long_text_facts:
  "json_string long_text = 34 # long_text @ [34]" "str_len long_text = 300" "length long_text = 300"
proof -
  have "concat (map escape_char (replicate n 97)) = replicate n 97" for n
    by (induction n) (simp_all add: escape_char_def)
  then show "json_string long_text = 34 # long_text @ [34]" by (simp add: json_string_def long_text_def)
  show "str_len long_text = 300" by (simp add: long_text_def str_len_def utf8_len_def map_replicate_const sum_list_replicate)
  show "length long_text = 300" by (simp add: long_text_def)
qed

text \<open>The lines of a file of typed records read without a finding of their own.\<close>

lemma scan_typed:
  assumes "records_ok vs" "set rs \<subseteq> set vs" "list_all (\<lambda>r. string_field r (lit ''type'')) rs"
  shows "scan_lines (table_reader vs) (map json_text rs) =
     \<lparr>ls_findings = [], ls_records = map Some rs, ls_bad = []\<rparr>"
proof -
  have line: "line_step (table_reader vs) (i, json_text r) st = st\<lparr>ls_records := ls_records st @ [Some r]\<rparr>"
    if "r \<in> set vs" "string_field r (lit ''type'')" for i r st
  proof -
    have r: "json_ok r" "is_object r" using assms(1) that(1) by (auto simp: records_ok_def list_all_iff)
    show ?thesis using table_decodes(2) [OF assms(1) that(1)] object_line(2) [OF r] r(2) that(2)
      by (simp add: line_step_def)
  qed
  have "fold (line_step (table_reader vs)) (enumerate n (map json_text rs)) st =
      st\<lparr>ls_records := ls_records st @ map Some rs\<rparr>" for n st
    using assms(2,3) by (induction rs arbitrary: n st) (simp_all add: line)
  then show ?thesis by (simp add: scan_lines_def)
qed

lemma verify_typed:
  assumes "records_ok vs" "set rs \<subseteq> set vs" "list_all (\<lambda>r. string_field r (lit ''type'')) rs"
    and "rs \<noteq> []" "length rs \<le> MAX_ITEMS" "records_ok rs" "str_len (file_of rs) \<le> limit"
  shows "verify p (table_reader vs) limit (Utf8 (file_of rs)) = sort_key line_order
     (case p of ClaudeCode \<Rightarrow> verify_claude (map Some rs) | Codex \<Rightarrow> verify_codex (map Some rs))"
proof -
  have "verify p (table_reader vs) limit (Utf8 (file_of rs)) = verify_lines p (table_reader vs) (map json_text rs)"
    using assms(4,5,7) file_lines [OF assms(6)] by (simp add: verify_def Let_def)
  then show ?thesis using scan_typed [OF assms(1-3)]
    by (cases p) (simp_all add: verify_lines_def bad_line_findings_def Let_def)
qed

subsection \<open>Loading it\<close>

lemmas record_evals = has_type_def get_str_def json_get_def as_str_def is_object_def string_field_def
  is_string_def field_or_null_def or_default_def path2_def as_array_def

lemma lit_differ [simp]: "lit (a # s) \<noteq> []" "[] \<noteq> lit (a # s)"
  by (simp_all add: lit_def)

lemma item_record_fields [simp]:
  "is_object (item_record p)" "json_get (item_record p) (lit ''ordinal'') = None"
  "has_type (item_record p) t \<longleftrightarrow> t = ''response_item''" "string_field (item_record p) (lit ''type'')"
  "field_or_null (item_record p) ''payload'' = p"
  by (auto simp: item_record_def record_evals)

lemma payload_objects [simp]: "is_object (call_payload c)" "is_object (out_payload c s)"
  by (simp_all add: call_payload_def out_payload_def is_object_def)

lemma codex_line_response:
  assumes "records_ok vs" "r \<in> set vs" "is_object r" "json_get r (lit ''ordinal'') = None"
    and "\<And>t. has_type r t \<longleftrightarrow> t = ''response_item''"
  shows "codex_line (table_reader vs) sha i (json_text r) st = Inr (response_step sha i r st)"
  using assms by (simp add: codex_line_def table_decodes)

lemma out_payload_facts:
  assumes "bounded_id (lit c)"
  shows "record_call_id (out_payload c s) = Some (lit c)" "supported_item (out_payload c s)"
    "output_text (out_payload c s) = Some s"
    "codex_elidable (out_payload c s) = (if 256 < (of_nat (str_len s) :: u64) then Some (of_nat (str_len s)) else None)"
proof -
  show id: "record_call_id (out_payload c s) = Some (lit c)"
    using assms by (simp add: out_payload_def record_call_id_def call_id_field_def record_evals)
  have t: "has_type (out_payload c s) ''function_call_output''" by (simp add: out_payload_def record_evals)
  show sup: "supported_item (out_payload c s)"
    using id by (simp add: supported_item_def type_unique [OF t] is_call_def supported_output_keys_def only_keys_def)
      (simp add: out_payload_def record_evals only_keys_def)
  show out: "output_text (out_payload c s) = Some s"
    by (simp add: output_text_def t) (simp add: out_payload_def record_evals)
  show "codex_elidable (out_payload c s) = (if 256 < (of_nat (str_len s) :: u64) then Some (of_nat (str_len s)) else None)"
    using sup out by (simp add: codex_elidable_def Let_def) (simp add: out_payload_def record_evals supported_content_def)
qed

text \<open>The two kinds of records as the loader sees them.\<close>

lemma bounded_ids [simp]: "bounded_id (lit ''a'')" "bounded_id (lit ''b'')"
  by (simp_all add: bounded_id_def lit_def str_len_def utf8_len_def is_control_def)

lemma payload_types: "has_type (call_payload c) ''function_call''" "has_type (out_payload c s) ''function_call_output''"
  by (simp_all add: call_payload_def out_payload_def record_evals)

lemma payload_kinds [simp]:
  "is_call (call_payload c)" "is_call_output (out_payload c s)" "\<not> is_call (out_payload c s)"
  by (simp_all add: is_call_def is_call_output_def type_unique [OF payload_types(1)] type_unique [OF payload_types(2)])

lemma call_payload_facts:
  assumes "bounded_id (lit c)"
  shows "record_call_id (call_payload c) = Some (lit c)" "supported_item (call_payload c)"
proof -
  show "record_call_id (call_payload c) = Some (lit c)"
    using assms by (simp add: call_payload_def record_call_id_def call_id_field_def record_evals)
  then show "supported_item (call_payload c)"
    by (simp add: supported_item_def type_unique [OF payload_types(1)])
qed

lemma call_item_simps:
  "line_index (response_item sha calls i (call_record c)) = i"
  "kind (response_item sha calls i (call_record c)) = ToolCall"
  "elidable_bytes (response_item sha calls i (call_record c)) = None"
proof -
  have p: "get_str (call_payload c) (lit ''type'') = Some (lit ''function_call'')"
      "json_get (call_payload c) (lit ''output'') = None"
    by (simp_all add: call_payload_def record_evals)
  show "line_index (response_item sha calls i (call_record c)) = i"
    "kind (response_item sha calls i (call_record c)) = ToolCall"
    "elidable_bytes (response_item sha calls i (call_record c)) = None"
    by (simp_all add: response_item_def classify_def codex_elidable_def str_field_def p Let_def)
qed

lemma output_item_simps:
  assumes "bounded_id (lit c)"
  shows "line_index (response_item sha calls i (output_record c s)) = i"
    "kind (response_item sha calls i (output_record c s)) = ToolResult"
    "elidable_bytes (response_item sha calls i (output_record c s)) =
       (if 256 < (of_nat (str_len s) :: u64) then Some (of_nat (str_len s)) else None)"
    "est_tokens (response_item sha calls i (output_record c s)) =
       estimate_tokens (str_len (json_text (out_payload c s)))"
proof -
  have t: "str_field (out_payload c s) (lit ''type'') = lit ''function_call_output''"
    by (simp add: out_payload_def str_field_def record_evals)
  have k: "classify (lit ''function_call_output'') r = ToolResult" for r by (simp add: classify_def)
  show "line_index (response_item sha calls i (output_record c s)) = i"
    "kind (response_item sha calls i (output_record c s)) = ToolResult"
    "elidable_bytes (response_item sha calls i (output_record c s)) =
       (if 256 < (of_nat (str_len s) :: u64) then Some (of_nat (str_len s)) else None)"
    "est_tokens (response_item sha calls i (output_record c s)) =
       estimate_tokens (str_len (json_text (out_payload c s)))"
    by (simp_all only: response_item_def Let_def item_record_fields t k out_payload_facts(4) [OF assms])
      (simp_all add: estimate_tokens_def)
qed

text \<open>A file of response items loads item by item.\<close>

definition response_record :: "json \<Rightarrow> bool" where
  "response_record r \<longleftrightarrow> is_object r \<and> json_get r (lit ''ordinal'') = None \<and> has_type r ''response_item'' \<and>
     is_object (field_or_null r ''payload'')"

lemma codex_lines_responses:
  assumes "records_ok vs" "set rs \<subseteq> set vs" "list_all response_record rs" "i + length rs \<le> MAX_ITEMS"
  shows "codex_lines (table_reader vs) sha i (map json_text rs) st =
     Inr (fold (\<lambda>(j, r). response_step sha j r) (enumerate i rs) st)"
  using assms(2-4)
proof (induction rs arbitrary: i st)
  case (Cons r rs)
  then have "response_record r" "r \<in> set vs" by simp_all
  then have "codex_line (table_reader vs) sha i (json_text r) st = Inr (response_step sha i r st)"
    using type_unique [of r "''response_item''"]
    by (intro codex_line_response [OF assms(1)]) (simp_all add: response_record_def)
  then show ?case using Cons by simp
qed simp

lemma rollout_records: "list_all response_record rollout"
  by (simp add: rollout_def response_record_def)

lemma rollout_typed: "list_all (\<lambda>r. string_field r (lit ''type'')) rollout"
  by (simp add: rollout_def)

lemma rollout_table_set: "set rollout \<subseteq> set rollout_table"
  by (auto simp: rollout_table_def)

lemma rollout_size: "length rollout = 4" "rollout \<noteq> []"
  by (simp_all add: rollout_def)

definition rollout_state :: "(nat list \<Rightarrow> ustr) \<Rightarrow> codex_load" where
  "rollout_state sha = fold (\<lambda>(j, r). response_step sha j r) (enumerate 0 rollout) empty_codex_load"

lemma rollout_lines:
  "codex_lines (table_reader rollout_table) sha 0 (lines (file_of rollout)) empty_codex_load = Inr (rollout_state sha)"
  unfolding file_lines [OF rollout_ok(1)] rollout_state_def
  by (rule codex_lines_responses [OF rollout_ok(2) rollout_table_set rollout_records])
    (simp add: rollout_size MAX_ITEMS_def)

lemma response_step_parts [simp]:
  "cl_items (response_step sha i r st) = cl_items st @ [response_item sha (cl_calls (response_step sha i r st)) i r]"
  "cl_ambiguous (response_step sha i r st) = cl_ambiguous st" "cl_usage (response_step sha i r st) = cl_usage st"
  by (simp_all add: response_step_def Let_def)

lemma rollout_state_parts:
  "\<exists>m0 m1 m2 m3. cl_items (rollout_state sha) = [response_item sha m0 0 (call_record ''a''),
     response_item sha m1 1 (output_record ''a'' long_text), response_item sha m2 2 (call_record ''b''),
     response_item sha m3 3 (output_record ''b'' long_text)]"
  "\<not> cl_ambiguous (rollout_state sha)" "cl_usage (rollout_state sha) = default_usage"
  by (simp_all add: rollout_state_def rollout_def empty_codex_load_def eval_nat_numeral) blast

lemma codex_step_response:
  assumes "response_record r" "\<not> xs_stopped st" "length (xs_effective st) < MAX_ITEMS"
  shows "codex_step (i, Some r) st = st\<lparr>xs_effective := xs_effective st @ [(i, field_or_null r ''payload'')]\<rparr>"
proof -
  obtain p where p: "json_get r (lit ''payload'') = Some p"
    using assms(1) by (cases "json_get r (lit ''payload'')") (auto simp: response_record_def field_or_null_def or_default_def is_object_def)
  then show ?thesis using assms type_unique [of r "''response_item''"]
    by (simp add: codex_step_def ordinal_step_def window_step_def response_record_def field_or_null_def or_default_def Let_def)
qed

lemma codex_scan_responses:
  "list_all response_record rs \<Longrightarrow> \<not> xs_stopped st \<Longrightarrow> length (xs_effective st) + length rs \<le> MAX_ITEMS \<Longrightarrow>
     fold codex_step (enumerate i (map Some rs)) st =
       st\<lparr>xs_effective := xs_effective st @ map (\<lambda>(j, r). (j, field_or_null r ''payload'')) (enumerate i rs)\<rparr>"
  by (induction rs arbitrary: i st) (simp_all add: codex_step_response)

lemma rollout_window: "enumerate 0 (map (\<lambda>r. field_or_null r ''payload'') rollout) = [(0, call_payload ''a''),
      (1, out_payload ''a'' long_text), (2, call_payload ''b''), (3, out_payload ''b'' long_text)]"
  by (simp add: rollout_def eval_nat_numeral)

lemma rollout_scan: "codex_scanned (map Some rollout) = \<lparr>xs_ordinal = None,
     xs_effective = [(0, call_payload ''a''), (1, out_payload ''a'' long_text), (2, call_payload ''b''),
       (3, out_payload ''b'' long_text)], xs_findings = [], xs_stopped = False\<rparr>"
proof -
  have "map (\<lambda>(j, r). (j, field_or_null r ''payload'')) (enumerate 0 rollout) =
      enumerate 0 (map (\<lambda>r. field_or_null r ''payload'') rollout)" by (auto simp: list_eq_iff_nth_eq nth_enumerate_eq)
  then show ?thesis unfolding codex_scanned_def
    by (subst codex_scan_responses [OF rollout_records]) (simp_all add: rollout_size MAX_ITEMS_def rollout_window)
qed

lemma rollout_findings: "verify_codex (map Some rollout) = []"
proof -
  have ab: "lit ''a'' \<noteq> lit ''b''" by simp
  show ?thesis
    by (simp add: verify_codex_def Let_def rollout_scan paired_scan_def pair_step_def supported_step_def
        call_payload_facts out_payload_facts call_step_def output_step_def eval_nat_numeral)
qed

lemma rollout_loads:
  assumes "str_len (file_of rollout) \<le> limit"
  shows "load_bytes Codex (table_reader rollout_table) sha limit h (file_of rollout) =
     Inr \<lparr>session = h, items = cl_items (rollout_state sha), usage = default_usage\<rparr>"
proof -
  have "verify Codex (table_reader rollout_table) limit (Utf8 (file_of rollout)) = []"
    using verify_typed [OF rollout_ok(2) rollout_table_set rollout_typed rollout_size(2) _ rollout_ok(1) assms, of Codex]
    by (simp add: rollout_findings rollout_size MAX_ITEMS_def)
  then show ?thesis
    using assms rollout_lines [of sha] rollout_state_parts(2,3) [of sha]
    by (simp add: load_bytes_def load_codex_def Let_def has_code_def)
qed

subsection \<open>Cutting it\<close>

abbreviation cut_text :: ustr where
  "cut_text \<equiv> lit ''cut''"

lemma cut_facts: "str_len cut_text = 3" "str_len (json_string cut_text) = 5" "utf8_len 34 = 1"
  by (simp_all add: lit_Cons str_len_def utf8_len_def json_string_def escape_char_def)

lemma cut_stub: "stub_for cut_text n k = cut_text"
proof -
  have "split_str (lit p) cut_text = [cut_text]" if "p = ''{kind}'' \<or> p = ''{bytes}''" for p
    using that by (auto simp: split_str.simps lit_Cons)
  then show ?thesis by (simp add: stub_for_def replace_str_def)
qed

lemma call_elided: "codex_elide_record cut_text per i (call_record c) = (call_record c, 0)"
proof -
  have "json_get (call_payload c) (lit ''output'') = None" by (simp add: call_payload_def record_evals)
  then have "elide_output f (call_payload c) = (call_payload c, 0)" for f
    by (simp add: elide_output_def codex_elidable_def)
  then show ?thesis
    by (simp add: codex_elide_record_def Let_def) (simp add: item_record_def record_evals alter_field_def update_field_def)
qed

lemma output_elided:
  assumes "bounded_id (lit c)"
  shows "codex_elide_record cut_text [] i (output_record c long_text) = (output_record c cut_text, 300)"
proof -
  have out: "json_get (out_payload c long_text) (lit ''output'') = Some (JStr long_text)"
    by (simp add: out_payload_def record_evals)
  have "elide cut_text (JStr long_text) = (JStr cut_text, 300)"
    by (simp add: elide_def eligible_bytes_def supported_content_def text_bytes_def stubbed_def long_text_facts cut_facts Let_def)
  then have "elide_output (\<lambda>old. stub_render cut_text [] i old k) (out_payload c long_text) = (out_payload c cut_text, 300)" for k
    using out out_payload_facts(4) [OF assms, of long_text]
    by (simp add: elide_output_def stub_render_def cut_stub long_text_facts)
      (simp add: out_payload_def alter_field_def update_field_def)
  then show ?thesis
    by (simp add: codex_elide_record_def Let_def) (simp add: item_record_def record_evals alter_field_def update_field_def)
qed

lemma rollout_reads_back:
  "list_all (reads_back (table_reader rollout_table)) (rewritten_records Codex (table_reader rollout_table) cut_text []
     (file_of rollout))"
proof -
  let ?t = "table_reader rollout_table"
  have "r' \<in> set rollout_table" if mem: "r' \<in> set (rewritten_records Codex ?t cut_text [] (file_of rollout))" for r'
  proof -
    obtain i l where il: "(i, l) \<in> set (enumerate 0 (map json_text rollout))"
        "(case decode_ok ?t l of None \<Rightarrow> None
          | Some r \<Rightarrow> (case elided_record Codex cut_text [] i r of (r', n) \<Rightarrow> if n = 0 then None else Some r')) = Some r'"
      using mem unfolding rewritten_records_def file_lines [OF rollout_ok(1)] map_filter_def by fastforce
    then obtain r where r: "r \<in> set rollout" "l = json_text r" using nth_mem by (fastforce simp: in_set_enumerate_eq)
    have "decode_ok ?t l = Some r" unfolding r(2)
      by (rule table_decodes(1) [OF rollout_ok(2)]) (use r(1) rollout_table_set in blast)
    then have "snd (codex_elide_record cut_text [] i r) \<noteq> 0" "fst (codex_elide_record cut_text [] i r) = r'"
      using il(2) by (auto simp: elided_record_def split: prod.splits if_splits)
    then show ?thesis using r(1) by (auto simp: rollout_def rollout_table_def call_elided output_elided)
  qed
  then show ?thesis
    using table_reader_text [OF rollout_ok(2)] by (auto simp: list_all_iff reads_back_def)
qed

lemma rollout_lowered:
  "lowered Codex (table_reader rollout_table) [1] cut_text [] (file_of rollout) =
     file_of [call_record ''a'', output_record ''a'' cut_text, call_record ''b'', output_record ''b'' long_text]"
proof -
  have line: "trim_nl (json_text (output_record ''a'' long_text) @ [nl]) = json_text (output_record ''a'' long_text)"
  proof -
    have "closed_piece (json_text (output_record ''a'' long_text) @ [nl])"
      using rollout_ok(1) by (auto simp: closed_piece_def records_ok_def rollout_def dest: json_text_no_nl)
    then show ?thesis using trim_nl_closed by (metis append_same_eq)
  qed
  have "decode_ok (table_reader rollout_table) (json_text (output_record ''a'' long_text)) = Some (output_record ''a'' long_text)"
    by (rule table_decodes(1) [OF rollout_ok(2)]) (simp add: rollout_table_def rollout_def)
  then have "lowered_piece Codex (table_reader rollout_table) cut_text [] 1 (json_text (output_record ''a'' long_text) @ [nl]) =
      json_text (output_record ''a'' cut_text) @ [nl]"
    unfolding lowered_piece_def line
    by (simp add: elided_record_def output_elided line_end_def ends_with_def)
  then show ?thesis
    unfolding lowered_concat file_pieces [OF rollout_ok(1)]
    by (simp add: rollout_def)
qed

subsection \<open>The elision of its first output\<close>

abbreviation rollout_file :: ustr where
  "rollout_file \<equiv> file_of rollout"

abbreviation cut_file :: ustr where
  "cut_file \<equiv> file_of [call_record ''a'', output_record ''a'' cut_text, call_record ''b'',
     output_record ''b'' long_text]"

lemma str_len_parts: "str_len (s @ t) = str_len s + str_len t" "str_len (c # s) = utf8_len c + str_len s" "str_len [] = 0"
  by (simp_all add: str_len_def)

lemma cut_smaller: "str_len cut_file < str_len rollout_file"
proof -
  have "str_len (json_text (output_record ''a'' cut_text)) < str_len (json_text (output_record ''a'' long_text))"
    by (simp add: item_record_def out_payload_def str_len_parts long_text_facts cut_facts)
  then show ?thesis by (simp add: rollout_def str_len_parts)
qed

definition rollout_transcript :: "(nat list \<Rightarrow> ustr) \<Rightarrow> session_handle \<Rightarrow> transcript" where
  "rollout_transcript sha h = \<lparr>session = h, items = cl_items (rollout_state sha), usage = default_usage\<rparr>"

lemma rollout_items:
  obtains i0 i1 i2 i3 where "items (rollout_transcript sha h) = [i0, i1, i2, i3]"
    "map line_index [i0, i1, i2, i3] = [0, 1, 2, 3]" "map is_elidable [i0, i1, i2, i3] = [False, True, False, True]"
proof -
  have est: "estimate_tokens n > 0" for n
    by (simp add: estimate_tokens_def estimate_token_bytes_def less_max_iff_disj)
  have "is_elidable (response_item sha m i (output_record c long_text))" if "bounded_id (lit c)" for m i c
    using est output_item_simps(3,4) [OF that, of sha m i long_text]
    by (simp add: is_elidable_def is_elidable_payload_def long_text_facts)
  moreover have "\<not> is_elidable (response_item sha m i (call_record c))" for m i c
    using call_item_simps(3) by (simp add: is_elidable_def is_elidable_payload_def)
  moreover obtain m0 m1 m2 m3 where its: "items (rollout_transcript sha h) = [response_item sha m0 0 (call_record ''a''),
     response_item sha m1 1 (output_record ''a'' long_text), response_item sha m2 2 (call_record ''b''),
     response_item sha m3 3 (output_record ''b'' long_text)]"
    using rollout_state_parts(1) [of sha] by (auto simp: rollout_transcript_def)
  ultimately show thesis
    by (intro that [OF its]) (simp_all add: call_item_simps(1) output_item_simps(1))
qed

lemma rollout_eligible: "eligible_targets (rollout_transcript sha h) [1] = [1]"
  by (rule rollout_items [of sha h]) (simp add: eligible_targets_def)

lemma rollout_bounds: "check_edit_bounds [Elide [1] cut_text []] = Inr ()"
  by (simp add: check_edit_bounds_def transform_edit_bounds_def MAX_EDITS_def MAX_ITEMS_def MAX_DIGEST_BYTES_def cut_facts)

lemma rollout_ready:
  "json_reader (table_reader rollout_table)"
  "load_bytes Codex (table_reader rollout_table) sha (str_len rollout_file) h rollout_file =
     Inr (rollout_transcript sha h)"
  "list_all (reads_back (table_reader rollout_table))
     (rewritten_records Codex (table_reader rollout_table) cut_text [] rollout_file)"
  "lowered Codex (table_reader rollout_table) (eligible_targets (rollout_transcript sha h) [1]) cut_text [] rollout_file =
     cut_file"
  by (simp_all only: table_reader_ok [OF rollout_ok(2)] rollout_loads [OF order_refl] rollout_transcript_def
      [symmetric] rollout_reads_back rollout_eligible rollout_lowered)

lemma rollout_plan: "validate_edits (rollout_transcript sha h) (default_policy\<lparr>keep_recent_tool_outputs := 1\<rparr>)
    [Elide [1] cut_text []] = Inr ()"
proof -
  obtain i0 i1 i2 i3 where its: "items (rollout_transcript sha h) = [i0, i1, i2, i3]"
    "map line_index [i0, i1, i2, i3] = [0, 1, 2, 3]" "map is_elidable [i0, i1, i2, i3] = [False, True, False, True]"
    by (rule rollout_items)
  have "\<not> contains_str cut_text (lit ''{kind}'')" "\<not> has_line_break cut_text"
    by (simp_all add: contains_str_def has_line_break_def lit_Cons)
  then have "plan_admissible (rollout_transcript sha h) 1 [Elide [1] cut_text []]"
    by (intro single_elide_admissible)
      (use its in \<open>simp_all add: MAX_ITEMS_def distinct_lines_def elision_target_def protected_lines_def cut_facts\<close>)
  then show ?thesis by (simp add: validate_edits_iff)
qed

lemma cut_fits: "str_len (lowered Codex (table_reader rollout_table)
    (eligible_targets (rollout_transcript sha h) [1]) cut_text [] rollout_file) \<le> str_len rollout_file"
  unfolding rollout_ready(4) by (rule less_imp_le [OF cut_smaller])

lemma rollout_protected: "protected_lines (rollout_transcript sha h) 1 = [3]"
  by (rule rollout_items [of sha h]) (simp add: protected_lines_def)

section \<open>The properties at the rollout\<close>

lemma elision_accepted_witness:
  "\<exists>out. transform Codex (table_reader rollout_table) (\<lambda>_. []) (str_len rollout_file) (\<lambda>_ l. l) [] (Utf8 rollout_file)
       [Elide [1] cut_text []] = Inr out \<and> length (split_inclusive out) = 4 \<and>
     list_all (\<lambda>i. i = 1 \<or> split_inclusive out ! i = split_inclusive rollout_file ! i) [0..<4] \<and>
     verify Codex (table_reader rollout_table) (str_len rollout_file) (Utf8 out) =
       verify Codex (table_reader rollout_table) (str_len rollout_file) (Utf8 rollout_file)"
proof -
  have "length (split_inclusive rollout_file) = 4" by (simp only: file_pieces [OF rollout_ok(1)] length_map rollout_size)
  then show ?thesis
    using elision_accepted [where sha = "\<lambda>_. []" and new_id = "\<lambda>_ l. l" and home = "[]",
      OF rollout_ready(1,2) rollout_bounds rollout_ready(3) cut_fits]
    by (simp only: rollout_eligible set_simps singleton_iff)
qed

lemma accepted_plan_keeps_protected_witness:
  "\<exists>out. transform Codex (table_reader rollout_table) (\<lambda>_. []) (str_len rollout_file) (\<lambda>_ l. l) [] (Utf8 rollout_file)
       [Elide [1] cut_text []] = Inr out \<and> out \<noteq> rollout_file \<and>
     (split_inclusive out ! 3 = split_inclusive rollout_file ! 3 \<or>
      split_inclusive out ! 3 = split_inclusive rollout_file ! 3 @ [10])"
proof -
  have n: "length (split_inclusive rollout_file) = 4" by (simp only: file_pieces [OF rollout_ok(1)] length_map rollout_size)
  note out = transform_elision(1) [where sha = "\<lambda>_. []" and new_id = "\<lambda>_ l. l" and home = "[]",
      OF rollout_ready(1,2) rollout_bounds rollout_ready(3) cut_fits,
      unfolded rollout_ready(4)]
  have "list_all (\<lambda>i. i \<in> set (concat (map elided_lines [Elide [1] cut_text []])) \<or>
      split_inclusive cut_file ! i = split_inclusive rollout_file ! i \<or>
      split_inclusive cut_file ! i = split_inclusive rollout_file ! i @ [10]) [0..<4]"
    by (rule accepted_plan_keeps_protected [OF rollout_ready(1,2) rollout_plan out, unfolded n,
        THEN conjunct2, THEN conjunct1])
  moreover have "3 \<in> set [0..<4]" "3 \<notin> set (concat (map elided_lines [Elide [1] cut_text []]))" by simp_all
  ultimately have "split_inclusive cut_file ! 3 = split_inclusive rollout_file ! 3 \<or>
      split_inclusive cut_file ! 3 = split_inclusive rollout_file ! 3 @ [10]" unfolding list_all_iff by blast
  moreover have "cut_file \<noteq> rollout_file" using cut_smaller by (metis less_irrefl)
  ultimately show ?thesis using out by blast
qed

end
