(* ===== verification/Spec2Isabelle.thy ===== *)
theory Spec2Isabelle
  imports Estimate Admission Model Plan Policy Validation StateCard Strategy Grouping Cliff Scored Heuristic Auto
    Json Billing RequestText Anthropic ChatDialect Responses Compact Pairing PairingKept Calibrate Evidence
    PrefixStore Engine Ladder Deferred Summaries Spliced Served Measured Conversation Forked Replay Replayed
    Payload Verify Load Surgery Elision Branch Lowering Reverify Accepted Checked Sessions
begin

text \<open>
  Gobstopper: a verification library.

  Gobstopper keeps the context of a coding agent small. It has two halves that share no state.

  \<^item> The transcript half. An adapter (\<open>crates/gobstopper-adapters\<close>) reads a session file into a
    \<open>transcript\<close>; the core crate (\<open>crates/gobstopper-core\<close>), a pure strategy engine, turns a transcript
    and a policy into a compaction plan, a list of edits; a validator decides whether the plan may be
    applied; the adapter lowers the edits to a rewritten file, which a verifier checks against the old one.
  \<^item> The request half (\<open>gobstopper-adapters/src/request\<close>). A proxy hands every request body of an agent
    to an engine, which replaces the longest prefix it compacted before by its stored summary,
    compacts the message list when its estimate passes a threshold, and compacts again, in a ladder
    of retries, when the provider refuses the request as too long.

  \<^bold>\<open>How the theories correspond to the code.\<close>

  \<^item> \<open>Prelude\<close>: machine integers with saturating and checked arithmetic, results, list facts.
    \<open>Strings\<close>: strings as lists of Unicode scalar values, with the operations of Rust's \<open>str\<close> in use.
    \<open>F64\<close>: binary64 numbers with rounding to nearest even, for the ratios of the policy.
  \<^item> Core data. \<open>Estimate\<close>: \<open>estimate.rs\<close>. \<open>Admission\<close>: \<open>admission.rs\<close>, the kernel of plan admission, a
    state machine over the classes of edits. \<open>Model\<close>: \<open>model.rs\<close>, transcript items and the usage
    accounting (\<open>usage_sample\<close> with its operations as the step relation \<open>usage_step\<close>). \<open>Plan\<close>: \<open>plan.rs\<close>,
    the edits and the state card with its parser and printer. \<open>Policy\<close>: \<open>PolicyConfig\<close>
    (\<open>strategy/mod.rs\<close>) and the adaptive tuner \<open>policy.rs\<close>. \<open>Validation\<close>: \<open>validation.rs\<close>.
  \<^item> Strategies, one definition \<open><name>_evaluate\<close> per file of \<open>strategy/\<close>. \<open>StateCard\<close>: the digest of
    \<open>strategy/mod.rs\<close>. \<open>Strategy\<close>: elide, cache_aware, compacted, structured, sawtooth. \<open>Grouping\<close>:
    dedupe, micro, middle. \<open>Cliff\<close>: cliff. \<open>Scored\<close>: scored with its heap. \<open>Heuristic\<close>: the built-in
    scorer and cache_edits. \<open>Auto\<close>: auto, agentic and the registry of built-in strategies.
  \<^item> The request half. \<open>Json\<close>: values of \<open>serde_json\<close> with their texts, and the hash chain over the
    messages of a history. \<open>Billing\<close>: \<open>images.rs\<close> and the billable size of a value. \<open>RequestText\<close>: the
    text helpers of \<open>request/mod.rs\<close>. \<open>Anthropic\<close>, \<open>ChatDialect\<close>, \<open>Responses\<close>: one dialect each.
    \<open>Compact\<close>: the dialect interface, grouping into turns, and one compaction step. \<open>Evidence\<close>:
    \<open>evidence.rs\<close>. \<open>PrefixStore\<close>: \<open>store.rs\<close>. \<open>Calibrate\<close>: \<open>calibrate.rs\<close>. \<open>Engine\<close>: \<open>engine.rs\<close>, the request
    context (\<open>request_ctx\<close>), the replay of threshold crossings (\<open>replay\<close>, \<open>feed_loop\<close>, \<open>adopt\<close>),
    preparation, the ladder \<open>reactive\<close> and deferred publication. \<open>Replay\<close>: \<open>replay.rs\<close>. \<open>Pairing\<close>: the
    pairing check of \<open>replay.rs\<close>.
  \<^item> Proofs about the request half. \<open>PairingKept\<close>: one compaction step and tool pairing. \<open>Ladder\<close>: the
    retries end. \<open>Deferred\<close>: publishing later is publishing now. \<open>Summaries\<close>: what a summary may hold.
    \<open>Spliced\<close>, \<open>Served\<close>: the shape of every request of a conversation, over the step relation \<open>served\<close>.
    \<open>Measured\<close>: the estimate is the size of what is sent. \<open>Conversation\<close>, \<open>Replayed\<close>: concrete
    conversations and recordings to which those theorems apply. \<open>Forked\<close>: a history that loses messages.
  \<^item> Transcript files. \<open>Payload\<close>: \<open>payload.rs\<close>, the decoding of a record, what text may be elided, and
    the elision of one value. \<open>Verify\<close>: \<open>verify.rs\<close> with the branch walk \<open>live_branch\<close> of \<open>claude.rs\<close>.
    \<open>Load\<close>: \<open>load_bytes\<close> of \<open>claude.rs\<close> (linkage, usage, items) and of \<open>codex.rs\<close> (response items,
    compacted windows, usage). \<open>Surgery\<close>: \<open>apply_elide\<close>, \<open>apply_inner\<close> and \<open>transform\<close> of both
    adapters, \<open>prepare\<close> and \<open>append_record\<close> of \<open>transaction.rs\<close>. Both work on the text of a file.
  \<^item> Proofs about transcript files. \<open>Elision\<close>: one value. \<open>Branch\<close>: the live branch is the ancestry of
    the leaf. \<open>Checked\<close>: what a clean file satisfies, stated without the verifier's scans. \<open>Lowering\<close>,
    \<open>Reverify\<close>: an elision moves no line and changes no finding. \<open>Accepted\<close>: elisions go through, and
    protected records are never rewritten. \<open>Sessions\<close>: a concrete rollout.

  \<^bold>\<open>Interfaces.\<close> A strategy is anything that satisfies the locale \<open>strategy_contract\<close>: its plans keep
  their accounts and name lines of the transcript. \<open>admissible_strategy\<close> extends it: its plans pass the
  validator. Both are interpreted on the model of every built-in strategy, in the theory of the
  strategy; \<open>micro\<close>, \<open>auto\<close> and \<open>agentic\<close> satisfy only the first, for the reason recorded below. The locale
  \<open>entry_cache\<close> (\<open>PrefixStore\<close>) is what the engine relies on in its store; it is interpreted on the
  model of the LRU cache.

  \<^bold>\<open>What the groups of lemmas show.\<close> The validator accepts exactly the admissible edit lists; the plans
  of the built-in strategies pass it; each strategy chooses what its file says (an exact
  characterisation, or a reference definition it agrees with). A compaction step keeps the head, the
  tail and the pairing of tool calls with results. Every request a conversation sends is a head of its
  history, at most one summary, and a suffix of its history; it is paired when the history is; and the
  estimate decided on is the billed size of the body sent. The retry ladder ends after at most four
  attempts. The store implements a least-recently-used list within its two bounds. The learnt ratio
  converges and stays between its samples. A transcript file is clean for the verifier exactly when its
  links, heads and call pairing are sound; lowering an accepted plan leaves every line it does not name
  as it was and adds no finding. Canonical texts, the hash chain and the state card are
  unambiguous.

  \<^bold>\<open>Bounds and termination.\<close> A value the source keeps in \<open>u64\<close> or \<open>u32\<close> and computes on is a word of that
  width, with the saturation or check written out. A \<open>usize\<close> that counts or indexes elements in memory,
  and the character counts of the request half, are naturals: they are sizes of lists that exist, and
  every subtraction of the source on them saturates. No definition uses fuel: every loop is a fold, a
  structural recursion, or a \<open>function\<close> with its termination proof.

  \<^bold>\<open>Arguments of the model.\<close> Code that is not in the repository is an argument: \<open>sha\<close> (SHA-256),
  \<open>parse\<close> (JSON reading), \<open>lc\<close> (Unicode lower case), \<open>show_f64\<close> (float printing), the logarithm of the
  heuristic scorer, the scorer of \<open>scored\<close>, the identifiers of injected records (\<open>new_id\<close>), the home
  directory and the byte limit of transcripts. Of \<open>parse\<close> on a line the transcript theorems use
  \<open>json_reader\<close> (blank text is no value, a carriage return at the end of a line is ignored, the numbers
  of a value are printable) and, where records are written, that they read back (\<open>reads_back\<close>). What a theorem needs of them is a named hypothesis
  (for example that \<open>sha\<close> does not collide on the inputs at hand), and a witness instantiates it.

  \<^bold>\<open>Findings.\<close> \<open>micro\<close> proposes plans the validator refuses (\<open>micro_elides_protected_output\<close>); a goal
  with a line break forges a field of the state card (\<open>digest_text_multiline_goal_forges_field\<close>); an
  adapted policy can fail the check its configuration passed (\<open>adapt_escapes_admission\<close>); a history that
  forks at a stored cut loses messages (\<open>forked_history_loses_messages\<close>); on the Responses dialect a
  compaction can separate a late output from its call (\<open>responses_compaction_can_orphan_output\<close>).

  \<^bold>\<open>Not modelled.\<close> The discovery scans, process control and native compaction of the two adapters (\<open>scan_usage\<close>,
  \<open>live_sessions\<close>, \<open>headless_compact\<close>, \<open>codex_compact.rs\<close>), which read directories and run programs;
  the publication of files and the vault, which are file system protocols
  (locks, renames, directory syncs); the event log and the probes, which fold over records read from
  disk; discovery, the command line, the HTTP proxy with its service management, the session database
  and the self update, which drive third-party crates and the operating system.
\<close>

end
